(* ===== verification/Prelude.thy ===== *)
theory Prelude
  imports "HOL-Library.Word" "HOL-Library.Monad_Syntax" "HOL-Library.Sublist"
begin

unbundle bit_operations_syntax

text \<open>
  Shared vocabulary of the development: machine integers, characters and C strings, fixed-size
  character buffers, and the collections of rewrite rules that the component theories extend.

  An operation whose C code can run into undefined behaviour (a write past the end of a
  buffer, a dereference of \<open>NULL\<close>, a read of an uninitialised object, an index outside an
  array) returns an option: \<open>None\<close> is that outcome and never an error the code itself
  detects. Errors the code detects keep the value the code returns for them.
\<close>

named_theorems model_simps \<open>unfolding rules of small definitions of the model\<close>
named_theorems cstr_simps \<open>facts about C strings and their library functions\<close>

subsection \<open>Machine integers\<close>

text \<open>
  A C \<open>int\<close> is an integer in the range of 32-bit two's complement; \<open>i32\<close> is the
  conversion of a wider value to \<open>int\<close> (gcc keeps the low 32 bits), and also what
  additions of \<open>int\<close> yield on this target. \<open>i64\<close> is the same for \<open>long\<close>, \<open>ssize_t\<close> and
  \<open>off_t\<close>; \<open>u64\<close> for \<open>size_t\<close> and for pointers compared as numbers.
\<close>

definition i32 :: "int \<Rightarrow> int" where
  "i32 x = signed_take_bit 31 x"

definition i64 :: "int \<Rightarrow> int" where
  "i64 x = signed_take_bit 63 x"

definition u64 :: "int \<Rightarrow> int" where
  "u64 x = take_bit 64 x"

definition INT_MAX :: int where
  "INT_MAX = 2147483647"

definition INT_MIN :: int where
  "INT_MIN = -2147483648"

definition is_i32 :: "int \<Rightarrow> bool" where
  "is_i32 x \<longleftrightarrow> INT_MIN \<le> x \<and> x \<le> INT_MAX"

lemma i32_id: "is_i32 x \<Longrightarrow> i32 x = x"
  by (simp add: i32_def is_i32_def INT_MAX_def INT_MIN_def signed_take_bit_int_eq_self)

lemma i32_range: "is_i32 (i32 x)"
  using signed_take_bit_int_greater_eq_minus_exp [of 31 x]
    signed_take_bit_int_less_exp [of 31 x]
  by (simp add: i32_def is_i32_def INT_MAX_def INT_MIN_def)

lemma i64_id: "- (2 ^ 63) \<le> x \<Longrightarrow> x < 2 ^ 63 \<Longrightarrow> i64 x = x"
  by (simp add: i64_def signed_take_bit_int_eq_self)

lemma u64_id: "0 \<le> x \<Longrightarrow> x < 2 ^ 64 \<Longrightarrow> u64 x = x"
  by (simp add: u64_def take_bit_int_eq_self)

lemma u64_nonneg: "0 \<le> u64 x"
  by (simp add: u64_def)

lemma u64_neg: "- (2 ^ 63) \<le> x \<Longrightarrow> x < 0 \<Longrightarrow> u64 x = 2 ^ 64 + x"
proof -
  assume a: "- (2 ^ 63) \<le> x" "x < 0"
  have "x mod 2 ^ 64 = (2 ^ 64 + x) mod 2 ^ 64" by simp
  also have "\<dots> = 2 ^ 64 + x" by (rule mod_pos_pos_trivial) (use a in simp_all)
  finally show ?thesis by (simp add: u64_def take_bit_eq_mod)
qed

subsection \<open>Characters\<close>

abbreviation NUL :: char where
  "NUL \<equiv> CHR 0x00"

abbreviation LF :: char where
  "LF \<equiv> CHR 0x0A"

abbreviation CR :: char where
  "CR \<equiv> CHR 0x0D"

abbreviation DQUOTE :: char where
  "DQUOTE \<equiv> CHR 0x22"

definition crlf :: string where
  "crlf = [CR, LF]"

text \<open>The code of a character, as \<open>unsigned char\<close> and as the signed \<open>char\<close> of x86.\<close>

definition uchar :: "char \<Rightarrow> int" where
  "uchar c = of_char c"

definition schar :: "char \<Rightarrow> int" where
  "schar c = signed_take_bit 7 (of_char c)"

lemma uchar_nat: "uchar c = int (of_char c)"
  by (simp only: uchar_def of_nat_of_char)

lemma uchar_range: "0 \<le> uchar c \<and> uchar c < 256"
proof -
  have "uchar c = uchar c mod 256" by (simp add: uchar_def)
  then show ?thesis by (metis pos_mod_bound pos_mod_sign zero_less_numeral)
qed

lemma uchar_inject: "uchar c = uchar d \<longleftrightarrow> c = d"
  by (simp add: uchar_def)

subsection \<open>C strings and buffers\<close>

text \<open>
  A C string is the list of its characters before the terminator, so it holds no \<open>NUL\<close>.
  A buffer \<open>char b[n]\<close> that holds a string is that string; copying a string into a buffer
  needs room for the string and its terminator.
\<close>

definition cstring :: "string \<Rightarrow> bool" where
  "cstring s \<longleftrightarrow> NUL \<notin> set s"

text \<open>What a read through a \<open>char *\<close> sees of the bytes stored from there on.\<close>

definition c_str :: "string \<Rightarrow> string" where
  "c_str m = takeWhile (\<lambda>c. c \<noteq> NUL) m"

definition fits :: "nat \<Rightarrow> string \<Rightarrow> bool" where
  "fits n s \<longleftrightarrow> length s < n"

text \<open>\<open>strcpy\<close> into a buffer of \<open>n\<close> bytes; the outcome of an overflow is undefined.\<close>

definition strcpy_buf :: "nat \<Rightarrow> string \<Rightarrow> string option" where
  "strcpy_buf n s = (if fits n s then Some s else None)"

text \<open>
  \<open>strncpy\<close> with the size of the destination: a source that fills the buffer leaves it
  without a terminator, and the next read of the field runs past its end; that outcome is
  placed at the copy.
\<close>

definition strncpy_buf :: "nat \<Rightarrow> string \<Rightarrow> string option" where
  "strncpy_buf n s = (if fits n s then Some s else None)"

lemma cstring_Nil [simp]: "cstring []"
  by (simp add: cstring_def)

lemma cstring_Cons [simp]: "cstring (c # s) \<longleftrightarrow> c \<noteq> NUL \<and> cstring s"
  by (auto simp: cstring_def)

lemma cstring_append [simp]: "cstring (s @ t) \<longleftrightarrow> cstring s \<and> cstring t"
  by (auto simp: cstring_def)

lemma cstring_take: "cstring s \<Longrightarrow> cstring (take n s)"
  by (auto simp: cstring_def dest: in_set_takeD)

lemma cstring_drop: "cstring s \<Longrightarrow> cstring (drop n s)"
  by (auto simp: cstring_def dest: in_set_dropD)

lemma cstring_c_str [simp]: "cstring (c_str m)"
  by (auto simp: cstring_def c_str_def dest: set_takeWhileD)

lemma c_str_append_NUL [simp]: "cstring s \<Longrightarrow> c_str (s @ NUL # m) = s"
  unfolding c_str_def cstring_def by (induction s) auto

lemma c_str_id: "cstring s \<Longrightarrow> c_str s = s"
  unfolding c_str_def cstring_def by (induction s) auto

lemma strcpy_buf_Some [simp]: "strcpy_buf n s = Some t \<longleftrightarrow> length s < n \<and> t = s"
  by (auto simp: strcpy_buf_def fits_def)

lemma strcpy_buf_None [simp]: "strcpy_buf n s = None \<longleftrightarrow> n \<le> length s"
  by (auto simp: strcpy_buf_def fits_def)

lemma strcpy_buf_bind [simp]: "length s < n \<Longrightarrow> Option.bind (strcpy_buf n s) f = f s"
  by (simp add: strcpy_buf_def fits_def)

lemma strncpy_buf_Some [simp]: "strncpy_buf n s = Some t \<longleftrightarrow> length s < n \<and> t = s"
  by (auto simp: strncpy_buf_def fits_def)

lemma strncpy_buf_None [simp]: "strncpy_buf n s = None \<longleftrightarrow> n \<le> length s"
  by (auto simp: strncpy_buf_def fits_def)

subsection \<open>Lists and options\<close>

lemma bind_Some_iff: "Option.bind x f = Some y \<longleftrightarrow> (\<exists>z. x = Some z \<and> f z = Some y)"
  by (cases x) auto

lemma takeWhile_all: "\<forall>x\<in>set xs. P x \<Longrightarrow> takeWhile P xs = xs"
  by (induction xs) auto

lemma takeWhile_stop: "\<forall>x\<in>set xs. P x \<Longrightarrow> \<not> P y \<Longrightarrow> takeWhile P (xs @ y # ys) = xs"
  by (induction xs) auto

lemma dropWhile_stop: "\<forall>x\<in>set xs. P x \<Longrightarrow> \<not> P y \<Longrightarrow> dropWhile P (xs @ y # ys) = y # ys"
  by (induction xs) auto

lemma dropWhile_all: "\<forall>x\<in>set xs. P x \<Longrightarrow> dropWhile P xs = []"
  by (induction xs) auto

lemma take_eq_prefix: "length k = n \<Longrightarrow> take n m = k \<longleftrightarrow> prefix k m"
  unfolding prefix_def by (metis append_eq_conv_conj append_take_drop_id)

lemma map_update_same: "i < length xs \<Longrightarrow> f y = f (xs ! i) \<Longrightarrow> map f (xs[i := y]) = map f xs"
  by (rule nth_equalityI) (auto simp: nth_list_update)

end
