(* ===== verification/CString.thy ===== *)
theory CString
  imports Prelude
begin

text \<open>
  The functions of the C library that the program calls on strings, as executable functions:
  \<open>strstr\<close>, \<open>strchr\<close>, \<open>strtok_r\<close>, \<open>strtol\<close>, \<open>atoi\<close>, the conversions of \<open>sscanf\<close> that
  the program uses, and decimal output (\<open>%d\<close>, \<open>%ld\<close>). A pointer into a string is the
  rest of the string from there.
\<close>

subsection \<open>Character classes\<close>

definition isspace :: "char \<Rightarrow> bool" where
  "isspace c \<longleftrightarrow> c \<in> {CHR 0x20, CHR 0x09, CHR 0x0A, CHR 0x0B, CHR 0x0C, CHR 0x0D}"

definition isdigit :: "char \<Rightarrow> bool" where
  "isdigit c \<longleftrightarrow> 48 \<le> uchar c \<and> uchar c \<le> 57"

definition tolower :: "char \<Rightarrow> char" where
  "tolower c = (if 65 \<le> uchar c \<and> uchar c \<le> 90 then char_of (nat (uchar c) + 32) else c)"

subsection \<open>Searching\<close>

definition starts_with :: "string \<Rightarrow> string \<Rightarrow> bool" where
  "starts_with p s \<longleftrightarrow> take (length p) s = p"

fun strstr :: "string \<Rightarrow> string \<Rightarrow> string option" where
  "strstr [] n = (if n = [] then Some [] else None)"
| "strstr (c # s) n = (if starts_with n (c # s) then Some (c # s) else strstr s n)"

fun strchr :: "string \<Rightarrow> char \<Rightarrow> string option" where
  "strchr [] c = None"
| "strchr (d # s) c = (if d = c then Some (d # s) else strchr s c)"

lemma starts_with_prefix: "starts_with p s \<longleftrightarrow> prefix p s"
  by (simp add: starts_with_def take_eq_prefix)

lemma strstr_Some_suffix:
  "strstr s n = Some r \<Longrightarrow> \<exists>a. s = a @ r \<and> prefix n r"
proof (induction s n rule: strstr.induct)
  case (1 n)
  then show ?case by (auto split: if_splits)
next
  case (2 c s n)
  then show ?case
    by (auto simp: starts_with_prefix split: if_splits intro: exI [of _ "_ # _"])
qed

lemma strstr_None_iff: "strstr s n = None \<longleftrightarrow> \<not> sublist n s"
proof (induction s n rule: strstr.induct)
  case (1 n)
  then show ?case by auto
next
  case (2 c s n)
  then show ?case
    by (auto simp: starts_with_prefix sublist_Cons_right)
qed

lemma strstr_hit: "prefix n s \<Longrightarrow> strstr s n = Some s"
  by (cases s) (auto simp: starts_with_prefix)

subsection \<open>Tokens\<close>

text \<open>
  \<open>strtok_r\<close>: the token (\<open>None\<close> is \<open>NULL\<close>) and the rest where the next call goes on.
  Leading delimiters are skipped; the delimiter after the token is overwritten and skipped.
\<close>

definition strtok_r :: "string \<Rightarrow> string \<Rightarrow> string option \<times> string" where
  "strtok_r delims s =
     (let s' = dropWhile (\<lambda>c. c \<in> set delims) s
      in if s' = [] then (None, [])
         else (Some (takeWhile (\<lambda>c. c \<notin> set delims) s'),
               drop 1 (dropWhile (\<lambda>c. c \<notin> set delims) s')))"

lemma strtok_r_None_iff: "fst (strtok_r d s) = None \<longleftrightarrow> set s \<subseteq> set d"
  by (auto simp: strtok_r_def Let_def dropWhile_eq_Nil_conv)

lemma strtok_r_token:
  assumes "fst (strtok_r d s) = Some t"
  shows "t \<noteq> []" and "set t \<inter> set d = {}"
proof -
  from assms have ne: "dropWhile (\<lambda>c. c \<in> set d) s \<noteq> []"
    and t: "t = takeWhile (\<lambda>c. c \<notin> set d) (dropWhile (\<lambda>c. c \<in> set d) s)"
    by (auto simp: strtok_r_def Let_def split: if_splits)
  from ne have "hd (dropWhile (\<lambda>c. c \<in> set d) s) \<notin> set d"
    by (rule hd_dropWhile)
  with ne show "t \<noteq> []"
    unfolding t by (cases "dropWhile (\<lambda>c. c \<in> set d) s") auto
  show "set t \<inter> set d = {}"
    unfolding t by (auto dest: set_takeWhileD)
qed

lemma strtok_r_split:
  assumes "a \<noteq> []" "set a \<inter> set d = {}" "c \<in> set d"
  shows "strtok_r d (a @ c # s) = (Some a, s)"
proof -
  have p: "\<forall>x\<in>set a. x \<notin> set d" using assms(2) by auto
  have "dropWhile (\<lambda>x. x \<in> set d) (a @ c # s) = a @ c # s"
    using assms(1) p by (cases a) auto
  with p assms show ?thesis
    by (simp add: strtok_r_def Let_def takeWhile_stop dropWhile_stop)
qed

lemma strtok_r_whole:
  assumes "a \<noteq> []" "set a \<inter> set d = {}"
  shows "strtok_r d a = (Some a, [])"
proof -
  have p: "\<forall>x\<in>set a. x \<notin> set d" using assms(2) by auto
  have "dropWhile (\<lambda>x. x \<in> set d) a = a"
    using assms(1) p by (cases a) auto
  with p assms show ?thesis
    by (simp add: strtok_r_def Let_def takeWhile_all dropWhile_all)
qed

lemma length_strtok_r_token: "fst (strtok_r d s) = Some t \<Longrightarrow> length t \<le> length s"
  using le_trans [OF length_takeWhile_le [of "\<lambda>c. c \<notin> set d"] length_dropWhile_le [of "\<lambda>c. c \<in> set d" s]]
  by (auto simp: strtok_r_def Let_def split: if_splits)

lemma length_strtok_r:
  assumes "fst (strtok_r d s) = Some t"
  shows "length (snd (strtok_r d s)) < length s"
proof -
  let ?s = "dropWhile (\<lambda>c. c \<in> set d) s"
  from assms have ne: "?s \<noteq> []" by (auto simp: strtok_r_def Let_def split: if_splits)
  let ?t = "dropWhile (\<lambda>c. c \<notin> set d) ?s"
  have l: "length ?t \<le> length ?s" "length ?s \<le> length s"
    by (rule length_dropWhile_le)+
  have "0 < length ?s" using ne by (rule length_greater_0_conv [THEN iffD2])
  with l have "length ?t - 1 < length s" by linarith
  moreover have "snd (strtok_r d s) = drop 1 ?t"
    by (simp only: strtok_r_def Let_def ne if_False snd_conv)
  ultimately show ?thesis by (simp only: length_drop)
qed

subsection \<open>Decimal input\<close>

fun digits_value :: "int \<Rightarrow> string \<Rightarrow> int" where
  "digits_value a [] = a"
| "digits_value a (c # s) = digits_value (10 * a + (uchar c - 48)) s"

definition sign_of :: "string \<Rightarrow> bool \<times> string" where
  "sign_of s = (case s of
       [] \<Rightarrow> (False, s)
     | c # t \<Rightarrow> if c = CHR ''-'' then (True, t) else if c = CHR ''+'' then (False, t) else (False, s))"

text \<open>\<open>strtol\<close> saturates at the ends of the range of \<open>long\<close>.\<close>

definition clamp64 :: "int \<Rightarrow> int" where
  "clamp64 x = max (- (2 ^ 63)) (min (2 ^ 63 - 1) x)"

text \<open>A decimal number after optional space and sign: its value and the rest, if there is one.\<close>

definition scan_long :: "string \<Rightarrow> (int \<times> string) option" where
  "scan_long s =
     (let s1 = dropWhile isspace s; (neg, s2) = sign_of s1; ds = takeWhile isdigit s2;
          v = digits_value 0 ds
      in if ds = [] then None
         else Some (clamp64 (if neg then - v else v), dropWhile isdigit s2))"

definition strtol :: "string \<Rightarrow> int" where
  "strtol s = (case scan_long s of None \<Rightarrow> 0 | Some (v, _) \<Rightarrow> v)"

definition atoi :: "string \<Rightarrow> int" where
  "atoi s = i32 (strtol s)"

subsection \<open>Decimal output\<close>

definition digit_char :: "nat \<Rightarrow> char" where
  "digit_char d = char_of (48 + d)"

fun show_nat :: "nat \<Rightarrow> string" where
  "show_nat n = (if n < 10 then [digit_char n] else show_nat (n div 10) @ [digit_char (n mod 10)])"

declare show_nat.simps [simp del]

definition show_int :: "int \<Rightarrow> string" where
  "show_int x = (if x < 0 then CHR ''-'' # show_nat (nat (- x)) else show_nat (nat x))"

lemma uchar_digit_char: "d < 10 \<Longrightarrow> uchar (digit_char d) = 48 + int d"
  by (simp add: uchar_nat digit_char_def)

lemma isdigit_digit_char: "d < 10 \<Longrightarrow> isdigit (digit_char d)"
  by (simp add: isdigit_def uchar_digit_char)

lemma show_nat_digits: "c \<in> set (show_nat n) \<Longrightarrow> isdigit c"
proof (induction n rule: show_nat.induct)
  case (1 n)
  show ?case
  proof (cases "n < 10")
    case True
    with "1.prems" show ?thesis
      by (simp add: show_nat.simps [of n] isdigit_digit_char)
  next
    case False
    with "1.prems" have "c \<in> set (show_nat (n div 10)) \<or> c = digit_char (n mod 10)"
      by (auto simp: show_nat.simps [of n])
    with "1.IH" [OF False] show ?thesis
      by (auto simp: isdigit_digit_char)
  qed
qed

lemma show_nat_ne [simp]: "show_nat n \<noteq> []"
  by (subst show_nat.simps) simp

lemma length_show_nat: "0 < k \<Longrightarrow> n < 10 ^ k \<Longrightarrow> length (show_nat n) \<le> k"
proof (induction k arbitrary: n)
  case 0
  then show ?case by simp
next
  case (Suc k)
  show ?case
  proof (cases "n < 10")
    case True
    then show ?thesis by (simp add: show_nat.simps [of n])
  next
    case False
    then have "0 < k" using Suc.prems by (cases k) auto
    moreover have "n div 10 < 10 ^ k" using Suc.prems by auto
    ultimately show ?thesis
      using False Suc.IH [of "n div 10"] by (simp add: show_nat.simps [of n])
  qed
qed

lemma digits_value_append:
  "digits_value a (s @ t) = digits_value (digits_value a s) t"
  by (induction s arbitrary: a) auto

lemma digits_value_show_nat: "digits_value 0 (show_nat n) = int n"
proof (induction n rule: show_nat.induct)
  case (1 n)
  show ?case
  proof (cases "n < 10")
    case True
    then show ?thesis by (simp add: show_nat.simps [of n] uchar_digit_char)
  next
    case False
    have "digits_value 0 (show_nat n) = 10 * int (n div 10) + int (n mod 10)"
      using False "1.IH" [OF False]
      by (simp add: show_nat.simps [of n] digits_value_append uchar_digit_char)
    also have "\<dots> = int n" by presburger
    finally show ?thesis .
  qed
qed

lemma isdigit_not_space: "isdigit c \<Longrightarrow> \<not> isspace c"
  by (auto simp: isdigit_def isspace_def uchar_def)

lemma isdigit_not_sign: "isdigit c \<Longrightarrow> c \<noteq> CHR ''-'' \<and> c \<noteq> CHR ''+''"
  by (auto simp: isdigit_def uchar_def)

lemma isdigit_ne: "isdigit c \<Longrightarrow> c \<noteq> NUL"
  by (auto simp: isdigit_def uchar_def)

lemma show_nat_hd: "\<exists>c s. show_nat n = c # s \<and> isdigit c"
  using show_nat_digits [of _ n] show_nat_ne [of n]
  by (cases "show_nat n") auto

lemma sign_of_show_nat: "sign_of (show_nat n @ r) = (False, show_nat n @ r)"
  using show_nat_hd [of n] isdigit_not_sign by (auto simp: sign_of_def)

lemma dropWhile_space_show_nat: "dropWhile isspace (show_nat n @ r) = show_nat n @ r"
  using show_nat_hd [of n] isdigit_not_space by auto

definition no_digit :: "string \<Rightarrow> bool" where
  "no_digit r \<longleftrightarrow> (case r of [] \<Rightarrow> True | c # _ \<Rightarrow> \<not> isdigit c)"

lemma takeWhile_digits: "no_digit r \<Longrightarrow> takeWhile isdigit (show_nat n @ r) = show_nat n"
  using show_nat_digits [of _ n]
  by (cases r) (auto simp: no_digit_def takeWhile_all takeWhile_stop)

lemma dropWhile_digits: "no_digit r \<Longrightarrow> dropWhile isdigit (show_nat n @ r) = r"
  using show_nat_digits [of _ n]
  by (cases r) (auto simp: no_digit_def dropWhile_all dropWhile_stop)

text \<open>Reading back a printed number, whatever non-digit follows it.\<close>

lemma scan_long_show_int:
  assumes "no_digit r" "- (2 ^ 63) \<le> x" "x < 2 ^ 63"
  shows "scan_long (show_int x @ r) = Some (x, r)"
proof (cases "x < 0")
  case True
  have "\<not> isspace (CHR ''-'')" by (simp add: isspace_def)
  with True assms show ?thesis
    by (simp add: scan_long_def show_int_def sign_of_def takeWhile_digits dropWhile_digits
        digits_value_show_nat clamp64_def)
next
  case False
  with assms show ?thesis
    by (simp add: scan_long_def show_int_def dropWhile_space_show_nat sign_of_show_nat
        takeWhile_digits dropWhile_digits digits_value_show_nat clamp64_def)
qed

lemma strtol_show_int:
  "no_digit r \<Longrightarrow> - (2 ^ 63) \<le> x \<Longrightarrow> x < 2 ^ 63 \<Longrightarrow> strtol (show_int x @ r) = x"
  by (simp add: strtol_def scan_long_show_int)

lemma is_i32_long: "is_i32 x \<Longrightarrow> - (2 ^ 63) \<le> x \<and> x < 2 ^ 63"
  by (simp add: is_i32_def INT_MIN_def INT_MAX_def)

lemma atoi_show_int: "is_i32 x \<Longrightarrow> atoi (show_int x) = x"
  using strtol_show_int [of "[]" x] is_i32_long [of x]
  by (simp add: atoi_def no_digit_def i32_id)

lemma atoi_range: "is_i32 (atoi s)"
  by (simp add: atoi_def i32_range)

lemma cstring_show_nat [simp]: "cstring (show_nat n)"
  using show_nat_digits [of NUL n] isdigit_ne [of NUL] by (auto simp: cstring_def)

lemma cstring_show_int [simp]: "cstring (show_int x)"
  by (simp add: show_int_def)

lemma show_int_ne [simp]: "show_int x \<noteq> []"
  by (simp add: show_int_def)

lemma show_int_hd:
  "\<exists>c s. show_int x = c # s \<and> (c = CHR ''-'' \<or> isdigit c)"
  using show_nat_hd [of "nat x"] by (auto simp: show_int_def)

lemma show_int_chars: "c \<in> set (show_int x) \<Longrightarrow> c = CHR ''-'' \<or> isdigit c"
  by (auto simp: show_int_def dest: show_nat_digits split: if_splits)

subsection \<open>\<open>sscanf\<close>\<close>

text \<open>
  The directives of the program's formats. White space in a format matches any amount of
  white space; \<open>ConvSet p w\<close> is \<open>%w[...]\<close> with at least one and at most \<open>w\<close> characters of
  the set; \<open>SkipSet\<close> is \<open>%*[...]\<close>; \<open>ConvStr\<close> is \<open>%s\<close>. The result is the list of the
  values assigned before the first directive that fails: its length is what \<open>sscanf\<close> returns
  (where it returns \<open>EOF\<close>, the list is empty).
\<close>

datatype conv = Lit char | Ws | ConvInt | ConvSet "char \<Rightarrow> bool" "nat option" | SkipSet "char \<Rightarrow> bool" | ConvStr

datatype sarg = AInt int | AStr string

definition lits :: "string \<Rightarrow> conv list" where
  "lits s = map (\<lambda>c. if isspace c then Ws else Lit c) s"

definition set_token :: "(char \<Rightarrow> bool) \<Rightarrow> nat option \<Rightarrow> string \<Rightarrow> string" where
  "set_token p w s = takeWhile p (case w of None \<Rightarrow> s | Some n \<Rightarrow> take n s)"

fun sscanf :: "conv list \<Rightarrow> string \<Rightarrow> sarg list" where
  "sscanf [] s = []"
| "sscanf (Lit c # f) s = (case s of [] \<Rightarrow> [] | d # t \<Rightarrow> if d = c then sscanf f t else [])"
| "sscanf (Ws # f) s = sscanf f (dropWhile isspace s)"
| "sscanf (ConvInt # f) s =
     (case scan_long s of None \<Rightarrow> [] | Some (v, t) \<Rightarrow> AInt (i32 v) # sscanf f t)"
| "sscanf (ConvSet p w # f) s =
     (let t = set_token p w s
      in if t = [] then [] else AStr t # sscanf f (drop (length t) s))"
| "sscanf (SkipSet p # f) s =
     (let t = set_token p None s in if t = [] then [] else sscanf f (drop (length t) s))"
| "sscanf (ConvStr # f) s =
     (let s1 = dropWhile isspace s; t = takeWhile (\<lambda>c. \<not> isspace c) s1
      in if t = [] then [] else AStr t # sscanf f (drop (length t) s1))"

lemma sscanf_lits:
  "\<forall>c\<in>set l. \<not> isspace c \<Longrightarrow> sscanf (lits l @ f) (l @ s) = sscanf f s"
  by (induction l) (auto simp: lits_def)

lemma sscanf_set_stop:
  assumes "t \<noteq> []" "\<forall>c\<in>set t. p c" "\<not> p c" "length t \<le> n"
  shows "sscanf (ConvSet p (Some n) # f) (t @ c # s) = AStr t # sscanf f (c # s)"
proof -
  have "set_token p (Some n) (t @ c # s) = t"
  proof (cases "length t = n")
    case True
    with assms show ?thesis by (simp add: set_token_def takeWhile_all)
  next
    case False
    with assms have "take n (t @ c # s) = t @ c # take (n - length t - 1) s"
      by (auto simp: take_Cons' )
    with assms show ?thesis by (simp add: set_token_def takeWhile_stop)
  qed
  with assms show ?thesis by simp
qed

lemma sscanf_int_show:
  assumes "no_digit r" "is_i32 x"
  shows "sscanf (ConvInt # f) (show_int x @ r) = AInt x # sscanf f r"
  using assms is_i32_long [OF assms(2)] by (simp add: scan_long_show_int i32_id)

text \<open>What a directive can assign; the values read are such values, in the order of the format.\<close>

fun assigns :: "conv \<Rightarrow> bool" where
  "assigns ConvInt \<longleftrightarrow> True"
| "assigns (ConvSet p w) \<longleftrightarrow> True"
| "assigns ConvStr \<longleftrightarrow> True"
| "assigns _ \<longleftrightarrow> False"

fun sarg_fits :: "conv \<Rightarrow> sarg \<Rightarrow> bool" where
  "sarg_fits ConvInt (AInt v) \<longleftrightarrow> is_i32 v"
| "sarg_fits (ConvSet p w) (AStr t) \<longleftrightarrow>
     t \<noteq> [] \<and> cstring t \<and> (\<forall>c\<in>set t. p c) \<and> (case w of None \<Rightarrow> True | Some n \<Rightarrow> length t \<le> n)"
| "sarg_fits ConvStr (AStr t) \<longleftrightarrow> t \<noteq> [] \<and> cstring t"
| "sarg_fits _ _ \<longleftrightarrow> False"

lemma cstring_takeWhile: "cstring s \<Longrightarrow> cstring (takeWhile p s)"
  by (auto simp: cstring_def dest: set_takeWhileD)

lemma cstring_dropWhile: "cstring s \<Longrightarrow> cstring (dropWhile p s)"
  by (auto simp: cstring_def dest: set_dropWhileD)

lemma sarg_fits_set:
  assumes "cstring s" "set_token p w s \<noteq> []"
  shows "sarg_fits (ConvSet p w) (AStr (set_token p w s))"
  using assms
  by (auto simp: set_token_def cstring_takeWhile cstring_take dest: set_takeWhileD split: option.splits)
    (metis length_take length_takeWhile_le min.bounded_iff)

lemma cstring_scan_long: "scan_long s = Some (v, t) \<Longrightarrow> cstring s \<Longrightarrow> cstring t"
  by (auto simp: scan_long_def sign_of_def Let_def cstring_dropWhile cstring_drop
      split: if_splits list.splits prod.splits)
    (metis cstring_Cons cstring_dropWhile)+

lemma sscanf_args:
  "cstring s \<Longrightarrow> list_all2 sarg_fits (take (length (sscanf f s)) (filter assigns f)) (sscanf f s)"
proof (induction f s rule: sscanf.induct)
  case (4 f s)
  show ?case
  proof (cases "scan_long s")
    case (Some vt)
    then obtain v t where vt: "scan_long s = Some (v, t)" by (cases vt) auto
    with 4 cstring_scan_long [OF vt] show ?thesis by (auto simp: i32_range)
  qed simp
next
  case (5 p w f s)
  then show ?case by (auto simp: Let_def cstring_drop dest: sarg_fits_set [of s p w])
next
  case (7 f s)
  then show ?case
    by (auto simp: Let_def cstring_drop cstring_dropWhile cstring_takeWhile)
qed (auto simp: Let_def cstring_drop cstring_dropWhile split: list.splits)

lemma filter_assigns_lits [simp]: "filter assigns (lits l) = []"
  by (induction l) (auto simp: lits_def)

end
