(* ===== verification/Http.thy ===== *)
theory Http
  imports CString
begin

text \<open>
  The responses of \<open>src/hw4/src/http_utils.c\<close>. What a function does on its connection is the
  list of its calls of \<open>send\<close> and \<open>close\<close>. The environment is a parameter: the bytes of the
  file behind a path (\<open>None\<close> when \<open>open\<close> fails), the text of its modification time and the
  text of the current date. A read of a regular file returns what is asked for or what is
  left. \<open>sprintf\<close> into an array whose size the text reaches is undefined (\<open>None\<close>). What the
  functions print on the console is left out.
\<close>

datatype tcp_action = Send int string | CloseFd int

abbreviation sprintf_buf :: "nat \<Rightarrow> string \<Rightarrow> string option" where
  "sprintf_buf \<equiv> strcpy_buf"

text \<open>An \<open>int\<close> argument of \<open>%ld\<close>: on x86-64 the register it is passed in is zero-extended.\<close>

definition ld_of_int :: "int \<Rightarrow> int" where
  "ld_of_int x = take_bit 32 x"

definition BUFSIZE :: nat where
  "BUFSIZE = 4096"

definition generate_timestamp :: "nat \<Rightarrow> string \<Rightarrow> string option" where
  "generate_timestamp n time_string = strcpy_buf n time_string"

subsection \<open>Sending files\<close>

text \<open>The loop \<open>while ((n = read(fd, buf, 4096)) > 0) send(...)\<close> over what is left of the file.\<close>

function read_chunks :: "string \<Rightarrow> string list" where
  "read_chunks content =
     (if content = [] then [] else take BUFSIZE content # read_chunks (drop BUFSIZE content))"
  by pat_completeness auto
termination
  by (relation "measure length") (auto simp: BUFSIZE_def)

declare read_chunks.simps [simp del]

text \<open>The loop over a range: the offset in the file and the number of bytes still to send.\<close>

partial_function (option) range_chunks :: "string \<Rightarrow> nat \<Rightarrow> int \<Rightarrow> string list option" where
  "range_chunks content offset bytes_to_read =
     (if 0 < bytes_to_read
      then let n = (if int BUFSIZE > bytes_to_read then nat bytes_to_read else BUFSIZE);
               chunk = take n (drop offset content)
           in do {
             rest \<leftarrow> range_chunks content (offset + length chunk) (bytes_to_read - int (length chunk));
             Some (chunk # rest) }
      else Some [])"

text \<open>
  The two numbers of a range header. They are kept in variables of type \<open>char *\<close>. The dash
  after the first number is overwritten when a digit follows it.
\<close>

definition chunk_range :: "string \<Rightarrow> int \<Rightarrow> (int \<times> int) option" where
  "chunk_range range_header file_size = do {
     eq \<leftarrow> strchr range_header (CHR ''='');
     let range_start_str = tl eq;
     let range_end_str = strchr range_start_str (CHR ''-'');
     case range_end_str of
       Some (_ # c # s) \<Rightarrow>
         if isdigit c
         then Some (strtol (takeWhile (\<lambda>c. c \<noteq> CHR ''-'') range_start_str), strtol (c # s))
         else Some (strtol range_start_str, file_size - 1)
     | _ \<Rightarrow> Some (strtol range_start_str, file_size - 1) }"

definition headers_206 :: "int \<Rightarrow> int \<Rightarrow> int \<Rightarrow> string \<Rightarrow> string \<Rightarrow> string \<Rightarrow> string" where
  "headers_206 range_start range_end file_size content_type last_modified date =
     ''HTTP/1.1 206 Partial Content'' @ crlf @
     ''Content-Range: bytes '' @ (if range_start = 0 then ''0'' else show_int range_start) @ ''-'' @
       show_int range_end @ ''/'' @ show_int file_size @ crlf @
     ''Content-Type: '' @ content_type @ crlf @ ''Last-Modified: '' @ last_modified @ crlf @
     ''Date: '' @ date @ crlf @ ''Connection: Keep-Alive'' @ crlf @ crlf"

definition headers_416 :: "int \<Rightarrow> string \<Rightarrow> string" where
  "headers_416 file_size date =
     ''HTTP/1.1 416 Range Not Satisfiable'' @ crlf @
     ''Content-Range: bytes */'' @ show_int file_size @ crlf @
     ''Content-Type: text/html; charset=UTF-8'' @ crlf @ crlf @
     ''Date: '' @ date @ crlf @
     ''<html><body>416 Range Not Satisfiable</body></html>'' @ crlf"

definition headers_200 :: "int \<Rightarrow> string \<Rightarrow> string \<Rightarrow> string \<Rightarrow> string" where
  "headers_200 file_size content_type last_modified date =
     ''HTTP/1.1 200 OK'' @ crlf @ ''Content-Type: '' @ content_type @ crlf @
     ''Content-Length: '' @ show_int file_size @ crlf @ ''Last-Modified: '' @ last_modified @ crlf @
     ''Date: '' @ date @ crlf @ ''Connection: Keep-Alive'' @ crlf @ crlf"

definition transfer_file_chunk ::
  "string \<Rightarrow> string \<Rightarrow> string option \<Rightarrow> string \<Rightarrow> int \<Rightarrow> string \<Rightarrow> tcp_action list option" where
  "transfer_file_chunk date last_modified file og_req_buffer socket_fd content_type =
     (case file of
        None \<Rightarrow> Some [CloseFd socket_fd]
      | Some content \<Rightarrow> do {
          date_timestamp \<leftarrow> generate_timestamp 200 date;
          let file_size = int (length content);
          case strstr og_req_buffer ''Range:'' of
            Some range_header \<Rightarrow> do {
              (range_start, range_end) \<leftarrow> chunk_range range_header file_size;
              if 0 \<le> u64 range_start \<and> u64 range_start < u64 file_size
              then do {
                let range_end = (if u64 file_size \<le> u64 range_end then file_size - 1 else range_end);
                headers \<leftarrow> sprintf_buf 1000
                  (headers_206 range_start range_end file_size content_type last_modified date_timestamp);
                chunks \<leftarrow> range_chunks content (nat range_start) (i64 (range_end - range_start + 1));
                Some (Send socket_fd headers # map (Send socket_fd) chunks) }
              else do {
                headers \<leftarrow> sprintf_buf 1000 (headers_416 file_size date_timestamp);
                Some [Send socket_fd headers] } }
          | None \<Rightarrow> do {
              headers \<leftarrow> sprintf_buf 1000
                (headers_200 file_size content_type last_modified date_timestamp);
              Some (Send socket_fd headers # map (Send socket_fd) (read_chunks content)) } })"

definition transfer_standard_file ::
  "string \<Rightarrow> string option \<Rightarrow> int \<Rightarrow> string \<Rightarrow> tcp_action list option" where
  "transfer_standard_file last_modified file socket_fd content_type =
     (case file of
        None \<Rightarrow> Some [Send socket_fd (''HTTP/1.1 404 Not Found'' @ crlf @
            ''Content-Type: text/html; charset=UTF-8'' @ crlf @ crlf @
            ''<html><body>404 Not Found</body></html>'' @ crlf), CloseFd socket_fd]
      | Some content \<Rightarrow> do {
          let file_size = int (length content);
          headers \<leftarrow> sprintf_buf 1000
            (''HTTP/1.1 200 OK'' @ crlf @ ''Content-Type: '' @ content_type @ crlf @
             ''Content-Length: '' @ show_int file_size @ crlf @
             ''Last-Modified: '' @ last_modified @ crlf @ crlf @
             ''Connection: Keep-Alive'' @ crlf @ crlf);
          Some (Send socket_fd headers # map (Send socket_fd) (read_chunks content)) })"

subsection \<open>Fixed responses\<close>

definition send_http_302 :: "string \<Rightarrow> int \<Rightarrow> tcp_action list option" where
  "send_http_302 date connection_fd = do {
     date_timestamp \<leftarrow> generate_timestamp 100 date;
     message \<leftarrow> sprintf_buf 200
       (''HTTP/1.1 302 Found'' @ crlf @ ''Content-Type: text/html; charset=UTF-8'' @ crlf @
        ''Location: /peer/search/video'' @ crlf @ ''Date: '' @ date_timestamp @ crlf @ crlf);
     Some [Send connection_fd message, CloseFd connection_fd] }"

definition send_http_200 :: "string \<Rightarrow> int \<Rightarrow> tcp_action list option" where
  "send_http_200 date connection_fd = do {
     date_timestamp \<leftarrow> generate_timestamp 100 date;
     message \<leftarrow> sprintf_buf 200
       (''HTTP/1.1 200 OK'' @ crlf @ ''Content-Type: text/html; charset=UTF-8'' @ crlf @
        ''Date: '' @ date_timestamp @ crlf @ crlf @
        ''<html><body>Hello World!</body></html>'' @ crlf);
     Some [Send connection_fd message, CloseFd connection_fd] }"

definition send_http_404 :: "string \<Rightarrow> int \<Rightarrow> tcp_action list option" where
  "send_http_404 date connection_fd = do {
     _ \<leftarrow> generate_timestamp 100 date;
     message \<leftarrow> sprintf_buf 200
       (''HTTP/1.1 404 Not Found'' @ crlf @ ''Content-Type: text/html; charset=UTF-8'' @ crlf @ crlf @
        ''<html><body>404 Not Found</body></html>'' @ crlf);
     Some [Send connection_fd message, CloseFd connection_fd] }"

text \<open>
  \<open>get_range\<close> returns -1 in every case; the request buffer keeps a \<open>NUL\<close> in place of the
  dash, so that it reads as the text before it. \<open>None\<close> as an output is a variable that is
  left as it was.
\<close>

definition get_range :: "string \<Rightarrow> (int \<times> string \<times> int option \<times> int option) option" where
  "get_range og_req_buffer =
     (case strstr og_req_buffer ''Range:'' of
        None \<Rightarrow> Some (-1, og_req_buffer, None, None)
      | Some range_header \<Rightarrow> do {
          eq \<leftarrow> strchr range_header (CHR ''='');
          let range_start_str = tl eq;
          case strchr range_start_str (CHR ''-'') of
            Some (d # c # s) \<Rightarrow>
              if isdigit c
              then Some (-1, take (length og_req_buffer - length (d # c # s)) og_req_buffer,
                Some (i32 (strtol (takeWhile (\<lambda>c. c \<noteq> CHR ''-'') range_start_str))),
                Some (i32 (strtol (c # s))))
              else Some (-1, og_req_buffer, None, Some (-1))
          | _ \<Rightarrow> Some (-1, og_req_buffer, None, Some (-1)) })"

definition send_http_200_no_range :: "string \<Rightarrow> int \<Rightarrow> string \<Rightarrow> int \<Rightarrow> tcp_action list option" where
  "send_http_200_no_range date connection_fd content_type file_size = do {
     date_timestamp \<leftarrow> generate_timestamp 100 date;
     message \<leftarrow> sprintf_buf 200
       (headers_200 (ld_of_int file_size) content_type date_timestamp date_timestamp);
     Some [Send connection_fd message] }"

text \<open>
  \<open>range_end == NULL\<close> compares with 0. The result of the function is that of \<open>send\<close>. The
  call of \<open>printf\<close> that shows the message before it is written is left out.
\<close>

definition fix_range_end :: "int \<Rightarrow> int \<Rightarrow> int \<Rightarrow> int" where
  "fix_range_end file_size range_start range_end =
     (if range_end = -1 \<or> file_size \<le> range_end \<or> range_end < range_start \<or> range_end = 0
      then i32 (file_size - 1) else range_end)"

definition send_http_206_partial_content ::
  "string \<Rightarrow> int \<Rightarrow> string \<Rightarrow> int \<Rightarrow> int \<Rightarrow> int \<Rightarrow> tcp_action list option" where
  "send_http_206_partial_content date connection_fd content_type file_size range_start range_end = do {
     let range_end = fix_range_end file_size range_start range_end;
     date_timestamp \<leftarrow> generate_timestamp 100 date;
     message \<leftarrow> sprintf_buf 1024
       (''HTTP/1.1 206 Partial Content'' @ crlf @
        ''Content-Range: bytes '' @ show_int (ld_of_int range_start) @ ''-'' @
          show_int (ld_of_int range_end) @ ''/'' @ show_int file_size @ crlf @
        ''Content-Type: '' @ content_type @ crlf @
        ''Content-Length: '' @ show_int file_size @ crlf @
        ''Last-Modified: '' @ date_timestamp @ crlf @
        ''Date: '' @ date_timestamp @ crlf @ ''Connection: Keep-Alive'' @ crlf @ crlf);
     Some [Send connection_fd message] }"

text \<open>\<open>file\<close> is \<open>None\<close> when \<open>open\<close> or \<open>fstat\<close> fails: both send the response 404.\<close>

definition send_html_from_file ::
  "string \<Rightarrow> string \<Rightarrow> string option \<Rightarrow> int \<Rightarrow> tcp_action list option" where
  "send_html_from_file date last_modified file connection_fd =
     (case file of
        None \<Rightarrow> send_http_404 date connection_fd
      | Some content \<Rightarrow> do {
          headers \<leftarrow> sprintf_buf 1000
            (''HTTP/1.1 200 OK'' @ crlf @ ''Content-Type: '' @ ''text/html'' @ crlf @
             ''Content-Length: '' @ show_int (int (length content)) @ crlf @
             ''Last-Modified: '' @ last_modified @ crlf @ crlf);
          Some (Send connection_fd headers # map (Send connection_fd) (read_chunks content)) })"

text \<open>The string argument is \<open>None\<close> for \<open>NULL\<close>.\<close>

definition MESSAGE_SIZE :: nat where
  "MESSAGE_SIZE = 262144"

definition send_str :: "string \<Rightarrow> int \<Rightarrow> string option \<Rightarrow> tcp_action list option" where
  "send_str date connection_fd str = do {
     let str = (case str of None \<Rightarrow> ''Hello World! '' | Some s \<Rightarrow> s);
     date_timestamp \<leftarrow> generate_timestamp 100 date;
     message \<leftarrow> sprintf_buf MESSAGE_SIZE
       (''HTTP/1.1 200 OK'' @ crlf @ ''Content-Type: text/html; charset=UTF-8'' @ crlf @
        ''Date: '' @ date_timestamp @ crlf @ crlf @
        ''<html><body>'' @ str @ ''</body></html>'' @ crlf);
     Some [Send connection_fd message, CloseFd connection_fd] }"

definition send_json_str :: "string \<Rightarrow> int \<Rightarrow> string option \<Rightarrow> tcp_action list option" where
  "send_json_str date connection_fd str = do {
     let str = (case str of None \<Rightarrow> ''Hello World! '' | Some s \<Rightarrow> s);
     date_timestamp \<leftarrow> generate_timestamp 100 date;
     message \<leftarrow> sprintf_buf MESSAGE_SIZE
       (''HTTP/1.1 200 OK'' @ crlf @ ''Content-Type: application/json'' @ crlf @
        ''Date: '' @ date_timestamp @ crlf @ crlf @ str @ crlf);
     Some [Send connection_fd message, CloseFd connection_fd] }"

subsection \<open>Reading a response\<close>

text \<open>The bytes that the calls put on a connection, and the body of a response.\<close>

fun sent :: "int \<Rightarrow> tcp_action list \<Rightarrow> string" where
  "sent fd [] = []"
| "sent fd (Send d m # acts) = (if d = fd then m else []) @ sent fd acts"
| "sent fd (CloseFd d # acts) = sent fd acts"

definition http_body :: "string \<Rightarrow> string option" where
  "http_body response = map_option (drop 4) (strstr response (crlf @ crlf))"

fun header_block :: "string list \<Rightarrow> string \<Rightarrow> string" where
  "header_block [] body = crlf @ body"
| "header_block (l # ls) body = l @ crlf @ header_block ls body"

definition header_line :: "string \<Rightarrow> bool" where
  "header_line l \<longleftrightarrow> l \<noteq> [] \<and> CR \<notin> set l"

lemma sent_append [simp]: "sent fd (a @ b) = sent fd a @ sent fd b"
  by (induction fd a rule: sent.induct) auto

lemma sent_map_Send [simp]: "sent fd (map (Send fd) cs) = concat cs"
  by (induction cs) auto

lemma strstr_skip: "c \<notin> set l \<Longrightarrow> strstr (l @ r) (c # n) = strstr r (c # n)"
  by (induction l) (auto simp: starts_with_def)

lemma http_body_line:
  "CR \<notin> set l \<Longrightarrow> \<forall>l\<in>set ls. header_line l \<Longrightarrow>
    strstr (l @ crlf @ header_block ls body) (crlf @ crlf) = Some (crlf @ crlf @ body)"
proof (induction ls arbitrary: l)
  case Nil
  then show ?case
    by (simp add: strstr_skip crlf_def starts_with_def)
next
  case (Cons k ls)
  then have k: "k \<noteq> []" "CR \<notin> set k" by (auto simp: header_line_def)
  then obtain c k' where kc: "k = c # k'" "c \<noteq> CR" by (cases k) auto
  have "strstr (l @ crlf @ header_block (k # ls) body) (crlf @ crlf) =
      strstr (crlf @ header_block (k # ls) body) (crlf @ crlf)"
    using Cons.prems(1) by (simp add: strstr_skip crlf_def)
  also have "\<dots> = strstr (k @ crlf @ header_block ls body) (crlf @ crlf)"
    using kc by (simp add: crlf_def starts_with_def)
  also have "\<dots> = Some (crlf @ crlf @ body)"
    using Cons.IH [of k] Cons.prems(2) k by simp
  finally show ?case .
qed

lemma http_body_block:
  "ls \<noteq> [] \<Longrightarrow> \<forall>l\<in>set ls. header_line l \<Longrightarrow> http_body (header_block ls body) = Some body"
  using http_body_line [of "hd ls" "tl ls" body]
  by (cases ls) (auto simp: http_body_def header_line_def crlf_def)

lemma header_line_append [simp]:
  "CR \<notin> set l \<Longrightarrow> header_line (c # l) \<longleftrightarrow> c \<noteq> CR"
  by (auto simp: header_line_def)

lemma show_int_no_CR [simp]: "CR \<notin> set (show_int x)"
  using show_int_chars [of CR x] by (auto simp: isdigit_def uchar_def)

subsection \<open>What is sent\<close>

lemma read_chunks_Nil [simp]: "read_chunks [] = []"
  by (simp add: read_chunks.simps)

lemma concat_read_chunks [simp]: "concat (read_chunks content) = content"
proof (induction content rule: read_chunks.induct)
  case (1 content)
  then show ?case by (cases "content = []") (simp_all add: read_chunks.simps [of content])
qed

lemma read_chunks_bound: "c \<in> set (read_chunks content) \<Longrightarrow> 0 < length c \<and> length c \<le> BUFSIZE"
proof (induction content rule: read_chunks.induct)
  case (1 content)
  then show ?case
    by (cases "content = []") (auto simp: read_chunks.simps [of content] BUFSIZE_def)
qed

lemma range_chunks_total:
  "offset + nat n \<le> length content \<Longrightarrow>
    \<exists>cs. range_chunks content offset n = Some cs \<and> concat cs = take (nat n) (drop offset content)"
proof (induction "nat n" arbitrary: offset n rule: less_induct)
  case less
  show ?case
  proof (cases "0 < n")
    case False
    then show ?thesis by (simp add: range_chunks.simps [of content offset n])
  next
    case True
    define k where "k = (if int BUFSIZE > n then nat n else BUFSIZE)"
    have k: "nat n = k + nat (n - int k)" "0 < k" "offset + k + nat (n - int k) \<le> length content"
      using True less.prems by (auto simp: k_def BUFSIZE_def)
    let ?c = "take k (drop offset content)"
    have l: "length ?c = k" using k by auto
    obtain cs where cs: "range_chunks content (offset + k) (n - int k) = Some cs"
      "concat cs = take (nat (n - int k)) (drop (offset + k) content)"
      using less.hyps [of "n - int k" "offset + k"] k by auto
    have "range_chunks content offset n = Some (?c # cs)"
      using True l cs(1) by (subst range_chunks.simps) (simp add: Let_def flip: k_def)
    moreover have "concat (?c # cs) = take (nat n) (drop offset content)"
      using cs(2) by (simp add: k(1) take_add add.commute)
    ultimately show ?thesis by blast
  qed
qed

subsection \<open>Ranges\<close>

lemma strchr_skip: "c \<notin> set s \<Longrightarrow> strchr (s @ c # r) c = Some (c # r)"
  by (induction s) auto

lemma show_int_of_nat: "show_int (int n) = show_nat n"
  by (simp add: show_int_def)

lemma show_nat_no_dash: "CHR ''-'' \<notin> set (show_nat n)"
  using show_nat_digits isdigit_not_sign by blast

lemma strtol_show_nat: "no_digit r \<Longrightarrow> n < 2 ^ 63 \<Longrightarrow> strtol (show_nat n @ r) = int n"
  using strtol_show_int [of r "int n"] by (simp add: show_int_of_nat)

definition range_request :: "string \<Rightarrow> string \<Rightarrow> bool" where
  "range_request spec req \<longleftrightarrow>
     (\<exists>r. strstr req ''Range:'' = Some (''Range: bytes='' @ spec @ CR # r))"

lemma chunk_range_both:
  assumes "s < 2 ^ 63" "e < 2 ^ 63"
  shows "chunk_range (''Range: bytes='' @ show_nat s @ ''-'' @ show_nat e @ CR # r) n =
    Some (int s, int e)"
proof -
  obtain c cs where e: "show_nat e = c # cs" "isdigit c" using show_nat_hd [of e] by auto
  have "strchr (show_nat s @ CHR ''-'' # show_nat e @ CR # r) (CHR ''-'') =
      Some (CHR ''-'' # c # cs @ CR # r)"
    using e(1) by (simp add: strchr_skip show_nat_no_dash)
  moreover have "takeWhile (\<lambda>c. c \<noteq> CHR ''-'') (show_nat s @ CHR ''-'' # show_nat e @ CR # r) = show_nat s"
    by (intro takeWhile_stop) (use show_nat_no_dash in auto)
  moreover have "strtol (c # cs @ CR # r) = int e"
    using strtol_show_nat [of "CR # r" e] e(1) assms(2) by (simp add: no_digit_def isdigit_def uchar_def)
  moreover have "strtol (show_nat s) = int s"
    using strtol_show_nat [of "[]" s] assms(1) by (simp add: no_digit_def)
  ultimately show ?thesis using e(2) by (simp add: chunk_range_def)
qed

text \<open>Texts that fit the arrays they are formatted into and keep a header line on its line.\<close>

definition header_text :: "nat \<Rightarrow> string \<Rightarrow> bool" where
  "header_text n s \<longleftrightarrow> length s < n \<and> CR \<notin> set s"

lemma length_show_int_bound: "- (10 ^ k) < x \<Longrightarrow> x < 10 ^ k \<Longrightarrow> 0 < k \<Longrightarrow> length (show_int x) \<le> k + 1"
  using length_show_nat [of k "nat x"] length_show_nat [of k "nat (- x)"]
  by (auto simp: show_int_def nat_less_iff)

lemma headers_206_body:
  assumes "header_text 200 ct" "header_text 100 lm" "header_text 200 date"
  shows "http_body (headers_206 a b n ct lm date @ body) = Some body"
proof -
  let ?ls = "[''HTTP/1.1 206 Partial Content'', ''Content-Range: bytes '' @ (if a = 0 then ''0'' else show_int a)
      @ ''-'' @ show_int b @ ''/'' @ show_int n, ''Content-Type: '' @ ct, ''Last-Modified: '' @ lm,
      ''Date: '' @ date, ''Connection: Keep-Alive'']"
  have "headers_206 a b n ct lm date @ body = header_block ?ls body"
    by (simp add: headers_206_def)
  moreover have "\<forall>l\<in>set ?ls. header_line l"
    using assms by (auto simp: header_text_def header_line_def)
  ultimately show ?thesis using http_body_block [of ?ls body] by simp
qed

lemma length_crlf [simp]: "length crlf = 2"
  by (simp add: crlf_def)

lemma headers_206_fit:
  assumes "header_text 200 ct" "header_text 100 lm" "header_text 200 date"
    and "0 \<le> a" "a < 2 ^ 63" "0 \<le> b" "b < 2 ^ 63" "0 \<le> n" "n < 2 ^ 63"
  shows "length (headers_206 a b n ct lm date) < 1000"
  using assms length_show_int_bound [of 19 a] length_show_int_bound [of 19 b] length_show_int_bound [of 19 n]
  by (simp add: headers_206_def header_text_def)

lemma headers_200_body:
  assumes "header_text 200 ct" "header_text 100 lm" "header_text 200 date"
  shows "http_body (headers_200 n ct lm date @ body) = Some body"
proof -
  let ?ls = "[''HTTP/1.1 200 OK'', ''Content-Type: '' @ ct, ''Content-Length: '' @ show_int n,
      ''Last-Modified: '' @ lm, ''Date: '' @ date, ''Connection: Keep-Alive'']"
  have "headers_200 n ct lm date @ body = header_block ?ls body"
    by (simp add: headers_200_def)
  moreover have "\<forall>l\<in>set ?ls. header_line l"
    using assms by (auto simp: header_text_def header_line_def)
  ultimately show ?thesis using http_body_block [of ?ls body] by simp
qed

lemma headers_200_fit:
  assumes "header_text 200 ct" "header_text 100 lm" "header_text 200 date" "n < 2 ^ 63"
  shows "length (headers_200 (int n) ct lm date) < 1000"
  using assms length_show_int_bound [of 19 "int n"] by (simp add: headers_200_def header_text_def)

text \<open>Without a range the whole file is the body of one response.\<close>

lemma transfer_file_chunk_whole:
  assumes "strstr req ''Range:'' = None" "length content < 2 ^ 63"
    and "header_text 200 ct" "header_text 100 lm" "header_text 200 date"
  shows "\<exists>acts. transfer_file_chunk date lm (Some content) req fd ct = Some acts \<and>
    http_body (sent fd acts) = Some content"
proof -
  have "generate_timestamp 200 date = Some date"
    using assms(5) by (simp add: generate_timestamp_def header_text_def)
  with assms headers_200_fit [OF assms(3-5,2)] headers_200_body [OF assms(3-5), of _ content]
  show ?thesis by (simp add: transfer_file_chunk_def)
qed

lemma u64_of_nat: "n < 2 ^ 63 \<Longrightarrow> u64 (int n) = int n"
  by (rule u64_id) auto

lemma transfer_file_chunk_of_range:
  assumes "strstr req ''Range:'' = Some rh" "chunk_range rh (int (length content)) = Some (int s, int e)"
    and "s \<le> e" "e < 2 ^ 63" "length content < 2 ^ 63"
    and "header_text 200 ct" "header_text 100 lm" "header_text 200 date"
  shows "if s < length content
    then \<exists>acts body. transfer_file_chunk date lm (Some content) req fd ct = Some acts \<and>
        body = take (min e (length content - 1) + 1 - s) (drop s content) \<and>
        sent fd acts = header_block [''HTTP/1.1 206 Partial Content'',
          ''Content-Range: bytes '' @ show_nat s @ ''-'' @ show_nat (min e (length content - 1)) @ ''/'' @
            show_nat (length content),
          ''Content-Type: '' @ ct, ''Last-Modified: '' @ lm, ''Date: '' @ date, ''Connection: Keep-Alive''] body \<and>
        http_body (sent fd acts) = Some body
    else transfer_file_chunk date lm (Some content) req fd ct =
        Some [Send fd (headers_416 (int (length content)) date)]"
proof -
  have s: "s < 2 ^ 63" using assms(3,4) by simp
  have dt: "generate_timestamp 200 date = Some date"
    using assms(8) by (simp add: generate_timestamp_def header_text_def)
  note u = u64_of_nat [OF s] u64_of_nat [OF assms(4)] u64_of_nat [OF assms(5)]
  show ?thesis
  proof (cases "s < length content")
    case True
    define m where "m = min e (length content - 1) + 1 - s"
    define e' where "e' = (if length content \<le> e then int (length content) - 1 else int e)"
    have e': "0 \<le> e'" "e' < 2 ^ 63" "i64 (e' - int s + 1) = int m"
      using True assms(3-5) by (auto simp: e'_def m_def intro!: i64_id [THEN trans])
    have "s + nat (int m) \<le> length content" using True assms(3) by (simp add: m_def)
    then obtain cs where cs: "range_chunks content s (int m) = Some cs"
      "concat cs = take m (drop s content)"
      using range_chunks_total [of s "int m" content] by auto
    let ?h = "headers_206 (int s) e' (int (length content)) ct lm date"
    have h: "length ?h < 1000"
      using headers_206_fit [OF assms(6-8), of "int s" e' "int (length content)"] s assms(5) e' by simp
    have "transfer_file_chunk date lm (Some content) req fd ct =
        Some (Send fd ?h # map (Send fd) cs)"
      using True assms(1,2) dt h e' cs(1)
      by (simp add: transfer_file_chunk_def u Let_def flip: e'_def)
    moreover have "http_body (sent fd (Send fd ?h # map (Send fd) cs)) = Some (take m (drop s content))"
      using headers_206_body [OF assms(6-8)] cs(2) by simp
    moreover have "e' = int (min e (length content - 1))" using True by (auto simp: e'_def)
    moreover have "show_nat 0 = ''0''" by code_simp
    ultimately show ?thesis
      using True cs(2) by (auto simp: m_def headers_206_def show_int_of_nat)
  next
    case False
    have "length (headers_416 (int (length content)) date) < 1000"
      using assms(5,8) length_show_int_bound [of 19 "int (length content)"]
      by (simp add: headers_416_def header_text_def)
    with False assms(1,2) dt show ?thesis
      by (simp add: transfer_file_chunk_def u Let_def)
  qed
qed

lemma chunk_range_suffix:
  assumes "e < 2 ^ 63"
  shows "chunk_range (''Range: bytes=-'' @ show_nat e @ CR # r) n = Some (0, int e)"
proof -
  obtain c cs where e: "show_nat e = c # cs" "isdigit c" using show_nat_hd [of e] by auto
  moreover have "strtol (c # cs @ CR # r) = int e"
    using strtol_show_nat [of "CR # r" e] e(1) assms by (simp add: no_digit_def isdigit_def uchar_def)
  ultimately show ?thesis
    by (simp add: chunk_range_def strtol_def scan_long_def sign_of_def)
qed

subsection \<open>Properties\<close>

text \<open>
  C34. A request with the range \<open>bytes=s-e\<close> of a file that has a byte at \<open>s\<close> is answered by one
  response 206: its lines are the status, the Content-Range with s, the last byte sent and the
  size of the file, the type and the two dates (no Content-Length), and its body is exactly the
  bytes from \<open>s\<close> to \<open>e\<close>, cut at the end of the file: the loop that sends them ends. When the file
  has no byte at \<open>s\<close> the answer is the response 416 with the size in its Content-Range, and
  nothing of the file is sent.
\<close>

theorem transfer_file_chunk_range:
  assumes "range_request (show_nat s @ ''-'' @ show_nat e) req"
    and "s \<le> e" "e < 2 ^ 63" "length content < 2 ^ 63"
    and "header_text 200 ct" "header_text 100 lm" "header_text 200 date"
  shows "if s < length content
    then \<exists>acts body. transfer_file_chunk date lm (Some content) req fd ct = Some acts \<and>
        body = take (min e (length content - 1) + 1 - s) (drop s content) \<and>
        sent fd acts = header_block [''HTTP/1.1 206 Partial Content'',
          ''Content-Range: bytes '' @ show_nat s @ ''-'' @ show_nat (min e (length content - 1)) @ ''/'' @
            show_nat (length content),
          ''Content-Type: '' @ ct, ''Last-Modified: '' @ lm, ''Date: '' @ date, ''Connection: Keep-Alive''] body \<and>
        http_body (sent fd acts) = Some body
    else transfer_file_chunk date lm (Some content) req fd ct =
        Some [Send fd (''HTTP/1.1 416 Range Not Satisfiable'' @ crlf @
          ''Content-Range: bytes */'' @ show_nat (length content) @ crlf @
          ''Content-Type: text/html; charset=UTF-8'' @ crlf @ crlf @ ''Date: '' @ date @ crlf @
          ''<html><body>416 Range Not Satisfiable</body></html>'' @ crlf)]"
proof -
  obtain r where r: "strstr req ''Range:'' = Some (''Range: bytes='' @ show_nat s @ ''-'' @ show_nat e @ CR # r)"
    using assms(1) by (auto simp: range_request_def)
  have "s < 2 ^ 63" using assms(2,3) by simp
  from transfer_file_chunk_of_range [OF r chunk_range_both [OF this assms(3)] assms(2-), of fd,
      unfolded headers_416_def show_int_of_nat]
  show ?thesis .
qed

lemma transfer_file_chunk_range_witness:
  "\<exists>acts. transfer_file_chunk ''now'' ''then'' (Some ''abcdefgh'')
      (''Range: bytes=2-4'' @ [CR]) 5 ''video/ogg'' = Some acts \<and> http_body (sent 5 acts) = Some ''cde'' \<and>
    starts_with (''HTTP/1.1 206 Partial Content'' @ crlf @ ''Content-Range: bytes 2-4/8'' @ crlf) (sent 5 acts)"
proof -
  have n: "show_nat 2 = ''2''" "show_nat 4 = ''4''"
    by code_simp+
  have q: "range_request (show_nat 2 @ ''-'' @ show_nat 4) (''Range: bytes=2-4'' @ [CR])"
    by (simp add: range_request_def n starts_with_def)
  have t: "header_text 200 ''video/ogg''" "header_text 100 ''then''" "header_text 200 ''now''"
    by (simp_all add: header_text_def)
  have "take (min 4 (length ''abcdefgh'' - 1) + 1 - 2) (drop 2 ''abcdefgh'') = ''cde''"
    by (simp add: numeral_eq_Suc)
  moreover have "show_nat 8 = ''8''" "min 4 (length ''abcdefgh'' - 1) = 4" by (code_simp, simp)
  moreover have "length ''abcdefgh'' = 8" by simp
  ultimately obtain acts where a: "transfer_file_chunk ''now'' ''then'' (Some ''abcdefgh'')
      (''Range: bytes=2-4'' @ [CR]) 5 ''video/ogg'' = Some acts"
    "sent 5 acts = header_block [''HTTP/1.1 206 Partial Content'', ''Content-Range: bytes '' @ ''2'' @ ''-'' @ ''4'' @
      ''/'' @ ''8'', ''Content-Type: '' @ ''video/ogg'', ''Last-Modified: '' @ ''then'', ''Date: '' @ ''now'',
      ''Connection: Keep-Alive''] ''cde''" "http_body (sent 5 acts) = Some ''cde''"
    using transfer_file_chunk_range [OF q _ _ _ t, of "''abcdefgh''" 5]
    by (simp only: n) (auto simp del: header_block.simps)
  from a(2) have "starts_with (''HTTP/1.1 206 Partial Content'' @ crlf @ ''Content-Range: bytes 2-4/8'' @ crlf) (sent 5 acts)"
    by (simp add: starts_with_def crlf_def)
  with a(1,3) show ?thesis by blast
qed

text \<open>
  The range \<open>bytes=-e\<close>, which asks for the last \<open>e\<close> bytes, is answered with the bytes from 0
  to \<open>e\<close>.
\<close>

theorem transfer_file_chunk_suffix:
  assumes "range_request (''-'' @ show_nat e) req"
    and "e < 2 ^ 63" "0 < length content" "length content < 2 ^ 63"
    and "header_text 200 ct" "header_text 100 lm" "header_text 200 date"
  shows "\<exists>acts. transfer_file_chunk date lm (Some content) req fd ct = Some acts \<and>
    http_body (sent fd acts) = Some (take (e + 1) content)"
proof -
  obtain r where r: "strstr req ''Range:'' = Some (''Range: bytes=-'' @ show_nat e @ CR # r)"
    using assms(1) by (auto simp: range_request_def)
  have c: "chunk_range (''Range: bytes=-'' @ show_nat e @ CR # r) (int (length content)) = Some (int 0, int e)"
    using chunk_range_suffix [OF assms(2)] by simp
  have "take (min e (length content - 1) + 1) content = take (e + 1) content"
    using assms(3) by (cases "e < length content") (auto simp: min_def)
  with transfer_file_chunk_of_range [OF r c _ assms(2,4-), of fd] assms(3) show ?thesis
    by (auto simp del: header_block.simps)
qed

lemma transfer_file_chunk_suffix_witness:
  "\<exists>acts. transfer_file_chunk ''now'' ''then'' (Some ''abcdefgh'')
      (''Range: bytes=-2'' @ [CR]) 5 ''video/ogg'' = Some acts \<and> http_body (sent 5 acts) = Some ''abc''"
proof -
  have n: "show_nat 2 = ''2''" by code_simp
  have q: "range_request (''-'' @ show_nat 2) (''Range: bytes=-2'' @ [CR])"
    by (simp add: range_request_def n starts_with_def)
  have t: "header_text 200 ''video/ogg''" "header_text 100 ''then''" "header_text 200 ''now''"
    by (simp_all add: header_text_def)
  have "take (2 + 1) ''abcdefgh'' = ''abc''" by (simp add: numeral_eq_Suc)
  with transfer_file_chunk_suffix [OF q _ _ _ t, of "''abcdefgh''" 5] show ?thesis
    by simp
qed

text \<open>
  \<open>transfer_standard_file\<close> puts the blank line before its last header line: the body a
  client reads is that header line, a blank line and then the file.
\<close>

theorem transfer_standard_file_body:
  assumes "header_text 200 ct" "header_text 100 lm" "length content < 2 ^ 63"
  shows "\<exists>acts. transfer_standard_file lm (Some content) fd ct = Some acts \<and>
    http_body (sent fd acts) = Some (''Connection: Keep-Alive'' @ crlf @ crlf @ content)"
proof -
  let ?ls = "[''HTTP/1.1 200 OK'', ''Content-Type: '' @ ct,
    ''Content-Length: '' @ show_int (int (length content)), ''Last-Modified: '' @ lm]"
  let ?b = "''Connection: Keep-Alive'' @ crlf @ crlf"
  have l: "length (header_block ?ls ?b) < 1000"
    using assms length_show_int_bound [of 19 "int (length content)"] by (simp add: header_text_def)
  have "\<forall>l\<in>set ?ls. header_line l"
    using assms by (auto simp: header_text_def header_line_def)
  then have b: "http_body (header_block ?ls (?b @ content)) = Some (?b @ content)"
    by (intro http_body_block) simp_all
  have "transfer_standard_file lm (Some content) fd ct =
      Some (Send fd (header_block ?ls ?b) # map (Send fd) (read_chunks content))"
    using l by (simp add: transfer_standard_file_def)
  moreover have "sent fd (Send fd (header_block ?ls ?b) # map (Send fd) (read_chunks content)) =
      header_block ?ls (?b @ content)"
    by simp
  ultimately show ?thesis using b by auto
qed

lemma transfer_standard_file_body_witness:
  "\<exists>acts. transfer_standard_file ''then'' (Some ''abc'') 5 ''text/plain'' = Some acts \<and>
    http_body (sent 5 acts) = Some (''Connection: Keep-Alive'' @ crlf @ crlf @ ''abc'')"
  by (rule transfer_standard_file_body) (simp_all add: header_text_def)

subsection \<open>Responses with a text\<close>

lemma send_json_str_ok:
  assumes "header_text 100 date" "length s < 261900"
  shows "\<exists>m. send_json_str date fd (Some s) = Some [Send fd m, CloseFd fd] \<and> http_body m = Some (s @ crlf)"
proof -
  let ?ls = "[''HTTP/1.1 200 OK'', ''Content-Type: application/json'', ''Date: '' @ date]"
  have "\<forall>l\<in>set ?ls. header_line l"
    using assms by (auto simp: header_text_def header_line_def)
  then have "http_body (header_block ?ls (s @ crlf)) = Some (s @ crlf)"
    by (intro http_body_block) simp_all
  moreover have d: "length date < 100" using assms(1) by (simp add: header_text_def)
  have "length (header_block ?ls (s @ crlf)) < 262144"
    using d assms(2) by simp
  then have "send_json_str date fd (Some s) = Some [Send fd (header_block ?ls (s @ crlf)), CloseFd fd]"
    using d by (simp add: send_json_str_def generate_timestamp_def MESSAGE_SIZE_def)
  ultimately show ?thesis by blast
qed

lemma send_str_ok:
  assumes "header_text 100 date" "length s < 261900"
  shows "\<exists>m. send_str date fd (Some s) = Some [Send fd m, CloseFd fd] \<and>
    http_body m = Some (''<html><body>'' @ s @ ''</body></html>'' @ crlf)"
proof -
  let ?ls = "[''HTTP/1.1 200 OK'', ''Content-Type: text/html; charset=UTF-8'', ''Date: '' @ date]"
  let ?b = "''<html><body>'' @ s @ ''</body></html>'' @ crlf"
  have "\<forall>l\<in>set ?ls. header_line l"
    using assms by (auto simp: header_text_def header_line_def)
  then have "http_body (header_block ?ls ?b) = Some ?b"
    by (intro http_body_block) simp_all
  moreover have d: "length date < 100" using assms(1) by (simp add: header_text_def)
  have "length (header_block ?ls ?b) < 262144"
    using d assms(2) by simp
  then have "send_str date fd (Some s) = Some [Send fd (header_block ?ls ?b), CloseFd fd]"
    using d by (simp add: send_str_def generate_timestamp_def MESSAGE_SIZE_def)
  ultimately show ?thesis by blast
qed

end
