(* ===== verification/Uri.thy ===== *)
theory Uri
  imports Http
begin

text \<open>
  The request parsing of \<open>src/hw4/src/uri_parse.c\<close>: start line, file name and extension of a
  path, content types, substring search, the range header, and the list of the peers that
  \<open>/peer/add\<close> registers with the rates looked up in it.
\<close>

subsection \<open>Start line and path\<close>

definition process_startline :: "string \<Rightarrow> string option \<times> string option \<times> string option" where
  "process_startline request =
     (let (method, rest) = strtok_r '' '' request;
          (path, rest) = strtok_r '' '' rest;
          (version, _) = strtok_r crlf rest
      in (method, path, version))"

text \<open>The loop that advances to the last token between slashes.\<close>

function last_token :: "string \<Rightarrow> string option \<Rightarrow> string \<Rightarrow> string option" where
  "last_token delims tok rest =
     (case strtok_r delims rest of
        (None, _) \<Rightarrow> tok
      | (Some t, rest') \<Rightarrow> last_token delims (Some t) rest')"
  by pat_completeness auto
termination
proof (relation "measure (\<lambda>(d, tok, rest). length rest)", goal_cases)
  case 1
  show ?case by simp
next
  case (2 delims tok rest x y t)
  from 2 have "strtok_r delims rest = (Some t, y)" by simp
  with length_strtok_r [of delims rest t] show ?case by simp
qed

declare last_token.simps [simp del]

text \<open>
  \<open>parse_http_uri\<close> copies the last token of the path into two arrays of 256 pointers, which are
  2048 bytes, and cuts the second copy at dots. A path of slashes only has no token: the copy
  reads through \<open>NULL\<close>. The results point into arrays that are gone when the function has
  returned; here they are the strings those arrays hold at the return.
\<close>

definition URI_BUF :: nat where
  "URI_BUF = 2048"

definition parse_http_uri :: "string \<Rightarrow> (string \<times> string option) option" where
  "parse_http_uri path = do {
     let (path_tok, rest) = strtok_r ''/'' path;
     path_tok_prev \<leftarrow> last_token ''/'' path_tok rest;
     filename \<leftarrow> strcpy_buf URI_BUF path_tok_prev;
     filetype \<leftarrow> strcpy_buf URI_BUF path_tok_prev;
     let (_, rest) = strtok_r ''.'' filetype;
     Some (filename, fst (strtok_r ''.'' rest)) }"

subsection \<open>Substring search\<close>

text \<open>The inner loop returns the \<open>j\<close> at which it stops.\<close>

function search_inner :: "string \<Rightarrow> string \<Rightarrow> nat \<Rightarrow> nat \<Rightarrow> nat" where
  "search_inner str substr i j =
     (if j < length substr
      then if str ! (i + j) \<noteq> substr ! j then j else search_inner str substr i (j + 1)
      else j)"
  by pat_completeness auto
termination
  by (relation "measure (\<lambda>(str, substr, i, j). length substr - j)") auto

function search_outer :: "string \<Rightarrow> string \<Rightarrow> nat \<Rightarrow> int" where
  "search_outer str substr i =
     (if i \<le> length str - length substr
      then if search_inner str substr i 0 = length substr then int i
           else search_outer str substr (i + 1)
      else -1)"
  by pat_completeness auto
termination
  by (relation "measure (\<lambda>(str, substr, i). Suc (length str) - i)") auto

declare search_inner.simps [simp del] search_outer.simps [simp del]

definition searchSubstring :: "string \<Rightarrow> string \<Rightarrow> int" where
  "searchSubstring str substr =
     (if length str < length substr then -1 else search_outer str substr 0)"

subsection \<open>Content types\<close>

text \<open>
  The content type and whether it is a video. \<open>None\<close> as the extension is \<open>NULL\<close>. An extension
  the table does not know leaves \<open>content_type_tmp\<close> uninitialised when it is copied.
\<close>

definition content_type_lookup :: "string option \<Rightarrow> (string \<times> int) option" where
  "content_type_lookup filetype =
     (case filetype of
        None \<Rightarrow> Some (''application/octet-stream'', 0)
      | Some t \<Rightarrow>
          if t = ''txt'' then Some (''text/plain'', 0)
          else if t = ''css'' then Some (''text/css'', 0)
          else if t = ''htm'' then Some (''text/html'', 0)
          else if t = ''html'' then Some (''text/html'', 0)
          else if t = ''jpg'' then Some (''image/jpeg'', 0)
          else if t = ''jpeg'' then Some (''image/jpeg'', 0)
          else if t = ''png'' then Some (''image/png'', 0)
          else if t = ''js'' then Some (''application/javascript'', 0)
          else if t = ''mp4'' then Some (''video/webm'', 1)
          else if t = ''webm'' then Some (''video/webm'', 1)
          else if t = ''ogg'' then Some (''video/ogg'', 1)
          else if t = ''mkv'' then Some (''video/mkv'', 1)
          else if t = ''ogv'' then Some (''video/ogg'', 1)
          else None)"

subsection \<open>The range header\<close>

definition range_format :: "conv list" where
  "range_format = lits ''Range: bytes='' @ [ConvInt] @ lits ''-'' @ [ConvInt]"

definition open_range_format :: "conv list" where
  "open_range_format = lits ''Range: bytes='' @ [ConvInt] @ lits ''-''"

text \<open>The result is \<open>None\<close> for \<open>false\<close>; otherwise start and end as they are set.\<close>

definition parse_http_range_header :: "string \<Rightarrow> (int \<times> int) option" where
  "parse_http_range_header request_buffer =
     (case strstr request_buffer ''Range:'' of
        None \<Rightarrow> None
      | Some range_header \<Rightarrow>
          (case sscanf range_format range_header of
             [AInt s, AInt e] \<Rightarrow> Some (s, e)
           | _ \<Rightarrow>
               (case sscanf open_range_format range_header of
                  [AInt s] \<Rightarrow> Some (s, -1)
                | _ \<Rightarrow> None)))"

subsection \<open>The list of peers\<close>

record peer_url =
  pu_path :: string
  pu_host :: string
  pu_port :: string
  pu_rate :: string

definition PEERS_LIST_SIZE :: nat where
  "PEERS_LIST_SIZE = 100"

record peer_table =
  peers_count :: nat
  peers_list :: "peer_url list"

definition peer_table_init :: peer_table where
  "peer_table_init =
     \<lparr>peers_count = 0,
      peers_list = replicate PEERS_LIST_SIZE \<lparr>pu_path = [], pu_host = [], pu_port = [], pu_rate = []\<rparr>\<rparr>"

definition add_peer_to_list :: "peer_table \<Rightarrow> peer_url \<Rightarrow> peer_table" where
  "add_peer_to_list t p =
     (if PEERS_LIST_SIZE \<le> peers_count t then t
      else t\<lparr>peers_list := (peers_list t)[peers_count t := p], peers_count := peers_count t + 1\<rparr>)"

definition print_peers_list :: "peer_table \<Rightarrow> string" where
  "print_peers_list t =
     ''peers_count: '' @ show_nat (peers_count t) @ [LF] @
     concat (map (\<lambda>i. let p = peers_list t ! i in
       ''Peer '' @ show_nat i @ '': path='' @ pu_path p @ '', host='' @ pu_host p @ '', port='' @
       pu_port p @ '', rate='' @ pu_rate p @ '' '' @ [LF]) [0..<peers_count t])"

text \<open>\<open>get_rate_of_path\<close> of \<open>main.c\<close>: \<open>None\<close> is \<open>NULL\<close>.\<close>

function get_rate_of_path :: "string \<Rightarrow> peer_url list \<Rightarrow> nat \<Rightarrow> nat \<Rightarrow> string option" where
  "get_rate_of_path path peers num_peers i =
     (if i < num_peers
      then if path = pu_path (peers ! i) then Some (pu_rate (peers ! i))
           else get_rate_of_path path peers num_peers (i + 1)
      else None)"
  by pat_completeness auto
termination
  by (relation "measure (\<lambda>(path, peers, n, i). n - i)") auto

declare get_rate_of_path.simps [simp del]

subsection \<open>Lemmas on the loops\<close>

lemma search_inner_full:
  "j \<le> length sub \<Longrightarrow> i + length sub \<le> length str \<Longrightarrow>
    search_inner str sub i j = length sub \<longleftrightarrow> drop j sub = take (length sub - j) (drop (i + j) str)"
proof (induction str sub i j rule: search_inner.induct)
  case (1 str sub i j)
  show ?case
  proof (cases "j < length sub")
    case False
    with 1 have "j = length sub" by simp
    then show ?thesis by (simp add: search_inner.simps [of str sub i "length sub"])
  next
    case True
    have d: "drop j sub = sub ! j # drop (Suc j) sub"
      "take (length sub - j) (drop (i + j) str) =
        str ! (i + j) # take (length sub - Suc j) (drop (i + Suc j) str)"
      using True 1 by (simp_all add: Cons_nth_drop_Suc Suc_diff_Suc flip: take_Suc_Cons)
    show ?thesis
      using 1 True by (auto simp: search_inner.simps [of str sub i j] d)
  qed
qed

lemma search_inner_prefix:
  "i + length sub \<le> length str \<Longrightarrow> search_inner str sub i 0 = length sub \<longleftrightarrow> prefix sub (drop i str)"
  using search_inner_full [of 0 sub i str] take_eq_prefix [OF refl, of sub "drop i str"] by auto

lemma strstr_drop:
  "i < length s \<Longrightarrow> strstr (drop i s) n =
    (if prefix n (drop i s) then Some (drop i s) else strstr (drop (Suc i) s) n)"
  by (metis Cons_nth_drop_Suc starts_with_prefix strstr.simps(2))

lemma strstr_short: "length s < length n \<Longrightarrow> strstr s n = None"
  unfolding strstr_None_iff using sublist_length_le leD by blast

lemma search_outer_strstr:
  "length sub \<le> length str \<Longrightarrow> i \<le> length str - length sub + 1 \<Longrightarrow>
    i = 0 \<or> sub \<noteq> [] \<Longrightarrow> search_outer str sub i =
      (case strstr (drop i str) sub of None \<Rightarrow> -1 | Some r \<Rightarrow> int (length str - length r))"
proof (induction str sub i rule: search_outer.induct)
  case (1 str sub i)
  show ?case
  proof (cases "i \<le> length str - length sub")
    case False
    moreover from this have "0 < length sub" using 1 by auto
    ultimately have "length (drop i str) < length sub" using 1 unfolding length_drop by linarith
    with False show ?thesis
      by (simp add: search_outer.simps [of str sub i] strstr_short del: length_drop)
  next
    case True
    then have i: "i + length sub \<le> length str" using 1 by simp
    show ?thesis
    proof (cases "prefix sub (drop i str)")
      case True
      with i show ?thesis
        by (simp add: search_outer.simps [of str sub i] search_inner_prefix strstr_hit)
    next
      case False
      then have ne: "sub \<noteq> []" by auto
      then have "i < length str" using i by (cases sub) auto
      with ne False True i 1 show ?thesis
        by (simp add: search_outer.simps [of str sub i] search_inner_prefix strstr_drop [of i])
    qed
  qed
qed

lemma strtok_r_skip: "set p \<subseteq> set d \<Longrightarrow> strtok_r d (p @ s) = strtok_r d s"
proof -
  assume "set p \<subseteq> set d"
  then have "dropWhile (\<lambda>c. c \<in> set d) (p @ s) = dropWhile (\<lambda>c. c \<in> set d) s"
    by (intro dropWhile_append2) auto
  then show ?thesis by (simp add: strtok_r_def)
qed

lemma split_at_delimiter:
  "p \<noteq> [] \<Longrightarrow> last p \<in> D \<Longrightarrow> \<not> set p \<subseteq> D \<Longrightarrow>
    \<exists>ds t c q. p = ds @ t @ c # q \<and> set ds \<subseteq> D \<and> t \<noteq> [] \<and> set t \<inter> D = {} \<and> c \<in> D \<and>
      (q = [] \<or> last q \<in> D)"
proof -
  assume p: "p \<noteq> []" "last p \<in> D" "\<not> set p \<subseteq> D"
  then obtain ds x r where x: "p = ds @ x # r" "x \<notin> D" "\<forall>y\<in>set ds. y \<in> D"
    using split_list_first_prop [of p "\<lambda>y. y \<notin> D"] by auto
  have "last (x # r) \<in> D" using p(2) x(1) by simp
  then have "\<exists>y\<in>set (x # r). y \<in> D" by (metis last_in_set list.distinct(1))
  then obtain t c q where t: "x # r = t @ c # q" "c \<in> D" "\<forall>y\<in>set t. y \<notin> D"
    using split_list_first_prop [of "x # r" "\<lambda>y. y \<in> D"] by auto
  have "t \<noteq> []" using t x(2) by (cases t) auto
  moreover have "q = [] \<or> last q \<in> D"
    using \<open>last (x # r) \<in> D\<close> t(1) by (cases "q = []") simp_all
  ultimately show ?thesis using x t by (intro exI [of _ ds] exI [of _ t]) auto
qed

lemma last_token_name:
  assumes "name \<noteq> []" "set name \<inter> set d = {}" "p = [] \<or> last p \<in> set d"
  shows "last_token d tok (p @ name) = Some name"
  using assms(3)
proof (induction "length p" arbitrary: p tok rule: less_induct)
  case less
  show ?case
  proof (cases "set p \<subseteq> set d")
    case True
    have "strtok_r d [] = (None, [])" by (simp add: strtok_r_def)
    with True show ?thesis
      by (simp add: last_token.simps [of d tok "p @ name"] last_token.simps [of d "Some name" "[]"]
          strtok_r_skip strtok_r_whole [OF assms(1,2)])
  next
    case False
    then have "p \<noteq> []" by auto
    with False less.prems obtain ds t c q where q: "p = ds @ t @ c # q" "set ds \<subseteq> set d" "t \<noteq> []"
      "set t \<inter> set d = {}" "c \<in> set d" "q = [] \<or> last q \<in> set d"
      using split_at_delimiter [of p "set d"] by metis
    have "strtok_r d (p @ name) = (Some t, q @ name)"
      using q by (simp add: strtok_r_skip strtok_r_split)
    then have "last_token d tok (p @ name) = last_token d (Some t) (q @ name)"
      by (simp add: last_token.simps [of d tok "p @ name"])
    with less.hyps [of q] q(1,6) show ?thesis by simp
  qed
qed

lemma last_token_path:
  assumes "name \<noteq> []" "CHR ''/'' \<notin> set name" "dir = [] \<or> last dir = CHR ''/''"
    and t: "strtok_r ''/'' (dir @ name) = (tok, rest)"
  shows "last_token ''/'' tok rest = Some name"
proof -
  have "last_token ''/'' None (dir @ name) = Some name"
    using assms by (intro last_token_name) auto
  moreover have "tok \<noteq> None"
    using strtok_r_None_iff [of "''/''" "dir @ name"] t assms(1,2) by (cases name) auto
  ultimately show ?thesis
    by (auto simp: last_token.simps [of "''/''" None "dir @ name"] t split: option.splits)
qed

lemma parse_http_uri_last:
  assumes "name \<noteq> []" "CHR ''/'' \<notin> set name" "dir = [] \<or> last dir = CHR ''/''" "length name < URI_BUF"
  shows "parse_http_uri (dir @ name) =
    Some (name, fst (strtok_r ''.'' (snd (strtok_r ''.'' name))))"
proof -
  obtain tok rest where t: "strtok_r ''/'' (dir @ name) = (tok, rest)" by fastforce
  with assms(4) last_token_path [OF assms(1-3) t] show ?thesis
    by (auto simp: parse_http_uri_def split: prod.splits)
qed

text \<open>The last token exists when there was one before, and is no longer than the text.\<close>

lemma last_token_length:
  "last_token d (Some t) rest = Some u \<Longrightarrow> length u \<le> max (length t) (length rest)"
proof (induction d "Some t" rest arbitrary: t rule: last_token.induct)
  case (1 delims rest)
  show ?case
  proof (cases "strtok_r delims rest")
    case (Pair tok rest')
    show ?thesis
    proof (cases tok)
      case None
      with 1(2) Pair show ?thesis by (simp add: last_token.simps [of _ _ rest])
    next
      case (Some v)
      have l: "length v \<le> length rest" "length rest' < length rest"
        using Pair Some length_strtok_r [of delims rest v] length_strtok_r_token [of delims rest v] by auto
      have lt: "last_token delims (Some v) rest' = Some u"
        using 1(2) Pair Some by (simp add: last_token.simps [of _ _ rest])
      have "length u \<le> max (length v) (length rest')"
        by (rule 1(1) [OF Pair [symmetric] Some lt])
      with l show ?thesis by simp
    qed
  qed
qed

lemma last_token_total: "last_token d (Some t) rest \<noteq> None"
proof (induction d "Some t" rest arbitrary: t rule: last_token.induct)
  case (1 delims rest)
  then show ?case
    by (cases "strtok_r delims rest") (auto simp: last_token.simps [of _ _ rest] split: option.splits)
qed

lemma process_startline_words:
  assumes "m \<noteq> []" "CHR '' '' \<notin> set m" "p \<noteq> []" "CHR '' '' \<notin> set p"
  shows "\<exists>v. process_startline (m @ CHR '' '' # p @ CHR '' '' # r) = (Some m, Some p, v)"
proof -
  have "strtok_r '' '' (m @ CHR '' '' # (p @ CHR '' '' # r)) = (Some m, p @ CHR '' '' # r)"
    by (rule strtok_r_split) (use assms in auto)
  moreover have "strtok_r '' '' (p @ CHR '' '' # r) = (Some p, r)"
    by (rule strtok_r_split) (use assms in auto)
  ultimately show ?thesis by (simp add: process_startline_def split_beta)
qed

subsection \<open>Properties\<close>

text \<open>
  \<open>searchSubstring\<close> computes the position that \<open>strstr\<close> finds, and -1 when the second
  string does not occur in the first.
\<close>

theorem searchSubstring_strstr:
  "searchSubstring str substr =
    (case strstr str substr of None \<Rightarrow> -1 | Some r \<Rightarrow> int (length str - length r))"
  using search_outer_strstr [of substr str 0]
  by (auto simp: searchSubstring_def strstr_short)

lemma sscanf_range_prefix: "sscanf (lits ''Range: bytes='' @ f) (''Range: bytes='' @ s) = sscanf f s"
  by (simp add: lits_def isspace_def)

text \<open>The three forms of a range.\<close>

datatype range_spec = Closed nat nat | OpenEnd nat | Suffix nat

fun show_range :: "range_spec \<Rightarrow> string" where
  "show_range (Closed s e) = show_nat s @ ''-'' @ show_nat e"
| "show_range (OpenEnd s) = show_nat s @ ''-''"
| "show_range (Suffix n) = ''-'' @ show_nat n"

fun range_values :: "range_spec \<Rightarrow> int \<times> int" where
  "range_values (Closed s e) = (int s, int e)"
| "range_values (OpenEnd s) = (int s, -1)"
| "range_values (Suffix n) = (- int n, -1)"

fun range_int :: "range_spec \<Rightarrow> bool" where
  "range_int (Closed s e) \<longleftrightarrow> s < 2 ^ 31 \<and> e < 2 ^ 31"
| "range_int (OpenEnd s) \<longleftrightarrow> s < 2 ^ 31"
| "range_int (Suffix n) \<longleftrightarrow> n < 2 ^ 31"

definition range_header_of :: "range_spec \<Rightarrow> string \<Rightarrow> bool" where
  "range_header_of spec req \<longleftrightarrow>
     (\<exists>r. strstr req ''Range:'' = Some (''Range: bytes='' @ show_range spec @ crlf @ r) \<and> no_digit r \<and>
       (r = [] \<or> \<not> isspace (hd r) \<and> hd r \<noteq> CHR ''-'' \<and> hd r \<noteq> CHR ''+''))"

lemma scan_long_show_nat: "no_digit r \<Longrightarrow> n < 2 ^ 31 \<Longrightarrow> scan_long (show_nat n @ r) = Some (int n, r)"
  using scan_long_show_int [of r "int n"] by (simp add: show_int_of_nat)

lemma scan_long_minus:
  "no_digit r \<Longrightarrow> n < 2 ^ 31 \<Longrightarrow> scan_long (CHR ''-'' # show_nat n @ r) = Some (- int n, r)"
  by (simp add: scan_long_def isspace_def sign_of_def takeWhile_digits dropWhile_digits
      digits_value_show_nat clamp64_def)

lemma scan_long_header_end:
  assumes "no_digit r" "r = [] \<or> \<not> isspace (hd r) \<and> hd r \<noteq> CHR ''-'' \<and> hd r \<noteq> CHR ''+''"
  shows "scan_long (CR # LF # r) = None"
  using assms by (cases r) (auto simp: scan_long_def isspace_def sign_of_def no_digit_def)

lemma i32_small: "n < 2 ^ 31 \<Longrightarrow> i32 (int n) = int n \<and> i32 (- int n) = - int n"
  by (simp add: i32_id is_i32_def INT_MAX_def INT_MIN_def)

text \<open>
  A range header is read as the values its form stands for: both ends, the end -1 when it
  is left open, and for the form \<open>bytes=-n\<close> (the last \<open>n\<close> bytes) the negative start \<open>-n\<close>.
\<close>

theorem parse_http_range_header_spec:
  assumes "range_header_of spec req" "range_int spec"
  shows "parse_http_range_header req = Some (range_values spec)"
proof -
  obtain r where r: "strstr req ''Range:'' = Some (''Range: bytes='' @ show_range spec @ crlf @ r)"
    "no_digit r" "r = [] \<or> \<not> isspace (hd r) \<and> hd r \<noteq> CHR ''-'' \<and> hd r \<noteq> CHR ''+''"
    using assms(1) by (auto simp: range_header_of_def)
  have nd: "no_digit (CR # x)" "no_digit (CHR ''-'' # x)" for x
    by (auto simp: no_digit_def isdigit_def uchar_def)
  have dash: "sscanf (lits ''-'' @ f) (CHR ''-'' # x) = sscanf f x" for f x
    by (simp add: lits_def isspace_def)
  have dash_end: "sscanf (lits ''-'') (CHR ''-'' # x) = []" for x
    by (simp add: lits_def isspace_def)
  have nodash_end: "sscanf (lits ''-'') (CR # x) = []" for x
    by (simp add: lits_def isspace_def)
  have nodash: "sscanf (lits ''-'' @ f) (CR # x) = []" for f x
    by (simp add: lits_def isspace_def)
  note defs = parse_http_range_header_def range_format_def open_range_format_def
  note reads = sscanf_range_prefix [simplified] dash dash_end nodash nodash_end nd scan_long_show_nat scan_long_minus
    scan_long_header_end [OF r(2,3)] i32_small crlf_def
  show ?thesis
  proof (cases spec)
    case (Closed s e)
    with r assms(2) show ?thesis by (simp add: defs reads)
  next
    case (OpenEnd s)
    with r assms(2) show ?thesis by (simp add: defs reads)
  next
    case (Suffix n)
    with r assms(2) show ?thesis by (simp add: defs reads)
  qed
qed

lemma parse_http_range_header_spec_witness:
  "parse_http_range_header (''GET /peer/view/a.ogg HTTP/1.1'' @ crlf @ ''Range: bytes=-20'' @ crlf @ ''Host: x'' @ crlf)
    = Some (-20, -1)"
proof -
  have n: "show_nat 20 = ''20''" by code_simp
  have "range_header_of (Suffix 20)
      (''GET /peer/view/a.ogg HTTP/1.1'' @ crlf @ ''Range: bytes=-20'' @ crlf @ ''Host: x'' @ crlf)"
    unfolding range_header_of_def
    by (rule exI [of _ "''Host: x'' @ crlf"])
      (simp add: n crlf_def starts_with_def no_digit_def isdigit_def isspace_def uchar_def)
  from parse_http_range_header_spec [OF this] show ?thesis by simp
qed

text \<open>
  For a path whose last component is \<open>name\<close>, \<open>parse_http_uri\<close> returns \<open>name\<close> and, as its
  extension, what stands between the first and the second dot: in a name with two dots that
  is not the end of the name, and the content type is looked up for it.
\<close>

theorem parse_http_uri_extension:
  assumes "dir = [] \<or> last dir = CHR ''/''" "name = a @ ''.'' @ b @ rest"
    and "a \<noteq> []" "b \<noteq> []" "set a \<inter> {CHR ''.'', CHR ''/''} = {}" "set b \<inter> {CHR ''.'', CHR ''/''} = {}"
    and "rest = [] \<or> hd rest = CHR ''.'' \<and> CHR ''/'' \<notin> set rest" "length name < URI_BUF"
  shows "parse_http_uri (dir @ name) = Some (name, Some b)"
proof -
  have "strtok_r ''.'' name = (Some a, b @ rest)"
    using assms(2,3,5) strtok_r_split [of a "''.''" "CHR ''.''" "b @ rest"] by simp
  moreover have "fst (strtok_r ''.'' (b @ rest)) = Some b"
    using assms(4,6,7) strtok_r_split [of b "''.''" "CHR ''.''" "tl rest"] strtok_r_whole [of b "''.''"]
    by (cases rest) auto
  moreover have "name \<noteq> []" "CHR ''/'' \<notin> set name"
    using assms(2,5,6,7) by auto
  ultimately show ?thesis using parse_http_uri_last [of name dir] assms(1,8) by simp
qed

lemma parse_http_uri_extension_witness:
  "parse_http_uri ''content/video/a.min.js'' = Some (''a.min.js'', Some ''min'')"
  using parse_http_uri_extension [of "''content/video/''" "''a.min.js''" "''a''" "''min''" "''.js''"]
  by (simp add: URI_BUF_def)

lemma ld_of_int_range: "0 \<le> ld_of_int x \<and> ld_of_int x < 2 ^ 32"
  using take_bit_int_less_exp [of 32 x] by (simp add: ld_of_int_def)

lemma content_type_length: "content_type_lookup t = Some (ct, v) \<Longrightarrow> length ct \<le> 24"
  by (auto simp: content_type_lookup_def split: option.splits if_splits)

text \<open>
  The 200 bytes that the header of a file without a range is formatted into are enough for
  every content type of the table, every file size and the 29 characters of a date; six bytes
  are left.
\<close>

theorem send_http_200_no_range_fits:
  assumes "content_type_lookup t = Some (ct, v)" "length date = 29"
  shows "\<exists>m. send_http_200_no_range date fd ct file_size = Some [Send fd m] \<and> length m \<le> 194"
proof -
  have "length (show_int (ld_of_int file_size)) \<le> 10"
    using ld_of_int_range [of file_size] length_show_nat [of 10 "nat (ld_of_int file_size)"]
    by (simp add: show_int_def nat_less_iff)
  then have "length (headers_200 (ld_of_int file_size) ct date date) \<le> 194"
    using content_type_length [OF assms(1)] assms(2) by (simp add: headers_200_def)
  with assms(2) show ?thesis
    by (simp add: send_http_200_no_range_def generate_timestamp_def)
qed

lemma send_http_200_no_range_fits_witness:
  "\<exists>m. send_http_200_no_range ''Sat, 11 Feb 2023 00:03:43 GMT'' 5 ''video/ogg'' 2147483647 = Some [Send 5 m] \<and>
    length m \<le> 194"
  by (rule send_http_200_no_range_fits [of "Some ''ogv''" _ 1]) (simp_all add: content_type_lookup_def)

subsection \<open>Rates of registered peers\<close>

definition peers_from :: "peer_url list \<Rightarrow> peer_table" where
  "peers_from ps = foldl add_peer_to_list peer_table_init ps"

lemma peers_from_snoc: "peers_from (ps @ [p]) = add_peer_to_list (peers_from ps) p"
  by (simp add: peers_from_def)

lemma peers_from_list:
  "peers_count (peers_from ps) = min (length ps) PEERS_LIST_SIZE \<and>
    length (peers_list (peers_from ps)) = PEERS_LIST_SIZE \<and>
    (\<forall>i < PEERS_LIST_SIZE. peers_list (peers_from ps) ! i =
      (if i < length ps then ps ! i else \<lparr>pu_path = [], pu_host = [], pu_port = [], pu_rate = []\<rparr>))"
proof (induction ps rule: rev_induct)
  case Nil
  then show ?case by (simp add: peers_from_def peer_table_init_def)
next
  case (snoc p ps)
  then show ?case
    by (auto simp: peers_from_snoc add_peer_to_list_def nth_list_update nth_append)
qed

lemma get_rate_find:
  "path \<noteq> [] \<Longrightarrow> i \<le> n \<Longrightarrow>
    \<forall>j < n. peers ! j = (if j < length ps then ps ! j
      else \<lparr>pu_path = [], pu_host = [], pu_port = [], pu_rate = []\<rparr>) \<Longrightarrow>
    get_rate_of_path path peers n i = map_option pu_rate (find (\<lambda>p. pu_path p = path) (drop i (take n ps)))"
proof (induction "n - i" arbitrary: i)
  case 0
  then have "i = n" by simp
  then show ?case by (simp add: get_rate_of_path.simps [of path peers n n])
next
  case (Suc k)
  then have i: "i < n" by simp
  show ?case
  proof (cases "i < length ps")
    case True
    with i have "drop i (take n ps) = ps ! i # drop (Suc i) (take n ps)"
      by (metis Cons_nth_drop_Suc length_take min_less_iff_conj nth_take)
    with Suc i True show ?thesis
      by (auto simp: get_rate_of_path.simps [of path peers n i])
  next
    case False
    with Suc i show ?thesis
      by (auto simp: get_rate_of_path.simps [of path peers n i])
  qed
qed

text \<open>
  The rate found for a path is that of the first peer registered with the path, among the
  first \<open>n\<close> peers registered; peers after the hundredth are dropped without a message.
\<close>

theorem get_rate_of_registered_path:
  assumes "path \<noteq> []" "n \<le> PEERS_LIST_SIZE"
  shows "get_rate_of_path path (peers_list (peers_from ps)) n 0 =
      map_option pu_rate (find (\<lambda>p. pu_path p = path) (take n ps)) \<and>
    peers_count (peers_from ps) = min (length ps) 100"
  using get_rate_find [of path 0 n "peers_list (peers_from ps)" ps] peers_from_list [of ps] assms
  by (auto simp: PEERS_LIST_SIZE_def)

lemma get_rate_of_registered_path_witness:
  "get_rate_of_path ''b'' (peers_list (peers_from
      [\<lparr>pu_path = ''a'', pu_host = ''h'', pu_port = ''1'', pu_rate = ''10''\<rparr>,
       \<lparr>pu_path = ''b'', pu_host = ''h'', pu_port = ''1'', pu_rate = ''20''\<rparr>])) 7 0 = Some ''20''"
  using get_rate_of_registered_path [of "''b''" 7
      "[\<lparr>pu_path = ''a'', pu_host = ''h'', pu_port = ''1'', pu_rate = ''10''\<rparr>,
        \<lparr>pu_path = ''b'', pu_host = ''h'', pu_port = ''1'', pu_rate = ''20''\<rparr>]"]
  by (simp add: PEERS_LIST_SIZE_def)

end
