(* ===== verification/Packet.thy ===== *)
theory Packet
  imports Uri "HOL-Library.Multiset"
begin

text \<open>
  The packets of the file transfer between nodes (\<open>Packet\<close> of \<open>src/hw4/src/uri_parse.h\<close>) and
  the socket list of \<open>src/hw4/src/main.c\<close>. A packet travels as the bytes of the structure, so
  a received string field is what a read from its start sees: a field without a terminator
  reads as a string longer than its array.
\<close>

definition PACKET_DATA_SIZE :: nat where
  "PACKET_DATA_SIZE = 1024"

abbreviation ID_SIZE :: nat where
  "ID_SIZE \<equiv> 256"

abbreviation TYPE_SIZE :: nat where
  "TYPE_SIZE \<equiv> 16"

abbreviation PATH_SIZE :: nat where
  "PATH_SIZE \<equiv> 256"

text \<open>\<open>pk_data\<close> holds all the bytes of the array.\<close>

record packet =
  pk_connection_id :: string
  pk_packet_type :: string
  pk_ack_number :: int
  pk_file_path :: string
  pk_start_byte :: int
  pk_end_byte :: int
  pk_packet_number :: int
  pk_data_size :: int
  pk_orig_has_range :: bool
  pk_content_length :: int
  pk_data :: string

definition duplicate_packet :: "packet \<Rightarrow> packet \<Rightarrow> packet option" where
  "duplicate_packet packet1 packet2 = do {
     cid \<leftarrow> strcpy_buf ID_SIZE (pk_connection_id packet2);
     typ \<leftarrow> strcpy_buf TYPE_SIZE (pk_packet_type packet2);
     path \<leftarrow> strcpy_buf PATH_SIZE (pk_file_path packet2);
     Some (packet1\<lparr>pk_connection_id := cid, pk_packet_type := typ,
       pk_ack_number := pk_ack_number packet2, pk_file_path := path,
       pk_start_byte := pk_start_byte packet2, pk_end_byte := pk_end_byte packet2,
       pk_packet_number := pk_packet_number packet2, pk_data_size := pk_data_size packet2,
       pk_orig_has_range := pk_orig_has_range packet2,
       pk_content_length := pk_content_length packet2\<rparr>) }"

text \<open>\<open>print_packet\<close>: the text argument is \<open>None\<close> for \<open>NULL\<close>; a \<open>bool\<close> is printed as 0 or 1.\<close>

definition print_packet :: "packet \<Rightarrow> string option \<Rightarrow> string" where
  "print_packet packet text =
     (let text = (case text of None \<Rightarrow> '''' | Some t \<Rightarrow> t);
          field = (\<lambda>name value. name @ '': '' @ value @ [LF])
      in [LF] @ ''====================== This is the packet ======================'' @ [LF] @
         ''====================== '' @ text @ '' ======================'' @ [LF] @
         field ''connection_id'' (pk_connection_id packet) @
         field ''packet_type'' (pk_packet_type packet) @
         field ''ack_number'' (show_int (pk_ack_number packet)) @
         field ''file_path'' (pk_file_path packet) @
         field ''start_byte'' (show_int (pk_start_byte packet)) @
         field ''end_byte'' (show_int (pk_end_byte packet)) @
         field ''packet_number'' (show_int (pk_packet_number packet)) @
         field ''packet_data_size'' (show_int (pk_data_size packet)) @
         field ''orig_has_range'' (if pk_orig_has_range packet then ''1'' else ''0'') @
         field ''content_length'' (show_int (pk_content_length packet)) @ [LF])"

text \<open>
  What a node does outside: calls on TCP connections, datagrams it sends back to the sender
  of the one it handles, a packet it sends to the host and port of another node, and files
  it writes.
\<close>

datatype net_action =
  Tcp tcp_action | UdpPacket packet | UdpText string | UdpTo string int packet | WriteFile string string

fun packets_of :: "net_action list \<Rightarrow> packet list" where
  "packets_of [] = []"
| "packets_of (UdpPacket p # acts) = p # packets_of acts"
| "packets_of (_ # acts) = packets_of acts"

fun tcp_of :: "net_action list \<Rightarrow> tcp_action list" where
  "tcp_of [] = []"
| "tcp_of (Tcp a # acts) = a # tcp_of acts"
| "tcp_of (_ # acts) = tcp_of acts"

lemma packets_of_append [simp]: "packets_of (a @ b) = packets_of a @ packets_of b"
  by (induction a rule: packets_of.induct) auto

lemma tcp_of_append [simp]: "tcp_of (a @ b) = tcp_of a @ tcp_of b"
  by (induction a rule: tcp_of.induct) auto

lemma packets_of_Tcp [simp]: "packets_of (map Tcp acts) = []"
  by (induction acts) auto

lemma tcp_of_Tcp [simp]: "tcp_of (map Tcp acts) = acts"
  by (induction acts) auto

subsection \<open>The list of open connections\<close>

text \<open>
  \<open>connections[0 .. num_connections - 1]\<close> as a list. \<open>remove_socket\<close> closes the first entry
  with the descriptor and moves the last entry to its place.
\<close>

function remove_socket_at :: "int \<Rightarrow> int list \<Rightarrow> nat \<Rightarrow> int \<times> tcp_action list \<times> int list" where
  "remove_socket_at sockfd connections i =
     (if i < length connections
      then if connections ! i = sockfd
           then (1, [CloseFd (connections ! i)], butlast (connections[i := last connections]))
           else remove_socket_at sockfd connections (i + 1)
      else (0, [], connections))"
  by pat_completeness auto
termination
  by (relation "measure (\<lambda>(s, c, i). length c - i)") auto

declare remove_socket_at.simps [simp del]

definition remove_socket :: "int \<Rightarrow> int list \<Rightarrow> int \<times> tcp_action list \<times> int list" where
  "remove_socket sockfd connections = remove_socket_at sockfd connections 0"

function is_socket_at :: "int \<Rightarrow> int list \<Rightarrow> nat \<Rightarrow> int" where
  "is_socket_at sockfd connections i =
     (if i < length connections
      then if connections ! i = sockfd then 1 else is_socket_at sockfd connections (i + 1)
      else 0)"
  by pat_completeness auto
termination
  by (relation "measure (\<lambda>(s, c, i). length c - i)") auto

declare is_socket_at.simps [simp del]

definition is_socket_in_array :: "int \<Rightarrow> int list \<Rightarrow> int" where
  "is_socket_in_array sockfd connections = is_socket_at sockfd connections 0"

lemma is_socket_at_drop:
  "i \<le> length cs \<Longrightarrow> is_socket_at fd cs i = (if fd \<in> set (drop i cs) then 1 else 0)"
proof (induction fd cs i rule: is_socket_at.induct)
  case (1 fd cs i)
  show ?case
  proof (cases "i < length cs")
    case True
    with 1 show ?thesis
      by (auto simp: is_socket_at.simps [of fd cs i] simp flip: Cons_nth_drop_Suc)
  next
    case False
    with 1 have "i = length cs" by simp
    then show ?thesis by (simp add: is_socket_at.simps [of fd cs "length cs"])
  qed
qed

lemma is_socket_in_array_set: "is_socket_in_array fd cs = (if fd \<in> set cs then 1 else 0)"
  by (simp add: is_socket_in_array_def is_socket_at_drop)

lemma remove_socket_at_split:
  "fd \<notin> set a \<Longrightarrow> i \<le> length a \<Longrightarrow>
    remove_socket_at fd (a @ fd # b) i =
      (1, [CloseFd fd], if b = [] then a else a @ last b # butlast b)"
proof (induction "length a - i" arbitrary: i)
  case 0
  then have "i = length a" by simp
  then show ?case
    by (simp add: remove_socket_at.simps [of fd "a @ fd # b" "length a"] butlast_append)
next
  case (Suc k)
  then have i: "i < length a" by simp
  with Suc.prems have "(a @ fd # b) ! i \<noteq> fd" by (metis nth_append nth_mem)
  with Suc i show ?case
    by (simp add: remove_socket_at.simps [of fd "a @ fd # b" i])
qed

lemma remove_socket_at_absent: "fd \<notin> set cs \<Longrightarrow> remove_socket_at fd cs i = (0, [], cs)"
  by (induction fd cs i rule: remove_socket_at.induct) (subst remove_socket_at.simps, auto)

text \<open>
  The array of open connections is a multiset of descriptors: \<open>remove_socket\<close> closes and
  removes one occurrence of the descriptor and keeps every other entry, or, for a descriptor
  that is not there, changes nothing and returns 0; \<open>is_socket_in_array\<close> is membership.
\<close>

theorem remove_socket_refines_multiset:
  "(case remove_socket fd cs of (r, acts, cs') \<Rightarrow>
      mset cs' = mset cs - {#fd#} \<and> r = is_socket_in_array fd cs \<and>
      acts = (if fd \<in># mset cs then [CloseFd fd] else [])) \<and>
    is_socket_in_array fd cs = (if fd \<in># mset cs then 1 else 0)"
proof (cases "fd \<in> set cs")
  case False
  then show ?thesis
    by (simp add: remove_socket_def remove_socket_at_absent is_socket_in_array_set)
next
  case True
  then obtain a b where cs: "cs = a @ fd # b" "fd \<notin> set a"
    by (auto dest: split_list_first)
  have "b \<noteq> [] \<Longrightarrow> add_mset (last b) (mset (butlast b)) = mset b"
    by (metis append_butlast_last_id mset_append mset.simps add_mset_add_single)
  with cs show ?thesis
    using remove_socket_at_split [of fd a 0 b]
    by (auto simp: remove_socket_def is_socket_in_array_set)
qed

end
