(* ===== verification/FileTransfer.thy ===== *)
theory FileTransfer
  imports Packet
begin

text \<open>
  The file transfer between nodes, \<open>multiplex_udp\<close> of \<open>src/hw4/src/main.c\<close>: the node that has
  a file answers a packet \<open>ack\<close> with one block of the file (\<open>synack\<close>); the node that asked
  forwards the block to its TCP client and acknowledges it. \<open>udp_to_tcp_client\<close> is an older
  version of the receiving side with a rate limit.

  The environment of one call is a record: the files, what the uninitialised packet on the
  stack holds, the text of the date, what a string in the dead stack frame of
  \<open>parse_http_uri\<close> reads as when \<open>content_type_lookup\<close> compares it, and the results of \<open>send\<close>
  for the header and for the data. A failed \<open>sendto\<close> has no effect on the state, so its result
  is left out.
\<close>

record udp_env =
  ue_files :: "string \<Rightarrow> string option"
  ue_junk :: packet
  ue_date :: string
  ue_dead :: "string \<Rightarrow> string"
  ue_header_sent :: int
  ue_data_sent :: int

definition cmin :: "int \<Rightarrow> int \<Rightarrow> int" where
  "cmin x y = (if x < y then x else y)"

subsection \<open>The side that has the file\<close>

text \<open>
  \<open>fread(buf, 1, n, f)\<close> into an array of 1024 bytes: \<open>n\<close> is converted to \<open>size_t\<close>, so that a
  negative number asks for everything that is left; more than 1024 bytes overflow the array.
\<close>

definition fread_block :: "string \<Rightarrow> int \<Rightarrow> string \<Rightarrow> (nat \<times> string) option" where
  "fread_block buf n rest =
     (let count = nat (min (u64 n) (int (length rest)))
      in if PACKET_DATA_SIZE < count then None
         else Some (count, take count rest @ drop count buf))"

definition fix_end_byte :: "int \<Rightarrow> int \<Rightarrow> int" where
  "fix_end_byte st_size end_byte =
     (if end_byte = -1 \<or> st_size \<le> end_byte \<or> end_byte = 0 then i32 (st_size - 1) else end_byte)"

definition set_content_length :: "packet \<Rightarrow> int \<Rightarrow> packet" where
  "set_content_length output_packet st_size =
     output_packet\<lparr>pk_content_length := i32 st_size,
       pk_end_byte := fix_end_byte st_size (pk_end_byte output_packet)\<rparr>"

definition need_to_read_bytes :: "packet \<Rightarrow> int" where
  "need_to_read_bytes output_packet =
     (if pk_orig_has_range output_packet
      then cmin (int PACKET_DATA_SIZE)
        (i32 (pk_end_byte output_packet - pk_start_byte output_packet + 1))
      else int PACKET_DATA_SIZE)"

definition multiplex_ack :: "udp_env \<Rightarrow> packet \<Rightarrow> net_action list option" where
  "multiplex_ack env input_packet = do {
     filepath \<leftarrow> strcpy_buf PATH_SIZE (pk_file_path input_packet);
     case ue_files env filepath of
       None \<Rightarrow> Some [UdpText (''File not found'' @ [LF])]
     | Some content \<Rightarrow>
         if pk_start_byte input_packet < 0 then Some []
         else do {
           output_packet \<leftarrow> duplicate_packet (ue_junk env) input_packet;
           let output_packet = (if pk_ack_number input_packet = 0
             then set_content_length output_packet (int (length content)) else output_packet);
           (n_bytes, data) \<leftarrow> fread_block (pk_data output_packet) (need_to_read_bytes output_packet)
             (drop (nat (pk_start_byte input_packet)) content);
           let output_packet = output_packet\<lparr>pk_data := data,
             pk_packet_number := pk_ack_number input_packet, pk_data_size := int n_bytes,
             pk_packet_type := ''synack''\<rparr>;
           Some (if 0 < n_bytes then [UdpPacket output_packet] else []) } }"

subsection \<open>The side that asked\<close>

definition empty_packet :: "string \<Rightarrow> packet" where
  "empty_packet packet_type =
     \<lparr>pk_connection_id = [], pk_packet_type = packet_type, pk_ack_number = 0, pk_file_path = [],
      pk_start_byte = 0, pk_end_byte = 0, pk_packet_number = 0, pk_data_size = 0,
      pk_orig_has_range = False, pk_content_length = 0, pk_data = replicate PACKET_DATA_SIZE NUL\<rparr>"

text \<open>
  The descriptor at the start of the connection id. \<open>strtok\<close> ends the id in the packet after
  its first token; an id without a number leaves the descriptor uninitialised.
\<close>

definition client_socket :: "packet \<Rightarrow> (int \<times> packet) option" where
  "client_socket input_packet =
     (let cid = pk_connection_id input_packet in
      case strtok_r '' '' cid of
        (None, _) \<Rightarrow> None
      | (Some token, _) \<Rightarrow>
          (case sscanf [ConvInt] token of
             [AInt fd] \<Rightarrow>
               Some (fd, input_packet\<lparr>pk_connection_id := takeWhile (\<lambda>c. c = CHR '' '') cid @ token\<rparr>)
           | _ \<Rightarrow> None))"

text \<open>The header before the first block: the actions and whether the handler goes on.\<close>

definition send_headers :: "udp_env \<Rightarrow> packet \<Rightarrow> int \<Rightarrow> (tcp_action list \<times> bool) option" where
  "send_headers env input_packet client_sockfd =
     (if pk_packet_number input_packet = 0
      then do {
        (filename, filetype) \<leftarrow> parse_http_uri (pk_file_path input_packet);
        (content_type, is_video_transfer) \<leftarrow> content_type_lookup (map_option (ue_dead env) filetype);
        let content_length = pk_content_length input_packet;
        if pk_orig_has_range input_packet
        then do {
          acts \<leftarrow> send_http_206_partial_content (ue_date env) client_sockfd content_type content_length
            (pk_start_byte input_packet) (pk_end_byte input_packet);
          Some (acts, 0 \<le> ue_header_sent env) }
        else do {
          acts \<leftarrow> send_http_200_no_range (ue_date env) client_sockfd content_type content_length;
          Some (acts, True) } }
      else Some ([], True))"

text \<open>
  From \<open>is_socket_in_array\<close> to the acknowledgement. \<open>ack_type\<close> is the type the packet sent has:
  \<open>multiplex_udp\<close> sets it to \<open>ack\<close>; \<open>udp_to_tcp_client\<close> leaves the copied type (\<open>None\<close>).
\<close>

definition forward_block ::
  "udp_env \<Rightarrow> string option \<Rightarrow> packet \<Rightarrow> int \<Rightarrow> int list \<Rightarrow> (net_action list \<times> int list) option" where
  "forward_block env ack_type input_packet client_sockfd connections =
     (if is_socket_in_array client_sockfd connections = 0 then Some ([], connections)
      else
        let data = Tcp (Send client_sockfd (pk_data input_packet)) in
        if ue_data_sent env < 0
        then let (_, acts, connections') = remove_socket client_sockfd connections
             in Some (data # Tcp (CloseFd client_sockfd) # map Tcp acts, connections')
        else if pk_data_size input_packet < int PACKET_DATA_SIZE
        then Some ([data, Tcp (CloseFd client_sockfd)], connections)
        else do {
          ack_packet \<leftarrow> duplicate_packet (empty_packet ''ack'') input_packet;
          let ack_packet = ack_packet\<lparr>pk_ack_number := i32 (pk_ack_number ack_packet + 1),
            pk_packet_number := i32 (pk_packet_number ack_packet + 1),
            pk_start_byte := i32 (pk_start_byte ack_packet + int PACKET_DATA_SIZE)\<rparr>;
          let ack_packet = (case ack_type of
            None \<Rightarrow> ack_packet | Some t \<Rightarrow> ack_packet\<lparr>pk_packet_type := t\<rparr>);
          Some ([data, UdpPacket ack_packet], connections) })"

definition multiplex_synack ::
  "udp_env \<Rightarrow> packet \<Rightarrow> int list \<Rightarrow> (net_action list \<times> int list) option" where
  "multiplex_synack env input_packet connections = do {
     (client_sockfd, input_packet) \<leftarrow> client_socket input_packet;
     (headers, go_on) \<leftarrow> send_headers env input_packet client_sockfd;
     if \<not> go_on
     then let (_, acts, connections') = remove_socket client_sockfd connections
          in Some (map Tcp headers @ map Tcp acts, connections')
     else do {
       (acts, connections') \<leftarrow> forward_block env (Some ''ack'') input_packet client_sockfd connections;
       Some (map Tcp headers @ acts, connections') } }"

subsection \<open>The dispatcher\<close>

definition strncmp_eq :: "string \<Rightarrow> string \<Rightarrow> bool" where
  "strncmp_eq s lit \<longleftrightarrow> take (length lit) s = lit"

text \<open>\<open>n_bytes\<close> is the result of \<open>recvfrom_timeout\<close>, \<open>input_packet\<close> what the buffer holds then.\<close>

definition recvfrom_timeout :: "int \<Rightarrow> int \<Rightarrow> int" where
  "recvfrom_timeout select_result recvfrom_result =
     (if select_result = 0 then 0 else if select_result = -1 then -1 else recvfrom_result)"

definition multiplex_udp ::
  "udp_env \<Rightarrow> int \<Rightarrow> packet \<Rightarrow> int list \<Rightarrow> (net_action list \<times> int list) option" where
  "multiplex_udp env n_bytes input_packet connections =
     (if n_bytes = 0 \<or> n_bytes = -1 then Some ([], connections)
      else if strncmp_eq (pk_packet_type input_packet) ''ack''
      then map_option (\<lambda>acts. (acts, connections)) (multiplex_ack env input_packet)
      else if strncmp_eq (pk_packet_type input_packet) ''fin'' then Some ([], connections)
      else if strncmp_eq (pk_packet_type input_packet) ''synack''
      then multiplex_synack env input_packet connections
      else Some ([], connections))"

subsection \<open>The older receiver with a rate limit\<close>

text \<open>
  The packet count and whether the thread slept. Only the first seven registered peers are
  searched; a path none of them has makes \<open>atoi\<close> read through \<open>NULL\<close>.
\<close>

definition rate_limit_step ::
  "peer_table \<Rightarrow> int \<Rightarrow> string \<Rightarrow> int \<Rightarrow> (int \<times> bool) option" where
  "rate_limit_step t global_rate_limit path packet_count = do {
     rate_str \<leftarrow> get_rate_of_path path (peers_list t) 7 0;
     let rate_limit = atoi rate_str;
     let rate_limit_to_use = (if global_rate_limit = 0 then rate_limit else global_rate_limit);
     let packet_count = i32 (packet_count + 1);
     Some (if rate_limit_to_use < packet_count \<and> 0 < rate_limit_to_use
       then (0, True) else (packet_count, False)) }"

definition udp_to_tcp_client ::
  "udp_env \<Rightarrow> peer_table \<Rightarrow> int \<Rightarrow> int \<Rightarrow> packet \<Rightarrow> int \<Rightarrow> int list \<Rightarrow>
    (net_action list \<times> int list \<times> int) option" where
  "udp_to_tcp_client env t global_rate_limit n_bytes file_packet packet_count connections =
     (if n_bytes = 0 \<or> n_bytes = -1 then Some ([], connections, packet_count)
      else do {
        (packet_count, slept) \<leftarrow>
          rate_limit_step t global_rate_limit (pk_file_path file_packet) packet_count;
        (client_sockfd, file_packet) \<leftarrow> client_socket file_packet;
        (headers, go_on) \<leftarrow> send_headers env file_packet client_sockfd;
        if \<not> go_on
        then let (_, acts, connections') = remove_socket client_sockfd connections
             in Some (map Tcp headers @ map Tcp acts, connections', packet_count)
        else do {
          (acts, connections') \<leftarrow> forward_block env None file_packet client_sockfd connections;
          Some (map Tcp headers @ acts, connections', packet_count) } })"

subsection \<open>The first packet\<close>

text \<open>
  The packet that \<open>/peer/view\<close> sends to the node that has the file (\<open>src/hw4/src/uri_parse.c\<close>):
  the connection id is the descriptor of the TCP client and the path, the range that of the
  HTTP request (\<open>None\<close> without one). The path is also written over the text in the data.
\<close>

definition request_packet :: "string \<Rightarrow> string \<Rightarrow> (int \<times> int) option \<Rightarrow> packet option" where
  "request_packet view_req_fd_filepath content_path asked = do {
     cid \<leftarrow> strcpy_buf ID_SIZE view_req_fd_filepath;
     path \<leftarrow> strcpy_buf PATH_SIZE content_path;
     data \<leftarrow> strcpy_buf PACKET_DATA_SIZE content_path;
     let packet = (empty_packet ''ack'')\<lparr>pk_connection_id := cid, pk_file_path := path,
       pk_end_byte := -1,
       pk_data := data @ [NUL] @ drop (length data + 1)
         (''some data'' @ replicate (PACKET_DATA_SIZE - 9) NUL)\<rparr>;
     Some (case asked of
       None \<Rightarrow> packet
     | Some (start, end) \<Rightarrow>
         packet\<lparr>pk_orig_has_range := True, pk_start_byte := start, pk_end_byte := end\<rparr>) }"

end
