(* ===== verification/Conf.thy ===== *)
theory Conf
  imports CString
begin

text \<open>
  \<open>conf_utils.h\<close> and the part of \<open>conf_utils.c\<close> that works on a node's configuration
  directly: reading \<open>node.conf\<close>, looking up single values, adding a neighbour, the weight of
  a neighbour. Character arrays of the structs are the strings they hold; writes that need
  more room than the array has are undefined. The pointers \<open>file_paths\<close> and \<open>file_map\<close> of a
  peer are never read or written and are left out.
\<close>

definition MAX_PEERS :: nat where
  "MAX_PEERS = 50"

definition LINE_BUF_SIZE :: nat where
  "LINE_BUF_SIZE = 1024"

definition KEY_BUF_SIZE :: nat where
  "KEY_BUF_SIZE = 64"

definition VALUE_BUF_SIZE :: nat where
  "VALUE_BUF_SIZE = 256"

abbreviation UUID_SIZE :: nat where
  "UUID_SIZE \<equiv> 64"

abbreviation NAME_SIZE :: nat where
  "NAME_SIZE \<equiv> 256"

record peer_info =
  pi_uuid :: string
  pi_last_seen :: string
  pi_name :: string
  pi_host :: string
  pi_frontend_port :: int
  pi_backend_port :: int
  pi_weight :: int
  pi_is_online :: bool

record node_config =
  nc_uuid :: string
  nc_last_seen :: string
  nc_name :: string
  nc_host :: string
  nc_frontend_port :: int
  nc_backend_port :: int
  nc_content_dir :: string
  nc_weight :: int
  nc_is_online :: bool
  nc_num_file_paths :: int
  nc_file_paths :: "string list option"
  nc_peer_count :: int
  nc_peers :: "peer_info list"

definition zero_peer :: peer_info where
  "zero_peer = \<lparr>pi_uuid = [], pi_last_seen = [], pi_name = [], pi_host = [],
     pi_frontend_port = 0, pi_backend_port = 0, pi_weight = 0, pi_is_online = False\<rparr>"

text \<open>The array \<open>peers\<close> has \<open>MAX_PEERS\<close> elements; an index outside it is undefined.\<close>

definition peer_at :: "node_config \<Rightarrow> int \<Rightarrow> peer_info option" where
  "peer_at c i = (if 0 \<le> i \<and> i < int (length (nc_peers c)) then Some (nc_peers c ! nat i) else None)"

definition set_peer :: "node_config \<Rightarrow> int \<Rightarrow> peer_info \<Rightarrow> node_config" where
  "set_peer c i p = c\<lparr>nc_peers := (nc_peers c)[nat i := p]\<rparr>"

text \<open>The initial value of \<open>global_config\<close> in \<open>main.c\<close>.\<close>

definition global_config_init :: node_config where
  "global_config_init =
     \<lparr>nc_uuid = ''uuid'', nc_last_seen = [], nc_name = ''name'', nc_host = [],
      nc_frontend_port = 8080, nc_backend_port = 8081, nc_content_dir = ''content/'',
      nc_weight = 0, nc_is_online = False, nc_num_file_paths = 0, nc_file_paths = None,
      nc_peer_count = 0,
      nc_peers = zero_peer\<lparr>pi_uuid := ''uuid'', pi_name := ''name'', pi_host := ''host'',
          pi_frontend_port := 8080, pi_backend_port := 8081, pi_weight := 11\<rparr>
        # replicate 49 zero_peer\<rparr>"

subsection \<open>\<open>read_config_file\<close>\<close>

text \<open>The lines that successive calls of \<open>fgets\<close> with a buffer of \<open>n\<close> bytes return.\<close>

fun fgets_line :: "nat \<Rightarrow> string \<Rightarrow> string \<times> string" where
  "fgets_line 0 s = ([], s)"
| "fgets_line (Suc n) [] = ([], [])"
| "fgets_line (Suc n) (c # s) =
     (if c = LF then ([c], s) else (let (l, r) = fgets_line n s in (c # l, r)))"

lemma fgets_line_split: "fgets_line n s = (l, r) \<Longrightarrow> s = l @ r"
  by (induction n s arbitrary: l r rule: fgets_line.induct) (auto split: if_splits prod.splits)

lemma fgets_line_length: "fgets_line n s = (l, r) \<Longrightarrow> length l \<le> n"
  by (induction n s arbitrary: l r rule: fgets_line.induct) (auto split: if_splits prod.splits)

lemma fgets_line_shorter: "0 < n \<Longrightarrow> s \<noteq> [] \<Longrightarrow> length (snd (fgets_line n s)) < length s"
proof (cases n; cases s)
  fix m c t
  assume "n = Suc m" "s = c # t"
  then show ?thesis
    using fgets_line_split [of m t "fst (fgets_line m t)" "snd (fgets_line m t)"]
    by (auto split: prod.splits dest!: arg_cong [of t _ length])
qed auto

function fgets_lines :: "nat \<Rightarrow> string \<Rightarrow> string list" where
  "fgets_lines n s =
     (if s = [] \<or> n \<le> 1 then []
      else fst (fgets_line (n - 1) s) # fgets_lines n (snd (fgets_line (n - 1) s)))"
  by pat_completeness auto
termination
  by (relation "measure (\<lambda>(n, s). length s)") (auto simp: fgets_line_shorter)

declare fgets_lines.simps [simp del]

text \<open>What a call ended with: a value returned, or the end of the body without one.\<close>

datatype ret_code = Ret int | NoReturn

definition config_line_format :: "conv list" where
  "config_line_format =
     [ConvSet (\<lambda>c. c \<noteq> CHR ''='' \<and> c \<noteq> CHR '' '') None, Ws, Lit (CHR ''=''), Ws,
      ConvSet (\<lambda>c. c \<noteq> LF) None]"

definition config_peer_format :: "conv list" where
  "config_peer_format =
     [ConvSet (\<lambda>c. c \<noteq> CHR '','') None, Lit (CHR '',''),
      ConvSet (\<lambda>c. c \<noteq> CHR '','') None, Lit (CHR '',''), ConvInt, Lit (CHR '',''), ConvInt,
      Lit (CHR '',''), ConvInt]"

text \<open>
  The fields of a peer that \<open>sscanf\<close> assigns, in the order of the format, for as many values
  as it converted before it failed; the two strings overflow their arrays when too long.
\<close>

fun assign_peer :: "nat \<Rightarrow> sarg list \<Rightarrow> peer_info \<Rightarrow> peer_info option" where
  "assign_peer i [] p = Some p"
| "assign_peer i (AStr s # as) p =
     (if i = 0 then
        (if length s < UUID_SIZE then assign_peer 1 as (p\<lparr>pi_uuid := s\<rparr>) else None)
      else
        (if length s < NAME_SIZE then assign_peer 2 as (p\<lparr>pi_host := s\<rparr>) else None))"
| "assign_peer i (AInt v # as) p =
     assign_peer (Suc i) as
       (if i = 2 then p\<lparr>pi_frontend_port := v\<rparr>
        else if i = 3 then p\<lparr>pi_backend_port := v\<rparr>
        else p\<lparr>pi_weight := v\<rparr>)"

text \<open>
  One line that is neither a comment nor blank. \<open>peers_set\<close> says whether the local
  \<open>cJSON *peers\<close> has been assigned. The result is the code's return value, if the line
  makes it return, the configuration, and \<open>peers_set\<close> for the next line.
\<close>

definition read_config_entry ::
  "bool \<Rightarrow> node_config \<Rightarrow> string \<Rightarrow> string \<Rightarrow> (int option \<times> node_config \<times> bool) option" where
  "read_config_entry peers_set config key value =
     (if key = ''uuid'' then do {
        s \<leftarrow> strncpy_buf UUID_SIZE value;
        Some (None, config\<lparr>nc_uuid := s\<rparr>, peers_set) }
      else if key = ''name'' then do {
        s \<leftarrow> strncpy_buf NAME_SIZE value;
        Some (None, config\<lparr>nc_name := s\<rparr>, peers_set) }
      else if key = ''frontend_port'' then
        Some (None, config\<lparr>nc_frontend_port := atoi value\<rparr>, peers_set)
      else if key = ''backend_port'' then
        Some (None, config\<lparr>nc_backend_port := atoi value\<rparr>, peers_set)
      else if key = ''content_dir'' then do {
        s \<leftarrow> strncpy_buf NAME_SIZE value;
        Some (None, config\<lparr>nc_content_dir := s\<rparr>, peers_set) }
      else if key = ''peer_count'' then
        Some (None, config\<lparr>nc_peer_count := atoi value\<rparr>, True)
      else if take 5 key = ''peer_'' then
        (let peer_num = atoi (drop 5 key) in
         if nc_peer_count config \<le> peer_num then Some (Some 1, config, peers_set)
         else if \<not> peers_set then None
         else do {
           p \<leftarrow> peer_at config peer_num;
           let args = sscanf config_peer_format value;
           p' \<leftarrow> assign_peer 0 args p;
           if length args \<noteq> 5 then Some (Some 1, set_peer config peer_num p', peers_set)
           else Some (None,
             set_peer config peer_num (p'\<lparr>pi_name := ''Peer '' @ show_int peer_num\<rparr>), peers_set) })
      else Some (Some 0, config, peers_set))"

fun read_config_lines ::
  "bool \<Rightarrow> node_config \<Rightarrow> string list \<Rightarrow> (ret_code \<times> node_config) option" where
  "read_config_lines peers_set config [] = Some (NoReturn, config)"
| "read_config_lines peers_set config (line # lines) =
     (if take 1 line = ''#'' \<or> take 1 line = [LF] then read_config_lines peers_set config lines
      else case sscanf config_line_format line of
        [] \<Rightarrow> Some (Ret 1, config)
      | [AStr key] \<Rightarrow> if length key < KEY_BUF_SIZE then Some (Ret 1, config) else None
      | AStr key # AStr value # _ \<Rightarrow>
          if length key < KEY_BUF_SIZE \<and> length value < VALUE_BUF_SIZE then
            (case read_config_entry peers_set config key value of
               None \<Rightarrow> None
             | Some (Some r, config', _) \<Rightarrow> Some (Ret r, config')
             | Some (None, config', peers_set') \<Rightarrow> read_config_lines peers_set' config' lines)
          else None
      | _ \<Rightarrow> Some (Ret 1, config))"

text \<open>\<open>file\<close> is what \<open>fopen\<close> finds: \<open>None\<close> when it fails.\<close>

definition read_config_file ::
  "string option \<Rightarrow> node_config \<Rightarrow> (ret_code \<times> node_config) option" where
  "read_config_file file config =
     (case file of
        None \<Rightarrow> Some (Ret 1, config)
      | Some text \<Rightarrow> read_config_lines False config (fgets_lines LINE_BUF_SIZE text))"

subsection \<open>Single values\<close>

definition get_config_uuid :: "node_config \<Rightarrow> string" where
  "get_config_uuid config = nc_uuid config"

text \<open>\<open>key + strlen(key) - n\<close>: undefined when the pointer would be before the string.\<close>

definition tail_from :: "string \<Rightarrow> nat \<Rightarrow> string option" where
  "tail_from key n = (if n \<le> length key then Some (drop (length key - n) key) else None)"

text \<open>The inner option is the pointer returned (\<open>NULL\<close> is \<open>None\<close>).\<close>

definition get_config_value_by_key :: "node_config \<Rightarrow> string \<Rightarrow> string option option" where
  "get_config_value_by_key config key =
     (if key = ''uuid'' then Some (Some (nc_uuid config))
      else if key = ''name'' then Some (Some (nc_name config))
      else if key = ''frontend_port'' then Some (Some (show_int (nc_frontend_port config)))
      else if key = ''backend_port'' then Some (Some (show_int (nc_backend_port config)))
      else if key = ''content_dir'' then Some (Some (nc_content_dir config))
      else if key = ''peer_count'' then Some (Some (show_int (nc_peer_count config)))
      else if take 6 key = ''peers['' then
        (let index = atoi (drop 6 key) in
         if index < 0 \<or> nc_peer_count config \<le> index then Some None
         else do {
           p \<leftarrow> peer_at config index;
           a \<leftarrow> tail_from key 7;
           if a = ''uuid'' then Some (Some (pi_uuid p)) else do {
           b \<leftarrow> tail_from key 9;
           if b = ''name'' then Some (Some (pi_name p))
           else if b = ''host'' then Some (Some (pi_host p)) else do {
           c \<leftarrow> tail_from key 15;
           if c = ''frontend_port'' then Some (Some (show_int (pi_frontend_port p))) else do {
           d \<leftarrow> tail_from key 13;
           if d = ''backend_port'' then Some (Some (show_int (pi_backend_port p))) else do {
           e \<leftarrow> tail_from key 6;
           if e = ''weight'' then Some (Some (show_int (pi_weight p))) else Some None }}}}})
      else Some None)"

subsection \<open>Neighbours\<close>

definition addneighbor_format :: "conv list" where
  "addneighbor_format =
     lits ''/peer/addneighbor?uuid='' @ [ConvSet (\<lambda>c. c \<noteq> CHR ''&'') (Some 36)] @
     lits ''&host='' @ [ConvSet (\<lambda>c. c \<noteq> CHR ''&'') (Some 255)] @
     lits ''&frontend='' @ [ConvInt] @ lits ''&backend='' @ [ConvInt] @
     lits ''&metric='' @ [ConvInt]"

text \<open>The loops over \<open>config->peers[0 .. peer_count - 1]\<close>: the first index with the uuid.\<close>

function find_peer :: "node_config \<Rightarrow> string \<Rightarrow> int \<Rightarrow> int option option" where
  "find_peer config uuid i =
     (if nc_peer_count config \<le> i then Some None
      else case peer_at config i of
             None \<Rightarrow> None
           | Some p \<Rightarrow> if pi_uuid p = uuid then Some (Some i) else find_peer config uuid (i + 1))"
  by pat_completeness auto
termination
  by (relation "measure (\<lambda>(config, uuid, i). nat (nc_peer_count config - i))") auto

declare find_peer.simps [simp del]

definition add_peer_from_string :: "node_config \<Rightarrow> string \<Rightarrow> (int \<times> node_config) option" where
  "add_peer_from_string config peer_string =
     (case sscanf addneighbor_format peer_string of
        [AStr uuid, AStr host, AInt frontend_port, AInt backend_port, AInt weight] \<Rightarrow>
          if int MAX_PEERS \<le> nc_peer_count config then Some (-1, config)
          else do {
            found \<leftarrow> find_peer config uuid 0;
            case found of
              Some _ \<Rightarrow> Some (-2, config)
            | None \<Rightarrow> do {
                _ \<leftarrow> peer_at config (nc_peer_count config);
                let peer = zero_peer\<lparr>pi_uuid := uuid, pi_host := host,
                  pi_frontend_port := frontend_port, pi_backend_port := backend_port,
                  pi_weight := weight\<rparr>;
                Some (0, (set_peer config (nc_peer_count config) peer)
                  \<lparr>nc_peer_count := nc_peer_count config + 1\<rparr>) } }
      | _ \<Rightarrow> Some (-1, config))"

definition find_peer_weight :: "node_config \<Rightarrow> string \<Rightarrow> int option" where
  "find_peer_weight config uuid = do {
     found \<leftarrow> find_peer config uuid 0;
     case found of
       None \<Rightarrow> Some (-1)
     | Some i \<Rightarrow> map_option pi_weight (peer_at config i) }"

subsection \<open>Well-formed configurations\<close>

text \<open>
  The invariant of a \<open>node_config\<close>: strings are C strings that fit their arrays, the numbers
  are values of \<open>int\<close>, and \<open>peer_count\<close> counts elements of \<open>peers\<close>.
\<close>

definition field_ok :: "nat \<Rightarrow> string \<Rightarrow> bool" where
  "field_ok n s \<longleftrightarrow> cstring s \<and> length s < n"

definition peer_ok :: "peer_info \<Rightarrow> bool" where
  "peer_ok p \<longleftrightarrow> field_ok UUID_SIZE (pi_uuid p) \<and> field_ok UUID_SIZE (pi_last_seen p) \<and>
     field_ok NAME_SIZE (pi_name p) \<and> field_ok NAME_SIZE (pi_host p) \<and>
     is_i32 (pi_frontend_port p) \<and> is_i32 (pi_backend_port p) \<and> is_i32 (pi_weight p)"

definition config_ok :: "node_config \<Rightarrow> bool" where
  "config_ok c \<longleftrightarrow> field_ok UUID_SIZE (nc_uuid c) \<and> field_ok UUID_SIZE (nc_last_seen c) \<and>
     field_ok NAME_SIZE (nc_name c) \<and> field_ok NAME_SIZE (nc_host c) \<and>
     field_ok NAME_SIZE (nc_content_dir c) \<and>
     is_i32 (nc_frontend_port c) \<and> is_i32 (nc_backend_port c) \<and> is_i32 (nc_weight c) \<and>
     length (nc_peers c) = MAX_PEERS \<and> (\<forall>p\<in>set (nc_peers c). peer_ok p) \<and>
     0 \<le> nc_peer_count c \<and> nc_peer_count c \<le> int MAX_PEERS"

definition live_peers :: "node_config \<Rightarrow> peer_info list" where
  "live_peers c = take (nat (nc_peer_count c)) (nc_peers c)"

abbreviation peer_uuids :: "node_config \<Rightarrow> string list" where
  "peer_uuids c \<equiv> map pi_uuid (live_peers c)"

lemma zero_peer_ok [simp]: "peer_ok zero_peer"
  by (simp add: peer_ok_def zero_peer_def field_ok_def is_i32_def INT_MAX_def INT_MIN_def)

lemma global_config_init_ok: "config_ok global_config_init"
  using zero_peer_ok
  by (auto simp: config_ok_def global_config_init_def peer_ok_def field_ok_def MAX_PEERS_def
      is_i32_def INT_MAX_def INT_MIN_def)

lemma config_okD:
  assumes "config_ok c"
  shows "length (nc_peers c) = MAX_PEERS" "0 \<le> nc_peer_count c" "nc_peer_count c \<le> int MAX_PEERS"
    "\<And>p. p \<in> set (nc_peers c) \<Longrightarrow> peer_ok p"
  using assms by (auto simp: config_ok_def)

lemma peer_at_ok: "config_ok c \<Longrightarrow> 0 \<le> i \<Longrightarrow> i < int MAX_PEERS \<Longrightarrow> peer_at c i = Some (nc_peers c ! nat i)"
  by (simp add: peer_at_def config_ok_def)

lemma set_peer_ok: "config_ok c \<Longrightarrow> peer_ok p \<Longrightarrow> config_ok (set_peer c i p)"
  by (auto simp: config_ok_def set_peer_def dest!: subsetD [OF set_update_subset_insert])

lemma length_live_peers: "config_ok c \<Longrightarrow> length (live_peers c) = nat (nc_peer_count c)"
  using config_okD(1,3) [of c] by (simp add: live_peers_def)

lemma live_peers_nth:
  "0 \<le> i \<Longrightarrow> i < nc_peer_count c \<Longrightarrow> live_peers c ! nat i = nc_peers c ! nat i"
  by (simp add: live_peers_def)

lemma find_peer_find:
  assumes "config_ok c" "0 \<le> i"
  shows "\<exists>r. find_peer c u i = Some r \<and>
    map_option (\<lambda>j. nc_peers c ! nat j) r = List.find (\<lambda>p. pi_uuid p = u) (drop (nat i) (live_peers c)) \<and>
    (\<forall>j. r = Some j \<longrightarrow> i \<le> j \<and> j < nc_peer_count c)"
  using assms
proof (induction c u i rule: find_peer.induct)
  case (1 c u i)
  note len = length_live_peers [OF 1(2)]
  show ?case
  proof (cases "nc_peer_count c \<le> i")
    case True
    then show ?thesis using len by (simp add: find_peer.simps [of c])
  next
    case False
    then have i: "nat i < length (live_peers c)" using 1(3) len by auto
    have at: "peer_at c i = Some (nc_peers c ! nat i)"
      using False 1(3) config_okD(3) [OF 1(2)] by (intro peer_at_ok 1(2)) auto
    have dr: "drop (nat i) (live_peers c) = nc_peers c ! nat i # drop (nat (i + 1)) (live_peers c)"
      using False 1(3) i by (simp add: Cons_nth_drop_Suc [symmetric] live_peers_nth nat_add_distrib)
    show ?thesis
    proof (cases "pi_uuid (nc_peers c ! nat i) = u")
      case True
      with False at dr show ?thesis by (simp add: find_peer.simps [of c])
    next
      case ne: False
      have "find_peer c u i = find_peer c u (i + 1)"
        using False at ne by (simp add: find_peer.simps [of c _ i])
      with 1(1) [OF False at ne 1(2)] 1(3) dr ne show ?thesis by fastforce
    qed
  qed
qed

text \<open>
  The weight of a neighbour is the weight of the first entry with that uuid among the
  first \<open>peer_count\<close> peers, and -1 when no entry has it.
\<close>

theorem find_peer_weight_spec:
  assumes "config_ok c"
  shows "find_peer_weight c u =
    Some (case List.find (\<lambda>p. pi_uuid p = u) (live_peers c) of None \<Rightarrow> - 1 | Some p \<Rightarrow> pi_weight p)"
proof -
  obtain r where r: "find_peer c u 0 = Some r"
    "map_option (\<lambda>j. nc_peers c ! nat j) r = List.find (\<lambda>p. pi_uuid p = u) (live_peers c)"
    "\<forall>j. r = Some j \<longrightarrow> 0 \<le> j \<and> j < nc_peer_count c"
    using find_peer_find [OF assms, of 0 u] by auto
  show ?thesis
  proof (cases r)
    case None
    with r show ?thesis by (simp add: find_peer_weight_def)
  next
    case (Some j)
    with r(3) have "peer_at c j = Some (nc_peers c ! nat j)"
      using config_okD(3) [OF assms] by (intro peer_at_ok assms) auto
    with r(1) Some r(2) [symmetric] show ?thesis by (simp add: find_peer_weight_def)
  qed
qed

lemma find_peer_weight_spec_witness:
  "find_peer_weight global_config_init ''x'' = Some (- 1)"
  using find_peer_weight_spec [OF global_config_init_ok, of "''x''"]
  by (simp add: live_peers_def global_config_init_def)

subsection \<open>Adding a neighbour\<close>

lemma addneighbor_args:
  assumes "cstring s" "sscanf addneighbor_format s = [AStr u, AStr h, AInt f, AInt b, AInt w]"
  shows "cstring u \<and> length u \<le> 36 \<and> cstring h \<and> length h \<le> 255 \<and> is_i32 f \<and> is_i32 b \<and> is_i32 w"
  using sscanf_args [OF assms(1), of addneighbor_format] assms(2)
  by (simp add: addneighbor_format_def)

lemma live_peers_append:
  assumes "config_ok c" "nc_peer_count c < int MAX_PEERS"
  shows "live_peers ((set_peer c (nc_peer_count c) p)\<lparr>nc_peer_count := nc_peer_count c + 1\<rparr>) =
    live_peers c @ [p]"
  using assms config_okD(1,2) [OF assms(1)]
  by (auto simp: live_peers_def set_peer_def nat_add_distrib take_Suc_conv_app_nth)

lemma add_peer_from_string_step:
  assumes "config_ok c" "distinct (peer_uuids c)" "cstring s"
  shows "\<exists>r c'. add_peer_from_string c s = Some (r, c') \<and> config_ok c' \<and> distinct (peer_uuids c') \<and>
    (r = 0 \<and> (\<exists>p. live_peers c' = live_peers c @ [p]) \<or> r \<in> {- 1, - 2} \<and> c' = c)"
proof (cases "\<exists>u h f b w. sscanf addneighbor_format s = [AStr u, AStr h, AInt f, AInt b, AInt w]")
  case False
  then have "add_peer_from_string c s = Some (- 1, c)"
    by (auto simp: add_peer_from_string_def split: list.split sarg.split)
  with assms show ?thesis by simp
next
  case True
  then obtain u h f b w where
    args: "sscanf addneighbor_format s = [AStr u, AStr h, AInt f, AInt b, AInt w]" by blast
  note fields = addneighbor_args [OF assms(3) args]
  define p where "p = zero_peer\<lparr>pi_uuid := u, pi_host := h, pi_frontend_port := f,
    pi_backend_port := b, pi_weight := w\<rparr>"
  obtain r where r: "find_peer c u 0 = Some r"
    "map_option (\<lambda>j. nc_peers c ! nat j) r = List.find (\<lambda>p. pi_uuid p = u) (live_peers c)"
    using find_peer_find [OF assms(1), of 0 u] by auto
  show ?thesis
  proof (cases "int MAX_PEERS \<le> nc_peer_count c \<or> r \<noteq> None")
    case True
    with args r(1) have "\<exists>q \<in> {- 1, - 2}. add_peer_from_string c s = Some (q, c)"
      by (auto simp: add_peer_from_string_def)
    with assms show ?thesis by auto
  next
    case False
    let ?c = "(set_peer c (nc_peer_count c) p)\<lparr>nc_peer_count := nc_peer_count c + 1\<rparr>"
    have "peer_at c (nc_peer_count c) \<noteq> None"
      using False peer_at_ok [OF assms(1) config_okD(2) [OF assms(1)]] by simp
    with args r(1) False have "add_peer_from_string c s = Some (0, ?c)"
      by (auto simp: add_peer_from_string_def p_def bind_Some_iff)
    moreover have live: "live_peers ?c = live_peers c @ [p]"
      using False by (intro live_peers_append assms(1)) simp
    moreover have "peer_ok p"
      using fields zero_peer_ok by (simp add: p_def peer_ok_def field_ok_def)
    then have "config_ok ?c"
      using set_peer_ok [OF assms(1), of p "nc_peer_count c"] False
      by (simp add: config_ok_def set_peer_def)
    moreover have "u \<notin> set (peer_uuids c)"
    proof -
      have "List.find (\<lambda>p. pi_uuid p = u) (live_peers c) = None" using r(2) False by auto
      then show ?thesis by (auto simp: find_None_iff)
    qed
    then have "distinct (peer_uuids ?c)" using assms(2) live by (simp add: p_def)
    ultimately show ?thesis by blast
  qed
qed

text \<open>
  C19. Adding a neighbour from a request string never runs into undefined behaviour on a
  well-formed configuration, keeps it well-formed and its uuids distinct, and either appends
  exactly one new peer (result 0) or changes nothing (results -1 and -2).
\<close>

theorem add_peer_from_string_invariant:
  assumes "config_ok c" "distinct (peer_uuids c)" "cstring s"
  shows "\<exists>r c'. add_peer_from_string c s = Some (r, c') \<and> config_ok c' \<and> distinct (peer_uuids c') \<and>
    (r = 0 \<and> (\<exists>p. live_peers c' = live_peers c @ [p]) \<or> r \<in> {- 1, - 2} \<and> c' = c)"
  using assms by (rule add_peer_from_string_step)

lemma add_peer_from_string_invariant_witness:
  "\<exists>r c'. add_peer_from_string global_config_init ''/peer/addneighbor?uuid=x'' = Some (r, c') \<and>
    config_ok c'"
  using add_peer_from_string_invariant [OF global_config_init_ok, of "''/peer/addneighbor?uuid=x''"]
  by (auto simp: live_peers_def global_config_init_def [THEN arg_cong [of _ _ nc_peer_count]])

text \<open>The request string of a peer, as a client writes it.\<close>

definition peer_query :: "string \<Rightarrow> string \<Rightarrow> int \<Rightarrow> int \<Rightarrow> int \<Rightarrow> string" where
  "peer_query u h f b w =
     ''/peer/addneighbor?uuid='' @ u @ ''&host='' @ h @ ''&frontend='' @ show_int f @
     ''&backend='' @ show_int b @ ''&metric='' @ show_int w"

definition query_field :: "nat \<Rightarrow> string \<Rightarrow> bool" where
  "query_field n s \<longleftrightarrow> s \<noteq> [] \<and> length s \<le> n \<and> CHR ''&'' \<notin> set s"

lemma no_space_lits:
  "\<forall>c\<in>set ''/peer/addneighbor?uuid=''. \<not> isspace c" "\<forall>c\<in>set ''&host=''. \<not> isspace c"
  "\<forall>c\<in>set ''&frontend=''. \<not> isspace c" "\<forall>c\<in>set ''&backend=''. \<not> isspace c"
  "\<forall>c\<in>set ''&metric=''. \<not> isspace c"
  by (simp_all add: isspace_def uchar_def)

lemma addneighbor_scan:
  assumes "query_field 36 u" "query_field 255 h" "is_i32 f" "is_i32 b" "is_i32 w"
  shows "sscanf addneighbor_format (peer_query u h f b w) =
    [AStr u, AStr h, AInt f, AInt b, AInt w]"
proof -
  let ?m = "''&metric='' @ show_int w"
  let ?b = "''&backend='' @ show_int b @ ?m"
  let ?f = "''&frontend='' @ show_int f @ ?b"
  let ?h = "''&host='' @ h @ ?f"
  have nd: "no_digit ?m" "no_digit ?b" "no_digit []"
    by (simp_all add: no_digit_def isdigit_def uchar_def)
  have u: "sscanf (ConvSet (\<lambda>c. c \<noteq> CHR ''&'') (Some 36) # g) (u @ ?h) = AStr u # sscanf g ?h" for g
    using sscanf_set_stop [of u "\<lambda>c. c \<noteq> CHR ''&''" "CHR ''&''" 36 g "tl ?h"] assms(1)
    by (auto simp: query_field_def)
  have h: "sscanf (ConvSet (\<lambda>c. c \<noteq> CHR ''&'') (Some 255) # g) (h @ ?f) = AStr h # sscanf g ?f" for g
    using sscanf_set_stop [of h "\<lambda>c. c \<noteq> CHR ''&''" "CHR ''&''" 255 g "tl ?f"] assms(2)
    by (auto simp: query_field_def)
  note lit = no_space_lits [THEN sscanf_lits]
  have single: "[x] @ xs = x # xs" for x :: conv and xs by simp
  have w: "sscanf [ConvInt] (show_int w) = [AInt w]"
    using sscanf_int_show [OF nd(3) assms(5), of "[]"] by simp
  show ?thesis
    unfolding addneighbor_format_def peer_query_def
    by (simp only: single lit u h w
        sscanf_int_show [OF nd(1) assms(4)] sscanf_int_show [OF nd(2) assms(3)])
qed

text \<open>
  A well-formed request string adds exactly the peer it names behind the present ones,
  unless the table is full (-1) or holds a peer with that uuid (-2).
\<close>

theorem add_peer_from_query:
  assumes "config_ok c" "query_field 36 u" "query_field 255 h" "is_i32 f" "is_i32 b" "is_i32 w"
  shows "add_peer_from_string c (peer_query u h f b w) =
    Some (if nc_peer_count c = int MAX_PEERS then (- 1, c)
          else if u \<in> set (peer_uuids c) then (- 2, c)
          else (0, c\<lparr>nc_peers := (nc_peers c)[nat (nc_peer_count c) :=
              \<lparr>pi_uuid = u, pi_last_seen = [], pi_name = [], pi_host = h, pi_frontend_port = f,
               pi_backend_port = b, pi_weight = w, pi_is_online = False\<rparr>],
            nc_peer_count := nc_peer_count c + 1\<rparr>))"
proof -
  note args = addneighbor_scan [OF assms(2-6)]
  obtain r where r: "find_peer c u 0 = Some r"
    "map_option (\<lambda>j. nc_peers c ! nat j) r = List.find (\<lambda>p. pi_uuid p = u) (live_peers c)"
    using find_peer_find [OF assms(1), of 0 u] by auto
  have mem: "u \<in> set (peer_uuids c) \<longleftrightarrow> r \<noteq> None"
  proof -
    have "u \<in> set (peer_uuids c) \<longleftrightarrow> List.find (\<lambda>p. pi_uuid p = u) (live_peers c) \<noteq> None"
      by (auto simp: find_None_iff)
    with r(2) show ?thesis by (metis map_option_is_None)
  qed
  consider "nc_peer_count c = int MAX_PEERS" | "nc_peer_count c < int MAX_PEERS" "r \<noteq> None"
    | "nc_peer_count c < int MAX_PEERS" "r = None"
    using config_okD(3) [OF assms(1)] by fastforce
  then show ?thesis
  proof cases
    case 3
    then have "peer_at c (nc_peer_count c) \<noteq> None"
      using peer_at_ok [OF assms(1) config_okD(2) [OF assms(1)]] by simp
    with 3 args r(1) mem show ?thesis
      by (auto simp: add_peer_from_string_def set_peer_def zero_peer_def bind_Some_iff)
  qed (use args r(1) mem in \<open>auto simp: add_peer_from_string_def\<close>)
qed

lemma add_peer_from_query_witness:
  "\<exists>c'. add_peer_from_string global_config_init (peer_query ''n1'' ''localhost'' 8345 8346 10) =
    Some (0, c') \<and> nc_peer_count c' = 1"
proof -
  have f: "query_field 36 ''n1''" "query_field 255 ''localhost''"
    "is_i32 8345" "is_i32 8346" "is_i32 10"
    by (simp_all add: query_field_def is_i32_def INT_MAX_def INT_MIN_def)
  have "nc_peer_count global_config_init = 0" "live_peers global_config_init = []"
    by (simp_all add: global_config_init_def live_peers_def)
  then show ?thesis
    using add_peer_from_query [OF global_config_init_ok f] by (simp add: MAX_PEERS_def)
qed

subsection \<open>Looking up a value of a peer\<close>

definition peer_key :: "int \<Rightarrow> string \<Rightarrow> string" where
  "peer_key i field = ''peers['' @ show_int i @ ''].'' @ field"

text \<open>
  \<open>get_config_value_by_key\<close> cannot return any field of a peer but its weight: for an
  existing index the keys of the other five fields give \<open>NULL\<close> or read before the string.
\<close>

theorem peer_fields_unreachable:
  assumes "field \<in> {''uuid'', ''name'', ''host'', ''frontend_port'', ''backend_port''}" "is_i32 i"
  shows "\<forall>v. get_config_value_by_key c (peer_key i field) \<noteq> Some (Some v)"
proof -
  let ?k = "peer_key i field"
  have tail: "tail_from ?k n = Some t \<Longrightarrow> length t = n" for n t
    by (auto simp: tail_from_def split: if_splits)
  have last: "tail_from ?k 6 \<noteq> Some ''weight''"
  proof
    assume "tail_from ?k 6 = Some ''weight''"
    then have "suffix ''weight'' ?k" by (metis option.inject option.simps(3) suffix_drop tail_from_def)
    then show False using assms(1) by (auto simp: peer_key_def suffix_def append_eq_append_conv2)
  qed
  have other: "?k \<noteq> ''uuid''" "?k \<noteq> ''name''" "?k \<noteq> ''frontend_port''" "?k \<noteq> ''backend_port''"
    "?k \<noteq> ''content_dir''" "?k \<noteq> ''peer_count''"
    by (simp_all add: peer_key_def)
  show ?thesis
    using last
    by (auto simp: get_config_value_by_key_def other Let_def bind_Some_iff split: if_splits
        dest!: tail)
qed

lemma peer_fields_unreachable_witness:
  "\<forall>v. get_config_value_by_key global_config_init (peer_key 0 ''host'') \<noteq> Some (Some v)"
  by (rule peer_fields_unreachable) (simp_all add: is_i32_def INT_MAX_def INT_MIN_def)

subsection \<open>Reading a configuration file\<close>

text \<open>The text of a file of \<open>key = value\<close> lines, and the lines the reader accepts.\<close>

definition conf_line :: "string \<times> string \<Rightarrow> string" where
  "conf_line e = fst e @ '' = '' @ snd e"

definition conf_text :: "(string \<times> string) list \<Rightarrow> string" where
  "conf_text es = concat (map (\<lambda>e. conf_line e @ [LF]) es)"

definition value_ok :: "string \<Rightarrow> bool" where
  "value_ok v \<longleftrightarrow> v \<noteq> [] \<and> \<not> isspace (hd v) \<and> LF \<notin> set v \<and> length v < VALUE_BUF_SIZE"

definition key_ok :: "string \<Rightarrow> bool" where
  "key_ok k \<longleftrightarrow> k \<noteq> [] \<and> hd k \<noteq> CHR ''#'' \<and> set k \<inter> {CHR '' '', CHR ''='', LF} = {} \<and>
     length k < KEY_BUF_SIZE"

lemma fgets_line_LF:
  "LF \<notin> set l \<Longrightarrow> length l < n \<Longrightarrow> fgets_line n (l @ LF # r) = (l @ [LF], r)"
proof (induction l arbitrary: n)
  case Nil
  then show ?case by (cases n) auto
next
  case (Cons c l)
  then show ?case by (cases n) auto
qed

lemma fgets_lines_LF:
  "LF \<notin> set l \<Longrightarrow> Suc (length l) < n \<Longrightarrow>
    fgets_lines n (l @ LF # r) = (l @ [LF]) # fgets_lines n r"
  by (simp add: fgets_lines.simps [of n "l @ LF # r"] fgets_line_LF)

lemma fgets_lines_conf:
  "\<forall>e\<in>set es. key_ok (fst e) \<and> value_ok (snd e) \<Longrightarrow>
    fgets_lines LINE_BUF_SIZE (conf_text es) = map (\<lambda>e. conf_line e @ [LF]) es"
proof (induction es)
  case Nil
  then show ?case by (simp add: conf_text_def fgets_lines.simps)
next
  case (Cons e es)
  then have "LF \<notin> set (conf_line e)" "Suc (length (conf_line e)) < LINE_BUF_SIZE"
    by (auto simp: conf_line_def key_ok_def value_ok_def LINE_BUF_SIZE_def KEY_BUF_SIZE_def
        VALUE_BUF_SIZE_def)
  with Cons show ?case by (simp add: conf_text_def fgets_lines_LF)
qed

lemma sscanf_set_stop_None:
  assumes "t \<noteq> []" "\<forall>c\<in>set t. p c" "\<not> p c"
  shows "sscanf (ConvSet p None # f) (t @ c # s) = AStr t # sscanf f (c # s)"
  using assms by (simp add: set_token_def takeWhile_stop)

lemma scan_conf_line:
  assumes "key_ok k" "value_ok v"
  shows "sscanf config_line_format (conf_line (k, v) @ [LF]) = [AStr k, AStr v]"
proof -
  let ?key = "\<lambda>c. c \<noteq> CHR ''='' \<and> c \<noteq> CHR '' ''"
  have k: "sscanf (ConvSet ?key None # f) (k @ CHR '' '' # s) = AStr k # sscanf f (CHR '' '' # s)"
    for f s using assms(1) by (intro sscanf_set_stop_None) (auto simp: key_ok_def)
  have v: "sscanf [ConvSet (\<lambda>c. c \<noteq> LF) None] (v @ [LF]) = [AStr v]"
    using assms(2) sscanf_set_stop_None [of v "\<lambda>c. c \<noteq> LF" LF "[]" "[]"]
    by (auto simp: value_ok_def)
  have sp: "isspace (CHR '' '')" "\<not> isspace (CHR ''='')" by (simp_all add: isspace_def uchar_def)
  have vs: "dropWhile isspace (v @ [LF]) = v @ [LF]"
    using assms(2) by (cases v) (auto simp: value_ok_def)
  show ?thesis
    unfolding config_line_format_def conf_line_def
    by (simp only: fst_conv snd_conv append_assoc append_Cons append_Nil k)
      (simp only: sscanf.simps(2,3) dropWhile.simps sp if_True if_False list.case refl vs v)
qed

lemma read_config_step:
  assumes "key_ok k" "value_ok v"
  shows "read_config_lines b c ((conf_line (k, v) @ [LF]) # ls) =
    (case read_config_entry b c k v of
       None \<Rightarrow> None
     | Some (Some r, config', _) \<Rightarrow> Some (Ret r, config')
     | Some (None, config', peers_set') \<Rightarrow> read_config_lines peers_set' config' ls)"
proof -
  obtain a t where k: "k = a # t" "a \<noteq> CHR ''#''" "a \<noteq> LF"
    using assms(1) by (cases k) (auto simp: key_ok_def)
  then have "take 1 (conf_line (k, v) @ [LF]) = [a]" by (simp add: conf_line_def)
  with k scan_conf_line [OF assms(1,2)] assms show ?thesis
    by (simp add: key_ok_def value_ok_def)
qed

text \<open>The line of a peer, and what reading it makes of the entry.\<close>

definition conf_peer :: "peer_info \<Rightarrow> string" where
  "conf_peer p = pi_uuid p @ '','' @ pi_host p @ '','' @ show_int (pi_frontend_port p) @ '','' @
     show_int (pi_backend_port p) @ '','' @ show_int (pi_weight p)"

definition conf_peer_ok :: "peer_info \<Rightarrow> bool" where
  "conf_peer_ok p \<longleftrightarrow> pi_uuid p \<noteq> [] \<and> length (pi_uuid p) < UUID_SIZE \<and> pi_host p \<noteq> [] \<and>
     length (pi_host p) < NAME_SIZE \<and> CHR '','' \<notin> set (pi_uuid p) \<and> CHR '','' \<notin> set (pi_host p) \<and>
     is_i32 (pi_frontend_port p) \<and> is_i32 (pi_backend_port p) \<and> is_i32 (pi_weight p) \<and>
     value_ok (conf_peer p)"

definition named_peer :: "nat \<Rightarrow> peer_info \<Rightarrow> peer_info \<Rightarrow> peer_info" where
  "named_peer i old p = old\<lparr>pi_uuid := pi_uuid p, pi_host := pi_host p,
     pi_frontend_port := pi_frontend_port p, pi_backend_port := pi_backend_port p,
     pi_weight := pi_weight p, pi_name := ''Peer '' @ show_nat i\<rparr>"

definition peer_entry :: "nat \<Rightarrow> peer_info \<Rightarrow> string \<times> string" where
  "peer_entry i p = (''peer_'' @ show_nat i, conf_peer p)"

lemma scan_conf_peer:
  assumes "conf_peer_ok p"
  shows "sscanf config_peer_format (conf_peer p) =
    [AStr (pi_uuid p), AStr (pi_host p), AInt (pi_frontend_port p), AInt (pi_backend_port p),
     AInt (pi_weight p)]"
proof -
  let ?set = "\<lambda>c. c \<noteq> CHR '',''"
  have s: "sscanf (ConvSet ?set None # f) (t @ CHR '','' # r) = AStr t # sscanf f (CHR '','' # r)"
    if "t \<noteq> []" "CHR '','' \<notin> set t" for t f r
    using that by (intro sscanf_set_stop_None) auto
  have nd: "no_digit (CHR '','' # r)" "no_digit []" for r
    by (simp_all add: no_digit_def isdigit_def uchar_def)
  have w: "sscanf [ConvInt] (show_int (pi_weight p)) = [AInt (pi_weight p)]"
    using sscanf_int_show [OF nd(2), of "pi_weight p" "[]"] assms by (simp add: conf_peer_ok_def)
  show ?thesis
    using assms
    unfolding config_peer_format_def conf_peer_def conf_peer_ok_def
    by (simp add: s sscanf_int_show nd w del: sscanf.simps(4,5))
qed

lemma show_int_nat [simp]: "show_int (int n) = show_nat n"
  by (simp add: show_int_def)

lemma read_peer_entry:
  assumes "conf_peer_ok p" "config_ok c" "int i < nc_peer_count c"
  shows "read_config_entry True c (fst (peer_entry i p)) (snd (peer_entry i p)) =
    Some (None, set_peer c (int i) (named_peer i (nc_peers c ! i) p), True)"
proof -
  have i: "is_i32 (int i)" "int i < int MAX_PEERS"
    using assms(3) config_okD(3) [OF assms(2)]
    by (auto simp: is_i32_def INT_MAX_def INT_MIN_def MAX_PEERS_def)
  have num: "atoi (show_nat i) = int i" using atoi_show_int [OF i(1)] by simp
  have at: "peer_at c (int i) = Some (nc_peers c ! i)"
    using peer_at_ok [OF assms(2), of "int i"] i(2) by simp
  have "show_nat i \<noteq> ''count''"
    using show_nat_hd [of i] by (auto simp: isdigit_def uchar_def)
  with assms(1,3) at show ?thesis
    by (simp add: read_config_entry_def peer_entry_def num scan_conf_peer Let_def conf_peer_ok_def
        named_peer_def)
qed

fun read_peers :: "nat \<Rightarrow> peer_info list \<Rightarrow> node_config \<Rightarrow> node_config" where
  "read_peers i [] c = c"
| "read_peers i (p # ps) c =
     read_peers (Suc i) ps (set_peer c (int i) (named_peer i (nc_peers c ! i) p))"

fun peer_entries :: "nat \<Rightarrow> peer_info list \<Rightarrow> (string \<times> string) list" where
  "peer_entries i [] = []"
| "peer_entries i (p # ps) = peer_entry i p # peer_entries (Suc i) ps"

lemma length_show_small: "i < MAX_PEERS \<Longrightarrow> length (show_nat i) \<le> 2"
  by (auto simp: MAX_PEERS_def show_nat.simps [of i] show_nat.simps [of "i div 10"])

lemma key_ok_peer: "i < MAX_PEERS \<Longrightarrow> key_ok (''peer_'' @ show_nat i)"
proof -
  assume "i < MAX_PEERS"
  moreover have "set (show_nat i) \<inter> {CHR '' '', CHR ''='', LF} = {}"
    by (auto simp: isdigit_def uchar_def dest: show_nat_digits)
  ultimately show ?thesis
    using length_show_small [of i] by (auto simp: key_ok_def KEY_BUF_SIZE_def)
qed

lemma named_peer_ok:
  "peer_ok q \<Longrightarrow> conf_peer_ok p \<Longrightarrow> cstring (pi_uuid p) \<Longrightarrow> cstring (pi_host p) \<Longrightarrow> i < MAX_PEERS \<Longrightarrow>
    peer_ok (named_peer i q p)"
  using length_show_small [of i]
  by (simp add: peer_ok_def conf_peer_ok_def named_peer_def field_ok_def)

lemma read_peer_lines:
  assumes "\<forall>p\<in>set ps. conf_peer_ok p \<and> cstring (pi_uuid p) \<and> cstring (pi_host p)"
    and "config_ok c" "int i + int (length ps) \<le> nc_peer_count c"
  shows "read_config_lines True c (map (\<lambda>e. conf_line e @ [LF]) (peer_entries i ps)) =
    Some (NoReturn, read_peers i ps c)"
  using assms
proof (induction ps arbitrary: i c)
  case (Cons p ps)
  let ?c = "set_peer c (int i) (named_peer i (nc_peers c ! i) p)"
  have i: "int i < nc_peer_count c" "i < MAX_PEERS"
    using Cons.prems(3) config_okD(3) [OF Cons.prems(2)] by auto
  then have "peer_ok (nc_peers c ! i)" using Cons.prems(2) by (auto simp: config_ok_def)
  then have ok: "config_ok ?c"
    using Cons.prems i by (intro set_peer_ok named_peer_ok) auto
  have "read_config_lines True c (map (\<lambda>e. conf_line e @ [LF]) (peer_entries i (p # ps))) =
      read_config_lines True ?c (map (\<lambda>e. conf_line e @ [LF]) (peer_entries (Suc i) ps))"
    using Cons.prems i read_peer_entry [of p c i] key_ok_peer [OF i(2)]
    by (simp add: peer_entry_def read_config_step conf_peer_ok_def del: read_config_lines.simps)
  also have "\<dots> = Some (NoReturn, read_peers (Suc i) ps ?c)"
    using Cons.prems ok by (intro Cons.IH) (auto simp: set_peer_def)
  finally show ?case by simp
qed simp

lemma read_peers_nth:
  assumes "i + length ps \<le> length (nc_peers c)"
  shows "nc_peers (read_peers i ps c) ! k =
    (if i \<le> k \<and> k < i + length ps then named_peer k (nc_peers c ! k) (ps ! (k - i))
     else nc_peers c ! k)"
  using assms
proof (induction ps arbitrary: i c)
  case (Cons p ps)
  show ?case
    using Cons.prems by (auto simp: Cons.IH set_peer_def nth_Cons' nth_list_update not_le le_less_Suc_eq)
qed auto

lemma read_peers_more: "read_peers i ps c = c\<lparr>nc_peers := nc_peers (read_peers i ps c)\<rparr>"
proof (induction ps arbitrary: i c)
  case (Cons p ps)
  show ?case
    using Cons.IH [of "Suc i" "set_peer c (int i) (named_peer i (nc_peers c ! i) p)"]
    by (simp add: set_peer_def)
qed simp

lemma peer_entries_ok:
  "\<forall>p\<in>set ps. conf_peer_ok p \<Longrightarrow> i + length ps \<le> MAX_PEERS \<Longrightarrow>
    \<forall>e\<in>set (peer_entries i ps). key_ok (fst e) \<and> value_ok (snd e)"
proof (induction ps arbitrary: i)
  case (Cons p ps)
  have "value_ok (conf_peer p)" using Cons.prems(1) by (simp add: conf_peer_ok_def)
  then show ?case
    using Cons.IH [of "Suc i"] Cons.prems key_ok_peer [of i] by (simp add: peer_entry_def)
qed simp

text \<open>The entries of a file that names every field of a node and its peers.\<close>

definition conf_entries ::
  "string \<Rightarrow> string \<Rightarrow> int \<Rightarrow> int \<Rightarrow> string \<Rightarrow> peer_info list \<Rightarrow> (string \<times> string) list" where
  "conf_entries u n f b d ps =
     [(''uuid'', u), (''name'', n), (''frontend_port'', show_int f), (''backend_port'', show_int b),
      (''content_dir'', d), (''peer_count'', show_nat (length ps))] @ peer_entries 0 ps"

lemma value_ok_show_int: "is_i32 x \<Longrightarrow> value_ok (show_int x)"
proof -
  assume x: "is_i32 x"
  have "nat x < 10 ^ 10" "nat (- x) < 10 ^ 10"
    using x by (auto simp: is_i32_def INT_MAX_def INT_MIN_def)
  then have "length (show_nat (nat x)) \<le> 10" "length (show_nat (nat (- x))) \<le> 10"
    by (auto intro: length_show_nat)
  then have "length (show_int x) \<le> 11" by (simp add: show_int_def)
  moreover have "LF \<notin> set (show_int x)"
    by (auto simp: isdigit_def uchar_def dest: show_int_chars)
  moreover have "\<not> isspace (hd (show_int x))"
    using show_int_hd [of x] by (auto simp: isdigit_not_space isspace_def uchar_def isdigit_def)
  ultimately show ?thesis by (simp add: value_ok_def VALUE_BUF_SIZE_def)
qed

lemma key_ok_names:
  "key_ok ''uuid''" "key_ok ''name''" "key_ok ''frontend_port''" "key_ok ''backend_port''"
  "key_ok ''content_dir''" "key_ok ''peer_count''"
  by (simp_all add: key_ok_def KEY_BUF_SIZE_def)

text \<open>
  C20. A configuration file that names every field and lists the peers in order is read into
  exactly the fields and peers it names; the reader then ends without a return value.
\<close>

theorem read_config_file_text:
  assumes "config_ok c" "value_ok u" "field_ok UUID_SIZE u" "value_ok n" "field_ok NAME_SIZE n"
    and "value_ok d" "field_ok NAME_SIZE d" "is_i32 f" "is_i32 b" "length ps \<le> MAX_PEERS"
    and "\<forall>p\<in>set ps. conf_peer_ok p \<and> cstring (pi_uuid p) \<and> cstring (pi_host p)"
  shows "\<exists>qs. read_config_file (Some (conf_text (conf_entries u n f b d ps))) c =
      Some (NoReturn, c\<lparr>nc_uuid := u, nc_name := n, nc_frontend_port := f, nc_backend_port := b,
        nc_content_dir := d, nc_peer_count := int (length ps), nc_peers := qs\<rparr>) \<and>
    (\<forall>k < MAX_PEERS. qs ! k = (if k < length ps then named_peer k (nc_peers c ! k) (ps ! k)
      else nc_peers c ! k))"
proof -
  let ?c = "c\<lparr>nc_uuid := u, nc_name := n, nc_frontend_port := f, nc_backend_port := b,
    nc_content_dir := d, nc_peer_count := int (length ps)\<rparr>"
  have len: "is_i32 (int (length ps))"
    using assms(10) by (simp add: is_i32_def INT_MAX_def INT_MIN_def MAX_PEERS_def)
  have val: "value_ok (show_nat (length ps))" using value_ok_show_int [OF len] by simp
  have num: "atoi (show_nat (length ps)) = int (length ps)" using atoi_show_int [OF len] by simp
  have lines: "fgets_lines LINE_BUF_SIZE (conf_text (conf_entries u n f b d ps)) =
      map (\<lambda>e. conf_line e @ [LF]) (conf_entries u n f b d ps)"
    using assms key_ok_names val value_ok_show_int [OF assms(8)] value_ok_show_int [OF assms(9)]
      peer_entries_ok [of ps 0]
    by (intro fgets_lines_conf) (auto simp: conf_entries_def)
  have ok: "config_ok ?c" using assms by (simp add: config_ok_def)
  have "read_config_file (Some (conf_text (conf_entries u n f b d ps))) c =
      read_config_lines True ?c (map (\<lambda>e. conf_line e @ [LF]) (peer_entries 0 ps))"
    using assms key_ok_names val num value_ok_show_int [OF assms(8)] value_ok_show_int [OF assms(9)]
    by (simp add: read_config_file_def lines)
      (simp add: conf_entries_def read_config_step read_config_entry_def field_ok_def atoi_show_int
        strncpy_buf_def fits_def
        del: read_config_lines.simps)
  also have "\<dots> = Some (NoReturn, read_peers 0 ps ?c)"
    by (rule read_peer_lines [OF assms(11) ok]) simp
  finally have res: "read_config_file (Some (conf_text (conf_entries u n f b d ps))) c =
      Some (NoReturn, read_peers 0 ps ?c)" .
  have "length ps \<le> length (nc_peers ?c)" using assms(1,10) by (simp add: config_ok_def)
  then have "nc_peers (read_peers 0 ps ?c) ! k =
      (if k < length ps then named_peer k (nc_peers c ! k) (ps ! k) else nc_peers c ! k)" for k
    by (simp add: read_peers_nth)
  with res read_peers_more [of 0 ps ?c] show ?thesis by (metis node_config.update_convs(13))
qed

lemma read_config_file_text_witness:
  "\<exists>c'. read_config_file (Some (conf_text (conf_entries ''id'' ''node1'' 8345 8346 ''content/''
      [zero_peer\<lparr>pi_uuid := ''x'', pi_host := ''h''\<rparr>]))) global_config_init = Some (NoReturn, c') \<and>
    nc_name c' = ''node1'' \<and> nc_peer_count c' = 1"
proof -
  let ?p = "zero_peer\<lparr>pi_uuid := ''x'', pi_host := ''h''\<rparr>"
  have "length (show_nat 0) \<le> 2" by (simp add: show_nat.simps [of 0])
  then have v: "value_ok (conf_peer ?p)"
    by (auto simp: value_ok_def conf_peer_def zero_peer_def VALUE_BUF_SIZE_def show_int_def
        isspace_def uchar_def isdigit_def dest: show_nat_digits)
  have n: "value_ok ''id''" "field_ok UUID_SIZE ''id''" "value_ok ''node1''" "field_ok NAME_SIZE ''node1''"
    "value_ok ''content/''" "field_ok NAME_SIZE ''content/''" "is_i32 8345" "is_i32 8346"
    by (simp_all add: value_ok_def field_ok_def isspace_def uchar_def VALUE_BUF_SIZE_def is_i32_def
        INT_MAX_def INT_MIN_def)
  have "\<forall>p\<in>set [?p]. conf_peer_ok p \<and> cstring (pi_uuid p) \<and> cstring (pi_host p)"
    using v by (simp add: conf_peer_ok_def zero_peer_def is_i32_def INT_MAX_def INT_MIN_def)
  from read_config_file_text [OF global_config_init_ok n _ this] show ?thesis
    by (auto simp: MAX_PEERS_def)
qed

end
