(* ===== verification/Json.thy ===== *)
theory Json
  imports CString Complex_Main "HOL-Library.Log_Nat"
begin

text \<open>
  The part of \<open>lib/cJSON/cJSON.c\<close> that the program uses: JSON values, building and reading
  them, printing (\<open>cJSON_Print\<close>, \<open>cJSON_PrintUnformatted\<close>) and parsing (\<open>cJSON_Parse\<close>).
  A value is a tree; the children of an object keep their order and may repeat a key. The
  \<open>valuedouble\<close> of a number is the rational it stands for; \<open>valueint\<close> is computed from it.
  Memory allocation succeeds.
\<close>

datatype cJSON =
    JNull | JFalse | JTrue
  | JNumber rat
  | JString string
  | JArray "cJSON list"
  | JObject "(string \<times> cJSON) list"

subsection \<open>Building\<close>

definition cJSON_CreateObject :: cJSON where
  "cJSON_CreateObject = JObject []"

definition cJSON_CreateArray :: cJSON where
  "cJSON_CreateArray = JArray []"

definition cJSON_CreateString :: "string \<Rightarrow> cJSON" where
  "cJSON_CreateString s = JString s"

definition cJSON_CreateNumber :: "int \<Rightarrow> cJSON" where
  "cJSON_CreateNumber n = JNumber (of_int n)"

definition cJSON_CreateBool :: "bool \<Rightarrow> cJSON" where
  "cJSON_CreateBool b = (if b then JTrue else JFalse)"

definition cJSON_CreateStringArray :: "string list \<Rightarrow> cJSON" where
  "cJSON_CreateStringArray ss = JArray (map JString ss)"

text \<open>An item is appended to the children; the program adds only to objects and arrays.\<close>

fun cJSON_AddItemToObject :: "cJSON \<Rightarrow> string \<Rightarrow> cJSON \<Rightarrow> cJSON" where
  "cJSON_AddItemToObject (JObject ms) k v = JObject (ms @ [(k, v)])"
| "cJSON_AddItemToObject j k v = j"

fun cJSON_AddItemToArray :: "cJSON \<Rightarrow> cJSON \<Rightarrow> cJSON" where
  "cJSON_AddItemToArray (JArray vs) v = JArray (vs @ [v])"
| "cJSON_AddItemToArray j v = j"

definition cJSON_AddStringToObject :: "cJSON \<Rightarrow> string \<Rightarrow> string \<Rightarrow> cJSON" where
  "cJSON_AddStringToObject j k s = cJSON_AddItemToObject j k (cJSON_CreateString s)"

definition cJSON_AddNumberToObject :: "cJSON \<Rightarrow> string \<Rightarrow> int \<Rightarrow> cJSON" where
  "cJSON_AddNumberToObject j k n = cJSON_AddItemToObject j k (cJSON_CreateNumber n)"

definition cJSON_AddBoolToObject :: "cJSON \<Rightarrow> string \<Rightarrow> bool \<Rightarrow> cJSON" where
  "cJSON_AddBoolToObject j k b = cJSON_AddItemToObject j k (cJSON_CreateBool b)"

lemmas json_build =
  cJSON_CreateObject_def cJSON_CreateArray_def cJSON_CreateString_def cJSON_CreateNumber_def
  cJSON_CreateBool_def cJSON_CreateStringArray_def cJSON_AddStringToObject_def
  cJSON_AddNumberToObject_def cJSON_AddBoolToObject_def

subsection \<open>Reading\<close>

text \<open>The children, with their names (\<open>NULL\<close> for the elements of an array).\<close>

fun json_children :: "cJSON \<Rightarrow> (string option \<times> cJSON) list" where
  "json_children (JArray vs) = map (\<lambda>v. (None, v)) vs"
| "json_children (JObject ms) = map (\<lambda>(k, v). (Some k, v)) ms"
| "json_children _ = []"

definition cJSON_GetArraySize :: "cJSON \<Rightarrow> int" where
  "cJSON_GetArraySize j = i32 (int (length (json_children j)))"

definition cJSON_GetArrayItem :: "cJSON \<Rightarrow> int \<Rightarrow> cJSON option" where
  "cJSON_GetArrayItem j i =
     (if 0 \<le> i \<and> nat i < length (json_children j) then Some (snd (json_children j ! nat i))
      else None)"

definition case_insensitive_eq :: "string \<Rightarrow> string \<Rightarrow> bool" where
  "case_insensitive_eq a b \<longleftrightarrow> map tolower a = map tolower b"

fun json_find :: "string \<Rightarrow> (string option \<times> cJSON) list \<Rightarrow> cJSON option" where
  "json_find name [] = None"
| "json_find name ((k, v) # ms) =
     (case k of
        None \<Rightarrow> json_find name ms
      | Some n \<Rightarrow> if case_insensitive_eq name n then Some v else json_find name ms)"

definition cJSON_GetObjectItem :: "cJSON \<Rightarrow> string \<Rightarrow> cJSON option" where
  "cJSON_GetObjectItem j name = json_find name (json_children j)"

fun json_valuestring :: "cJSON \<Rightarrow> string option" where
  "json_valuestring (JString s) = Some s"
| "json_valuestring _ = None"

definition cJSON_GetStringValue :: "cJSON \<Rightarrow> string option" where
  "cJSON_GetStringValue j = json_valuestring j"

text \<open>\<open>valueint\<close> of a number: the double truncated, saturated at the ends of \<open>int\<close>.\<close>

definition num_int :: "rat \<Rightarrow> int" where
  "num_int q =
     (if of_int INT_MAX \<le> q then INT_MAX
      else if q \<le> of_int INT_MIN then INT_MIN
      else if q < 0 then - \<lfloor>- q\<rfloor> else \<lfloor>q\<rfloor>)"

fun json_valueint :: "cJSON \<Rightarrow> int" where
  "json_valueint (JNumber q) = num_int q"
| "json_valueint JTrue = 1"
| "json_valueint _ = 0"

lemma num_int_of_int: "is_i32 x \<Longrightarrow> num_int (of_int x) = x"
  by (auto simp: num_int_def is_i32_def INT_MAX_def INT_MIN_def)

subsection \<open>Printing\<close>

definition BACKSLASH :: char where
  "BACKSLASH = CHR 0x5C"

definition hex_digit :: "nat \<Rightarrow> char" where
  "hex_digit n = (if n < 10 then char_of (48 + n) else char_of (87 + n))"

text \<open>One character of a string: copied, or escaped (\<open>u%04x\<close> for other control characters).\<close>

definition escape_char :: "char \<Rightarrow> string" where
  "escape_char c =
     (if 31 < uchar c \<and> c \<noteq> DQUOTE \<and> c \<noteq> BACKSLASH then [c]
      else BACKSLASH #
        (if c = BACKSLASH then [BACKSLASH]
         else if c = DQUOTE then [DQUOTE]
         else if c = CHR 0x08 then ''b''
         else if c = CHR 0x0C then ''f''
         else if c = LF then ''n''
         else if c = CR then ''r''
         else if c = CHR 0x09 then ''t''
         else ''u00'' @ [hex_digit (nat (uchar c) div 16), hex_digit (nat (uchar c) mod 16)]))"

definition print_string_ptr :: "string \<Rightarrow> string" where
  "print_string_ptr s = [DQUOTE] @ concat (map escape_char s) @ [DQUOTE]"

text \<open>
  A number whose double equals its \<open>valueint\<close> is printed with \<open>%d\<close>. The other branch
  (\<open>%1.15g\<close>) is not modelled (\<open>None\<close>): every number the program prints was an \<open>int\<close>.
\<close>

definition print_number :: "rat \<Rightarrow> string option" where
  "print_number q = (if q = of_int (num_int q) then Some (show_int (num_int q)) else None)"

fun print_value :: "bool \<Rightarrow> nat \<Rightarrow> cJSON \<Rightarrow> string option"
  and print_elems :: "bool \<Rightarrow> nat \<Rightarrow> cJSON list \<Rightarrow> string option"
  and print_members :: "bool \<Rightarrow> nat \<Rightarrow> (string \<times> cJSON) list \<Rightarrow> string option"
where
  "print_value fmt d JNull = Some ''null''"
| "print_value fmt d JFalse = Some ''false''"
| "print_value fmt d JTrue = Some ''true''"
| "print_value fmt d (JNumber q) = print_number q"
| "print_value fmt d (JString s) = Some (print_string_ptr s)"
| "print_value fmt d (JArray vs) = do {
     body \<leftarrow> print_elems fmt (Suc d) vs;
     Some (''['' @ body @ '']'') }"
| "print_value fmt d (JObject ms) = do {
     body \<leftarrow> print_members fmt (Suc d) ms;
     Some (CHR 0x7B # (if fmt then [LF] else []) @ body @
       (if fmt then replicate d (CHR 0x09) else []) @ [CHR 0x7D]) }"
| "print_elems fmt d [] = Some []"
| "print_elems fmt d (v # vs) = do {
     s \<leftarrow> print_value fmt d v;
     t \<leftarrow> print_elems fmt d vs;
     Some (s @ (if vs = [] then [] else if fmt then '', '' else '','') @ t) }"
| "print_members fmt d [] = Some []"
| "print_members fmt d ((k, v) # ms) = do {
     s \<leftarrow> print_value fmt d v;
     t \<leftarrow> print_members fmt d ms;
     Some ((if fmt then replicate d (CHR 0x09) else []) @ print_string_ptr k @
       (if fmt then '':'' @ [CHR 0x09] else '':'') @ s @
       (if ms = [] then [] else '','') @ (if fmt then [LF] else []) @ t) }"

definition cJSON_Print :: "cJSON \<Rightarrow> string option" where
  "cJSON_Print j = print_value True 0 j"

definition cJSON_PrintUnformatted :: "cJSON \<Rightarrow> string option" where
  "cJSON_PrintUnformatted j = print_value False 0 j"

subsection \<open>Numbers in the input\<close>

definition number_char :: "char \<Rightarrow> bool" where
  "number_char c \<longleftrightarrow> isdigit c \<or> c \<in> {CHR ''+'', CHR ''-'', CHR ''e'', CHR ''E'', CHR ''.''}"

definition pow2 :: "int \<Rightarrow> rat" where
  "pow2 e = (if 0 \<le> e then 2 ^ nat e else 1 / 2 ^ nat (- e))"

definition pow10 :: "int \<Rightarrow> rat" where
  "pow10 e = (if 0 \<le> e then 10 ^ nat e else 1 / 10 ^ nat (- e))"

definition round_half_even :: "rat \<Rightarrow> int" where
  "round_half_even x =
     (let f = \<lfloor>x\<rfloor>; r = x - of_int f
      in if r < 1 / 2 then f else if 1 / 2 < r then f + 1 else if even f then f else f + 1)"

text \<open>
  Rounding to the nearest double. Integers up to \<open>2 ^ 53\<close> are doubles; values beyond the
  range of doubles keep an unbounded exponent, which gives the same \<open>valueint\<close>.
\<close>

definition round_double :: "rat \<Rightarrow> rat" where
  "round_double q =
     (if q = of_int \<lfloor>q\<rfloor> \<and> \<bar>q\<bar> \<le> 2 ^ 53 then q
      else let (n, d) = quotient_of \<bar>q\<bar>; e0 = bitlen n - bitlen d;
               e = (if pow2 e0 \<le> \<bar>q\<bar> then e0 else e0 - 1);
               u = pow2 (max e (- 1022) - 52)
           in sgn q * of_int (round_half_even (\<bar>q\<bar> / u)) * u)"

definition scan_exponent :: "string \<Rightarrow> int \<times> string" where
  "scan_exponent s =
     (case s of
        [] \<Rightarrow> (0, [])
      | c # t \<Rightarrow>
          if c = CHR ''e'' \<or> c = CHR ''E'' then
            (let (neg, u) = sign_of t; ds = takeWhile isdigit u
             in if ds = [] then (0, s)
                else (if neg then - digits_value 0 ds else digits_value 0 ds, dropWhile isdigit u))
          else (0, s))"

text \<open>\<open>strtod\<close> on a string of number characters: the value and the rest.\<close>

definition strtod :: "string \<Rightarrow> (rat \<times> string) option" where
  "strtod s =
     (let (neg, s1) = sign_of s;
          ip = takeWhile isdigit s1; s2 = dropWhile isdigit s1;
          dot = take 1 s2 = ''.'';
          fp = (if dot then takeWhile isdigit (drop 1 s2) else []);
          s3 = (if dot then drop (Suc (length fp)) s2 else s2)
      in if ip = [] \<and> fp = [] then None
         else let (e, s4) = scan_exponent s3;
                  v = of_int (digits_value 0 (ip @ fp)) * pow10 (e - int (length fp))
              in Some (round_double (if neg then - v else v), s4))"

definition parse_number :: "string \<Rightarrow> (cJSON \<times> string) option" where
  "parse_number s =
     (let number_c_string = takeWhile number_char (take 63 s)
      in case strtod number_c_string of
           None \<Rightarrow> None
         | Some (number, after_end) \<Rightarrow>
             Some (JNumber number, drop (length number_c_string - length after_end) s))"

subsection \<open>Strings in the input\<close>

definition hex_value :: "char \<Rightarrow> nat option" where
  "hex_value c =
     (let n = nat (uchar c) in
      if 48 \<le> n \<and> n \<le> 57 then Some (n - 48)
      else if 65 \<le> n \<and> n \<le> 70 then Some (10 + n - 65)
      else if 97 \<le> n \<and> n \<le> 102 then Some (10 + n - 97)
      else None)"

text \<open>\<open>parse_hex4\<close> returns 0 when one of the four characters is not a digit.\<close>

definition parse_hex4 :: "string \<Rightarrow> nat" where
  "parse_hex4 s =
     (case map hex_value (take 4 s) of
        [Some a, Some b, Some c, Some d] \<Rightarrow> ((a * 16 + b) * 16 + c) * 16 + d
      | _ \<Rightarrow> 0)"

definition utf8_encode :: "nat \<Rightarrow> string option" where
  "utf8_encode cp =
     (if cp < 0x80 then Some [char_of cp]
      else if cp < 0x800 then
        Some [char_of (0xC0 + cp div 64), char_of (0x80 + cp mod 64)]
      else if cp < 0x10000 then
        Some [char_of (0xE0 + cp div 4096), char_of (0x80 + cp div 64 mod 64),
          char_of (0x80 + cp mod 64)]
      else if cp \<le> 0x10FFFF then
        Some [char_of (0xF0 + cp div 262144), char_of (0x80 + cp div 4096 mod 64),
          char_of (0x80 + cp div 64 mod 64), char_of (0x80 + cp mod 64)]
      else None)"

text \<open>
  A UTF-16 escape at the head of \<open>s\<close> (which ends where the string literal ends): the bytes
  of its UTF-8 encoding and the number of characters it takes.
\<close>

definition utf16_literal_to_utf8 :: "string \<Rightarrow> (string \<times> nat) option" where
  "utf16_literal_to_utf8 s =
     (if length s < 6 then None
      else let first_code = parse_hex4 (drop 2 s) in
        if 0xDC00 \<le> first_code \<and> first_code \<le> 0xDFFF then None
        else if 0xD800 \<le> first_code \<and> first_code \<le> 0xDBFF then
          (let t = drop 6 s in
           if length t < 6 then None
           else if take 2 t \<noteq> [BACKSLASH, CHR ''u''] then None
           else let second_code = parse_hex4 (drop 2 t) in
             if second_code < 0xDC00 \<or> 0xDFFF < second_code then None
             else map_option (\<lambda>b. (b, 12))
               (utf8_encode (0x10000 + (first_code mod 0x400) * 0x400 + second_code mod 0x400)))
        else map_option (\<lambda>b. (b, 6)) (utf8_encode first_code))"

text \<open>The text up to the closing quote, over escaped characters, and what follows the quote.\<close>

fun scan_literal :: "string \<Rightarrow> (string \<times> string) option" where
  "scan_literal [] = None"
| "scan_literal (c # s) =
     (if c = DQUOTE then Some ([], s)
      else if c = BACKSLASH then
        (case s of
           [] \<Rightarrow> None
         | d # t \<Rightarrow> map_option (\<lambda>(l, r). (c # d # l, r)) (scan_literal t))
      else map_option (\<lambda>(l, r). (c # l, r)) (scan_literal s))"

definition simple_escape :: "char \<Rightarrow> char option" where
  "simple_escape e =
     (if e = CHR ''b'' then Some (CHR 0x08)
      else if e = CHR ''f'' then Some (CHR 0x0C)
      else if e = CHR ''n'' then Some LF
      else if e = CHR ''r'' then Some CR
      else if e = CHR ''t'' then Some (CHR 0x09)
      else if e = DQUOTE \<or> e = BACKSLASH \<or> e = CHR ''/'' then Some e
      else None)"

text \<open>
  The literal without its escapes. A backslash that a UTF-16 escape leaves alone at the end
  of the literal is read together with the closing quote.
\<close>

function unescape :: "string \<Rightarrow> string option" where
  "unescape s =
     (case s of
        [] \<Rightarrow> Some []
      | c # t \<Rightarrow>
          if c \<noteq> BACKSLASH then map_option ((#) c) (unescape t)
          else case t of
            [] \<Rightarrow> Some [DQUOTE]
          | e # u \<Rightarrow>
              (case simple_escape e of
                 Some x \<Rightarrow> map_option ((#) x) (unescape u)
               | None \<Rightarrow>
                   if e = CHR ''u'' then
                     (case utf16_literal_to_utf8 s of
                        None \<Rightarrow> None
                      | Some (b, n) \<Rightarrow> map_option ((@) b) (unescape (drop (max n 2) s)))
                   else None))"
  by pat_completeness auto
termination
  by (relation "measure length") auto

declare unescape.simps [simp del]

text \<open>A string literal; a decoded zero byte ends the C string that the value holds.\<close>

definition parse_string :: "string \<Rightarrow> (string \<times> string) option" where
  "parse_string s =
     (case s of
        [] \<Rightarrow> None
      | c # t \<Rightarrow>
          if c \<noteq> DQUOTE then None
          else case scan_literal t of
            None \<Rightarrow> None
          | Some (l, r) \<Rightarrow> map_option (\<lambda>v. (c_str v, r)) (unescape l))"

subsection \<open>Values in the input\<close>

text \<open>
  The parser works on the rest of its buffer, the text with its terminator. Skipping white
  space (every character up to the space, the terminator too) steps back to the last
  character when it reaches the end of the buffer. Fuel bounds the recursion: every level
  and every element read takes at least one character of the buffer, so twice its length is
  enough (\<open>json_fuel_bound\<close> in \<open>JsonRound\<close> proves it for all printed text).
\<close>

definition buffer_skip_whitespace :: "string \<Rightarrow> string" where
  "buffer_skip_whitespace s =
     (if s = [] then []
      else let r = dropWhile (\<lambda>c. uchar c \<le> 32) s in if r = [] then [last s] else r)"

definition CJSON_NESTING_LIMIT :: nat where
  "CJSON_NESTING_LIMIT = 1000"

fun parse_value :: "nat \<Rightarrow> nat \<Rightarrow> string \<Rightarrow> (cJSON \<times> string) option"
  and parse_elems :: "nat \<Rightarrow> nat \<Rightarrow> string \<Rightarrow> (cJSON list \<times> string) option"
  and parse_members :: "nat \<Rightarrow> nat \<Rightarrow> string \<Rightarrow> ((string \<times> cJSON) list \<times> string) option"
where
  "parse_value 0 d s = None"
| "parse_value (Suc n) d s =
     (if starts_with ''null'' s then Some (JNull, drop 4 s)
      else if starts_with ''false'' s then Some (JFalse, drop 5 s)
      else if starts_with ''true'' s then Some (JTrue, drop 4 s)
      else case s of
        [] \<Rightarrow> None
      | c # t \<Rightarrow>
          if c = DQUOTE then map_option (\<lambda>(v, r). (JString v, r)) (parse_string s)
          else if c = CHR ''-'' \<or> isdigit c then parse_number s
          else if c = CHR ''['' then
            (if CJSON_NESTING_LIMIT \<le> d then None
             else let r = buffer_skip_whitespace t in
               if take 1 r = '']'' then Some (JArray [], drop 1 r)
               else if r = [] then None
               else map_option (\<lambda>(vs, q). (JArray vs, q)) (parse_elems n (Suc d) r))
          else if c = CHR 0x7B then
            (if CJSON_NESTING_LIMIT \<le> d then None
             else let r = buffer_skip_whitespace t in
               if take 1 r = [CHR 0x7D] then Some (JObject [], drop 1 r)
               else if r = [] then None
               else map_option (\<lambda>(ms, q). (JObject ms, q)) (parse_members n (Suc d) r))
          else None)"
| "parse_elems 0 d s = None"
| "parse_elems (Suc n) d s =
     (case parse_value n d (buffer_skip_whitespace s) of
        None \<Rightarrow> None
      | Some (v, r) \<Rightarrow>
          (case buffer_skip_whitespace r of
             [] \<Rightarrow> None
           | c # q \<Rightarrow>
               if c = CHR '','' then map_option (\<lambda>(vs, p). (v # vs, p)) (parse_elems n d q)
               else if c = CHR '']'' then Some ([v], q)
               else None))"
| "parse_members 0 d s = None"
| "parse_members (Suc n) d s =
     (case parse_string (buffer_skip_whitespace s) of
        None \<Rightarrow> None
      | Some (k, r) \<Rightarrow>
          (case buffer_skip_whitespace r of
             [] \<Rightarrow> None
           | c # q \<Rightarrow>
               if c \<noteq> CHR '':'' then None
               else case parse_value n d (buffer_skip_whitespace q) of
                 None \<Rightarrow> None
               | Some (v, r') \<Rightarrow>
                   (case buffer_skip_whitespace r' of
                      [] \<Rightarrow> None
                    | c' # q' \<Rightarrow>
                        if c' = CHR '','' then
                          map_option (\<lambda>(ms, p). ((k, v) # ms, p)) (parse_members n d q')
                        else if c' = CHR 0x7D then Some ([(k, v)], q')
                        else None)))"

definition skip_utf8_bom :: "string \<Rightarrow> string" where
  "skip_utf8_bom s =
     (if 4 < length s \<and> take 3 s = [CHR 0xEF, CHR 0xBB, CHR 0xBF] then drop 3 s else s)"

definition cJSON_Parse :: "string \<Rightarrow> cJSON option" where
  "cJSON_Parse value =
     (let buffer = value @ [NUL]
      in map_option fst (parse_value (2 * length buffer + 2) 0
           (buffer_skip_whitespace (skip_utf8_bom buffer))))"

end
