(* ===== verification/JsonRound.thy ===== *)
theory JsonRound
  imports Json
begin

text \<open>
  Printing and parsing: \<open>cJSON_Parse\<close> gives back every tree that \<open>cJSON_Print\<close> or
  \<open>cJSON_PrintUnformatted\<close> writes, for trees nested at most 1000 deep whose strings are C
  strings and whose numbers are integers in the range of \<open>int\<close>.
\<close>

subsection \<open>White space\<close>

lemma skip_ws_app:
  "\<forall>c\<in>set w. uchar c \<le> 32 \<Longrightarrow> 32 < uchar c \<Longrightarrow> buffer_skip_whitespace (w @ c # s) = c # s"
  by (simp add: buffer_skip_whitespace_def dropWhile_append2 Let_def)

lemma skip_ws_id: "32 < uchar c \<Longrightarrow> buffer_skip_whitespace (c # s) = c # s"
  using skip_ws_app [of "[]" c s] by simp

definition tabs :: "bool \<Rightarrow> nat \<Rightarrow> string" where
  "tabs fmt d = (if fmt then replicate d (CHR 0x09) else [])"

lemma tabs_ws: "\<forall>c\<in>set (tabs fmt d). uchar c \<le> 32"
  by (simp add: tabs_def uchar_def)

subsection \<open>Strings\<close>

lemma hex_digit_uchar: "n < 16 \<Longrightarrow> uchar (hex_digit n) = (if n < 10 then 48 + int n else 87 + int n)"
  by (simp add: hex_digit_def uchar_nat)

lemma hex_value_digit: "n < 16 \<Longrightarrow> hex_value (hex_digit n) = Some n"
  by (simp add: hex_value_def hex_digit_uchar Let_def nat_add_distrib)

lemma hex_digit_plain: "n < 16 \<Longrightarrow> hex_digit n \<noteq> DQUOTE \<and> hex_digit n \<noteq> BACKSLASH"
  using hex_digit_uchar [of n]
  by (auto simp: BACKSLASH_def uchar_def split: if_splits)

definition low_char :: "char \<Rightarrow> bool" where
  "low_char c \<longleftrightarrow> uchar c \<le> 31 \<and> c \<notin> {CHR 0x08, CHR 0x0C, LF, CR, CHR 0x09}"

lemma escape_char_cases:
  obtains (plain) "escape_char c = [c]" "c \<noteq> DQUOTE" "c \<noteq> BACKSLASH"
  | (short) e where "escape_char c = [BACKSLASH, e]" "simple_escape e = Some c"
  | (long) "escape_char c =
      [BACKSLASH, CHR ''u'', CHR ''0'', CHR ''0'', hex_digit (nat (uchar c) div 16),
       hex_digit (nat (uchar c) mod 16)]" "uchar c \<le> 31"
proof -
  have D: "31 < uchar DQUOTE" "31 < uchar BACKSLASH" by (simp_all add: uchar_def BACKSLASH_def)
  consider "31 < uchar c \<and> c \<noteq> DQUOTE \<and> c \<noteq> BACKSLASH" | "c = DQUOTE" | "c = BACKSLASH"
    | "c \<in> {CHR 0x08, CHR 0x0C, LF, CR, CHR 0x09}" | "low_char c"
    using D by (fastforce simp: low_char_def)
  then show thesis
  proof cases
    case 1
    then show thesis by (intro plain) (auto simp: escape_char_def)
  next
    case 2
    then show thesis
      by (intro short [of DQUOTE]) (auto simp: escape_char_def simple_escape_def BACKSLASH_def)
  next
    case 3
    then show thesis
      by (intro short [of BACKSLASH]) (auto simp: escape_char_def simple_escape_def BACKSLASH_def)
  next
    case 4
    then show thesis
      by (elim insertE emptyE)
        (rule short, simp add: escape_char_def BACKSLASH_def uchar_def, simp add: simple_escape_def)+
  next
    case 5
    then show thesis
      using D by (intro long) (auto simp: low_char_def escape_char_def)
  qed
qed

lemma nat_uchar_low: "uchar c \<le> 31 \<Longrightarrow> nat (uchar c) div 16 < 16 \<and> nat (uchar c) mod 16 < 16"
  using uchar_range [of c] by auto

lemma scan_literal_escape:
  "scan_literal (escape_char c @ t) = map_option (\<lambda>(l, r). (escape_char c @ l, r)) (scan_literal t)"
proof (cases c rule: escape_char_cases)
  case plain
  then show ?thesis by (simp add: BACKSLASH_def split: prod.splits)
next
  case (short e)
  then show ?thesis by (simp add: BACKSLASH_def option.map_comp comp_def case_prod_unfold)
next
  case long
  with nat_uchar_low [of c] hex_digit_plain show ?thesis
    by (simp add: BACKSLASH_def option.map_comp comp_def case_prod_unfold)
qed

lemma scan_literal_print:
  "scan_literal (concat (map escape_char s) @ DQUOTE # r) = Some (concat (map escape_char s), r)"
  by (induction s) (auto simp: scan_literal_escape)

lemma parse_hex4_low:
  assumes "n < 256"
  shows "parse_hex4 (CHR ''0'' # CHR ''0'' # hex_digit (n div 16) # hex_digit (n mod 16) # t) = n"
proof -
  have "hex_value (CHR ''0'') = Some 0" by (simp add: hex_value_def uchar_def)
  with assms show ?thesis
    by (simp add: parse_hex4_def hex_value_digit)
qed

lemma unescape_escape:
  assumes "c \<noteq> NUL"
  shows "unescape (escape_char c @ t) = map_option ((#) c) (unescape t)"
proof (cases c rule: escape_char_cases)
  case plain
  then show ?thesis by (simp add: unescape.simps [of "c # t"])
next
  case (short e)
  then show ?thesis by (simp add: unescape.simps [of "BACKSLASH # e # t"])
next
  case long
  let ?n = "nat (uchar c)"
  let ?s = "BACKSLASH # CHR ''u'' # CHR ''0'' # CHR ''0'' # hex_digit (?n div 16) #
    hex_digit (?n mod 16) # t"
  have n: "?n < 32" using long(2) by simp
  have "char_of ?n = c" by (simp add: uchar_def)
  with n have "utf16_literal_to_utf8 ?s = Some ([c], 6)"
    by (simp add: utf16_literal_to_utf8_def parse_hex4_low utf8_encode_def Let_def)
  moreover have "simple_escape (CHR ''u'') = None" by (simp add: simple_escape_def BACKSLASH_def)
  moreover have "(@) [c] = (#) c" by (simp add: fun_eq_iff)
  ultimately have "unescape ?s = map_option ((#) c) (unescape t)"
    by (simp add: unescape.simps [of ?s])
  with long show ?thesis by simp
qed

lemma unescape_print: "cstring s \<Longrightarrow> unescape (concat (map escape_char s)) = Some s"
  by (induction s) (auto simp: unescape_escape unescape.simps [of "[]"])

lemma parse_print_string:
  "cstring s \<Longrightarrow> parse_string (print_string_ptr s @ r) = Some (s, r)"
  by (simp add: parse_string_def print_string_ptr_def scan_literal_print unescape_print c_str_id)

lemma print_string_hd: "\<exists>t. print_string_ptr s @ r = DQUOTE # t"
  by (simp add: print_string_ptr_def)

subsection \<open>Numbers\<close>

lemma length_show_int: "is_i32 x \<Longrightarrow> length (show_int x) \<le> 11"
proof -
  assume "is_i32 x"
  then have "nat x < 10 ^ 10" "nat (- x) < 10 ^ 10"
    by (auto simp: is_i32_def INT_MAX_def INT_MIN_def)
  then have "length (show_nat (nat x)) \<le> 10" "length (show_nat (nat (- x))) \<le> 10"
    by (auto intro: length_show_nat)
  then show ?thesis by (simp add: show_int_def)
qed

lemma number_char_show: "c \<in> set (show_int x) \<Longrightarrow> number_char c"
  by (auto simp: number_char_def dest: show_int_chars)

lemma takeWhile_digits_all: "takeWhile isdigit (show_nat n) = show_nat n"
  using takeWhile_digits [of "[]" n] by (simp add: no_digit_def)

lemma dropWhile_digits_all: "dropWhile isdigit (show_nat n) = []"
  using dropWhile_digits [of "[]" n] by (simp add: no_digit_def)

lemma round_double_int: "is_i32 x \<Longrightarrow> round_double (of_int x) = of_int x"
proof -
  assume "is_i32 x"
  then have "\<bar>x\<bar> \<le> 2 ^ 53" by (auto simp: is_i32_def INT_MAX_def INT_MIN_def)
  then have "\<bar>of_int x :: rat\<bar> \<le> of_int (2 ^ 53)"
    by (simp only: of_int_abs [symmetric] of_int_le_iff)
  then show ?thesis by (simp add: round_double_def)
qed

lemma strtod_show_int: "is_i32 x \<Longrightarrow> strtod (show_int x) = Some (of_int x, [])"
proof (cases "x < 0")
  case True
  assume "is_i32 x"
  with True round_double_int [of x] show ?thesis
    by (simp add: strtod_def show_int_def sign_of_def takeWhile_digits_all dropWhile_digits_all
        scan_exponent_def digits_value_show_nat pow10_def)
next
  case False
  assume "is_i32 x"
  moreover have "sign_of (show_nat (nat x)) = (False, show_nat (nat x))"
    using sign_of_show_nat [of "nat x" "[]"] by simp
  ultimately show ?thesis
    using False round_double_int [of x]
    by (simp add: strtod_def show_int_def takeWhile_digits_all dropWhile_digits_all
        scan_exponent_def digits_value_show_nat pow10_def)
qed

lemma parse_number_show_int:
  assumes "is_i32 x" "\<not> number_char c"
  shows "parse_number (show_int x @ c # r) = Some (JNumber (of_int x), c # r)"
proof -
  have l: "length (show_int x) \<le> 11" using assms(1) by (rule length_show_int)
  then have "take 63 (show_int x @ c # r) = show_int x @ c # take (62 - length (show_int x)) r"
    by (simp add: take_Cons' Suc_diff_le)
  moreover have "\<forall>d\<in>set (show_int x). number_char d" using number_char_show by blast
  ultimately have "takeWhile number_char (take 63 (show_int x @ c # r)) = show_int x"
    using assms(2) by (simp add: takeWhile_stop)
  then show ?thesis
    by (simp add: parse_number_def strtod_show_int [OF assms(1)])
qed

subsection \<open>Trees\<close>

fun json_ok :: "cJSON \<Rightarrow> bool" where
  "json_ok (JNumber q) \<longleftrightarrow> (\<exists>x. is_i32 x \<and> q = of_int x)"
| "json_ok (JString s) \<longleftrightarrow> cstring s"
| "json_ok (JArray vs) \<longleftrightarrow> (\<forall>v\<in>set vs. json_ok v)"
| "json_ok (JObject ms) \<longleftrightarrow> (\<forall>(k, v)\<in>set ms. cstring k \<and> json_ok v)"
| "json_ok _ \<longleftrightarrow> True"

fun json_depth :: "cJSON \<Rightarrow> nat" where
  "json_depth (JArray vs) = Suc (Max (insert 0 (set (map json_depth vs))))"
| "json_depth (JObject ms) = Suc (Max (insert 0 (set (map (\<lambda>(k, v). json_depth v) ms))))"
| "json_depth _ = 0"

text \<open>The fuel that parsing a printed tree takes.\<close>

fun json_fuel :: "cJSON \<Rightarrow> nat" where
  "json_fuel (JArray vs) = Suc (sum_list (map (\<lambda>v. Suc (json_fuel v)) vs))"
| "json_fuel (JObject ms) = Suc (sum_list (map (\<lambda>(k, v). Suc (json_fuel v)) ms))"
| "json_fuel _ = 1"

abbreviation elems_fuel :: "cJSON list \<Rightarrow> nat" where
  "elems_fuel vs \<equiv> sum_list (map (\<lambda>v. Suc (json_fuel v)) vs)"

abbreviation members_fuel :: "(string \<times> cJSON) list \<Rightarrow> nat" where
  "members_fuel ms \<equiv> sum_list (map (\<lambda>(k, v). Suc (json_fuel v)) ms)"

text \<open>What can follow a value: a separator, a bracket, white space or the terminator.\<close>

definition delim :: "string \<Rightarrow> bool" where
  "delim r \<longleftrightarrow> (\<exists>c t. r = c # t \<and> \<not> number_char c)"

lemma delim_Cons: "\<not> number_char c \<Longrightarrow> delim (c # t)"
  by (simp add: delim_def)

lemma not_number_chars:
  "\<not> number_char (CHR '','')" "\<not> number_char (CHR '']'')" "\<not> number_char (CHR 0x7D)"
  "\<not> number_char LF" "\<not> number_char NUL"
  by (auto simp: number_char_def isdigit_def uchar_def)

lemma delim_literals [simp]:
  "delim (CHR '','' # t)" "delim (CHR '']'' # t)" "delim (CHR 0x7D # t)" "delim (LF # t)"
  "delim (NUL # t)"
  by (rule delim_Cons, rule not_number_chars)+

lemma print_number_int: "is_i32 x \<Longrightarrow> print_number (of_int x) = Some (show_int x)"
  by (simp add: print_number_def num_int_of_int)

text \<open>Every printed tree starts with a character above the space.\<close>

lemma show_int_head: "\<exists>c t. show_int x @ r = c # t \<and> (c = CHR ''-'' \<or> isdigit c)"
  using show_int_hd [of x] by auto

lemma print_value_hd:
  assumes "print_value fmt d v = Some s"
  shows "\<exists>c t. s = c # t \<and> 32 < uchar c \<and> uchar c < 128 \<and> c \<noteq> CHR '']'' \<and> c \<noteq> CHR 0x7D"
proof -
  have hd: "\<exists>t. s = c # t \<Longrightarrow> c \<in> {CHR ''n'', CHR ''f'', CHR ''t'', DQUOTE, CHR ''['', CHR 0x7B} \<Longrightarrow>
      ?thesis" for c
    by (elim insertE emptyE exE) (simp_all add: uchar_def)
  show ?thesis
  proof (cases v)
    case (JNumber q)
    with assms have "s = show_int (num_int q)" by (simp add: print_number_def split: if_splits)
    with show_int_hd [of "num_int q"] show ?thesis by (auto simp: isdigit_def uchar_def)
  next
    case JNull
    then show ?thesis using assms by (intro hd [of "CHR ''n''"]) auto
  next
    case JFalse
    then show ?thesis using assms by (intro hd [of "CHR ''f''"]) auto
  next
    case JTrue
    then show ?thesis using assms by (intro hd [of "CHR ''t''"]) auto
  next
    case (JString x)
    then show ?thesis
      using assms by (intro hd [of DQUOTE]) (auto simp: print_string_ptr_def)
  next
    case (JArray x)
    then show ?thesis using assms by (intro hd [of "CHR ''[''"]) (auto simp: bind_Some_iff)
  next
    case (JObject x)
    then show ?thesis using assms by (intro hd [of "CHR 0x7B"]) (auto simp: bind_Some_iff)
  qed
qed

lemma skip_ws_value:
  assumes "print_value fmt d v = Some s" "\<forall>c\<in>set w. uchar c \<le> 32"
  shows "buffer_skip_whitespace (w @ s @ r) = s @ r"
  using print_value_hd [OF assms(1)] skip_ws_app [OF assms(2)] by auto

lemma parse_value_number:
  assumes "is_i32 x" "delim r"
  shows "parse_value (Suc n) d (show_int x @ r) = Some (JNumber (of_int x), r)"
proof -
  obtain c t where r: "r = c # t" "\<not> number_char c" using assms(2) by (auto simp: delim_def)
  obtain a u where a: "show_int x @ r = a # u" "a = CHR ''-'' \<or> isdigit a"
    using show_int_head by blast
  then have "\<not> starts_with ''null'' (a # u)" "\<not> starts_with ''false'' (a # u)"
    "\<not> starts_with ''true'' (a # u)" "a \<noteq> DQUOTE"
    by (auto simp: starts_with_def isdigit_def uchar_def)
  with a parse_number_show_int [OF assms(1) r(2), of t] r(1) show ?thesis by auto
qed

lemma parse_value_string:
  assumes "cstring s"
  shows "parse_value (Suc n) d (print_string_ptr s @ r) = Some (JString s, r)"
proof -
  obtain t where t: "print_string_ptr s @ r = DQUOTE # t" using print_string_hd by blast
  have "parse_value (Suc n) d (DQUOTE # t) =
      map_option (\<lambda>(v, r). (JString v, r)) (parse_string (DQUOTE # t))"
    by (simp add: starts_with_def)
  then show ?thesis using parse_print_string [OF assms, of r] by (simp only: t) simp
qed

definition roundtrips :: "bool \<Rightarrow> cJSON \<Rightarrow> bool" where
  "roundtrips fmt v \<longleftrightarrow> (\<forall>dp s n d r.
     print_value fmt dp v = Some s \<longrightarrow> delim r \<longrightarrow> json_fuel v \<le> n \<longrightarrow>
     d + json_depth v \<le> CJSON_NESTING_LIMIT \<longrightarrow> parse_value n d (s @ r) = Some (v, r))"

lemma roundtripsD:
  "roundtrips fmt v \<Longrightarrow> print_value fmt dp v = Some s \<Longrightarrow> delim r \<Longrightarrow> json_fuel v \<le> n \<Longrightarrow>
    d + json_depth v \<le> CJSON_NESTING_LIMIT \<Longrightarrow> parse_value n d (s @ r) = Some (v, r)"
  unfolding roundtrips_def by blast

lemma parse_elems_print:
  assumes "\<forall>v\<in>set vs. roundtrips fmt v" "vs \<noteq> []"
    and "print_elems fmt dp vs = Some s" "elems_fuel vs \<le> n"
    and "\<forall>v\<in>set vs. d + json_depth v \<le> CJSON_NESTING_LIMIT" "\<forall>c\<in>set w. uchar c \<le> 32"
  shows "parse_elems n d (w @ s @ CHR '']'' # r) = Some (vs, r)"
  using assms
proof (induction vs arbitrary: s n w)
  case Nil
  then show ?case by simp
next
  case (Cons v vs)
  from Cons.prems(3) obtain a b where a: "print_value fmt dp v = Some a"
    and b: "print_elems fmt dp vs = Some b"
    and s: "s = a @ (if vs = [] then [] else if fmt then '', '' else '','') @ b"
    by (auto simp: bind_Some_iff)
  from Cons.prems(4) obtain m where n: "n = Suc m" "json_fuel v \<le> m" "elems_fuel vs \<le> m"
    by (cases n) auto
  note rt = roundtripsD [OF _ a _ n(2), of _ d]
  show ?case
  proof (cases "vs = []")
    case True
    have "parse_value m d (a @ CHR '']'' # r) = Some (v, CHR '']'' # r)"
      using Cons.prems(1,5) by (intro rt) simp_all
    with True b s n skip_ws_value [OF a Cons.prems(6)] show ?thesis
      by (simp add: skip_ws_id uchar_def)
  next
    case False
    let ?sp = "if fmt then '' '' else []"
    let ?r = "CHR '','' # ?sp @ b @ CHR '']'' # r"
    have sr: "s @ CHR '']'' # r = a @ ?r" using False s by simp
    have "parse_value m d (a @ ?r) = Some (v, ?r)"
      using Cons.prems(1,5) by (intro rt) simp_all
    moreover have "parse_elems m d (?sp @ b @ CHR '']'' # r) = Some (vs, r)"
      by (rule Cons.IH [OF _ False b n(3)]) (use Cons.prems in \<open>auto simp: uchar_def\<close>)
    ultimately show ?thesis
      using n(1) skip_ws_value [OF a Cons.prems(6), of ?r]
      by (simp only: sr) (simp add: skip_ws_id uchar_def)
  qed
qed

lemma parse_members_print:
  assumes "\<forall>(k, v)\<in>set ms. cstring k \<and> roundtrips fmt v" "ms \<noteq> []"
    and "print_members fmt dp ms = Some s" "members_fuel ms \<le> n"
    and "\<forall>(k, v)\<in>set ms. d + json_depth v \<le> CJSON_NESTING_LIMIT"
    and "\<forall>c\<in>set w. uchar c \<le> 32" "\<forall>c\<in>set w'. uchar c \<le> 32"
  shows "parse_members n d (w @ s @ w' @ CHR 0x7D # r) = Some (ms, r)"
  using assms
proof (induction ms arbitrary: s n w)
  case Nil
  then show ?case by simp
next
  case (Cons p ms)
  obtain k v where p: "p = (k, v)" by (cases p)
  let ?t = "if fmt then replicate dp (CHR 0x09) else []"
  let ?colon = "if fmt then '':'' @ [CHR 0x09] else '':''"
  let ?nl = "if fmt then [LF] else []"
  from Cons.prems(3) p obtain a b where a: "print_value fmt dp v = Some a"
    and b: "print_members fmt dp ms = Some b"
    and s: "s = ?t @ print_string_ptr k @ ?colon @ a @
      (if ms = [] then [] else '','') @ ?nl @ b"
    by (auto simp: bind_Some_iff)
  from Cons.prems(4) p obtain m where n: "n = Suc m" "json_fuel v \<le> m" "members_fuel ms \<le> m"
    by (cases n) auto
  let ?sp = "if fmt then [CHR 0x09] else []"
  let ?tail = "(if ms = [] then [] else '','') @ ?nl @ b @ w' @ CHR 0x7D # r"
  have k: "cstring k" and v: "roundtrips fmt v" using Cons.prems(1) p by auto
  have all: "w @ s @ w' @ CHR 0x7D # r =
      (w @ ?t) @ print_string_ptr k @ CHR '':'' # ?sp @ a @ ?tail"
    using s by simp
  have wt: "\<forall>c\<in>set (w @ ?t). uchar c \<le> 32" using Cons.prems(6) by (auto simp: uchar_def)
  have sp: "\<forall>c\<in>set ?sp. uchar c \<le> 32" by (simp add: uchar_def)
  have nl: "\<forall>c\<in>set ?nl. uchar c \<le> 32" by (simp add: uchar_def)
  have dq: "32 < uchar DQUOTE" "32 < uchar (CHR '':'')" "32 < uchar (CHR '','')"
    "32 < uchar (CHR 0x7D)" by (simp_all add: uchar_def)
  have key: "parse_string (buffer_skip_whitespace (w @ s @ w' @ CHR 0x7D # r)) =
      Some (k, CHR '':'' # ?sp @ a @ ?tail)"
  proof -
    obtain q where q: "print_string_ptr k @ CHR '':'' # ?sp @ a @ ?tail = DQUOTE # q"
      using print_string_hd by blast
    show ?thesis
      unfolding all q skip_ws_app [OF wt dq(1)]
      unfolding q [symmetric] by (rule parse_print_string [OF k])
  qed
  have val: "parse_value m d (buffer_skip_whitespace (?sp @ a @ ?tail)) = Some (v, ?tail)"
    unfolding skip_ws_value [OF a sp]
  proof (rule roundtripsD [OF v a _ n(2)])
    show "delim ?tail"
    proof (cases "ms = []")
      case True
      then have "b = []" using b by simp
      with True show ?thesis using Cons.prems(7)
        by (cases w')
          (auto intro!: delim_Cons not_number_chars simp: number_char_def isdigit_def uchar_def)
    qed simp
    show "d + json_depth v \<le> CJSON_NESTING_LIMIT" using Cons.prems(5) p by auto
  qed
  show ?case
  proof (cases "ms = []")
    case True
    then have tail: "?tail = (?nl @ w') @ CHR 0x7D # r" using b by simp
    have "buffer_skip_whitespace ?tail = CHR 0x7D # r"
      unfolding tail by (rule skip_ws_app) (use nl Cons.prems(7) dq in auto)
    with key val n(1) True p dq(2) show ?thesis
      by (simp add: skip_ws_id)
  next
    case False
    then have tail: "?tail = CHR '','' # ?nl @ b @ w' @ CHR 0x7D # r" by simp
    have "buffer_skip_whitespace ?tail = ?tail"
      unfolding tail by (rule skip_ws_id [OF dq(3)])
    moreover have "parse_members m d (?nl @ b @ w' @ CHR 0x7D # r) = Some (ms, r)"
      by (rule Cons.IH [OF _ False b n(3)]) (use Cons.prems nl p in auto)
    ultimately show ?thesis
      using key val n(1) False p dq(2) by (simp add: skip_ws_id)
  qed
qed

subsection \<open>The round trip\<close>

lemma json_depth_elem:
  assumes "v \<in> set vs"
  shows "Suc (json_depth v) \<le> json_depth (JArray vs)"
  using assms by (auto intro!: Max_ge)

lemma json_depth_member:
  assumes "(k, v) \<in> set ms"
  shows "Suc (json_depth v) \<le> json_depth (JObject ms)"
proof -
  have "json_depth v \<in> set (map (\<lambda>(k, v). json_depth v) ms)" using assms by force
  then show ?thesis by (auto intro!: Max_ge)
qed

lemma roundtrips_array:
  assumes "\<forall>v\<in>set vs. roundtrips fmt v"
  shows "roundtrips fmt (JArray vs)"
  unfolding roundtrips_def
proof (intro allI impI)
  fix dp s n d r
  assume p: "print_value fmt dp (JArray vs) = Some s" and f: "json_fuel (JArray vs) \<le> n"
    and d: "d + json_depth (JArray vs) \<le> CJSON_NESTING_LIMIT"
  from p obtain b where b: "print_elems fmt (Suc dp) vs = Some b" and s: "s = CHR ''['' # b @ '']''"
    by (auto simp: bind_Some_iff)
  from f obtain m where n: "n = Suc m" "elems_fuel vs \<le> m" by (cases n) auto
  have br: "32 < uchar (CHR '']'')" by (simp add: uchar_def)
  have lim: "d < CJSON_NESTING_LIMIT" using d by simp
  have open': "parse_value (Suc m) d (CHR ''['' # t) =
      (let q = buffer_skip_whitespace t in
       if take 1 q = '']'' then Some (JArray [], drop 1 q) else if q = [] then None
       else map_option (\<lambda>(vs, q). (JArray vs, q)) (parse_elems m (Suc d) q))" for t
    using lim by (simp add: starts_with_def isdigit_def uchar_def)
  show "parse_value n d (s @ r) = Some (JArray vs, r)"
  proof (cases vs)
    case Nil
    with b s n show ?thesis by (simp add: open' skip_ws_id [OF br] del: parse_value.simps)
  next
    case (Cons v us)
    then obtain a t where a: "print_value fmt (Suc dp) v = Some a" and t: "b = a @ t"
      using b by (auto simp: bind_Some_iff)
    from print_value_hd [OF a] obtain c u where c: "b = c # u" "32 < uchar c" "c \<noteq> CHR '']''"
      using t by auto
    have "parse_elems m (Suc d) ([] @ b @ CHR '']'' # r) = Some (vs, r)"
      by (rule parse_elems_print [OF assms _ b n(2)])
        (use Cons d json_depth_elem [of _ vs] in fastforce)+
    with s n c show ?thesis
      by (simp add: open' skip_ws_id del: parse_value.simps parse_elems.simps)
  qed
qed

lemma parse_members_cong:
  "buffer_skip_whitespace s = buffer_skip_whitespace t \<Longrightarrow>
    parse_members m d s = parse_members m d t"
  by (cases m) simp_all

lemma roundtrips_object:
  assumes "\<forall>(k, v)\<in>set ms. cstring k \<and> roundtrips fmt v"
  shows "roundtrips fmt (JObject ms)"
  unfolding roundtrips_def
proof (intro allI impI)
  fix dp s n d r
  assume p: "print_value fmt dp (JObject ms) = Some s" and f: "json_fuel (JObject ms) \<le> n"
    and d: "d + json_depth (JObject ms) \<le> CJSON_NESTING_LIMIT"
  let ?nl = "if fmt then [LF] else []"
  let ?w = "if fmt then replicate dp (CHR 0x09) else []"
  from p obtain b where b: "print_members fmt (Suc dp) ms = Some b"
    and s: "s = CHR 0x7B # ?nl @ b @ ?w @ [CHR 0x7D]"
    by (auto simp: bind_Some_iff)
  from f obtain m where n: "n = Suc m" "members_fuel ms \<le> m" by (cases n) auto
  have br: "32 < uchar (CHR 0x7D)" by (simp add: uchar_def)
  have ws: "\<forall>c\<in>set ?nl. uchar c \<le> 32" "\<forall>c\<in>set ?w. uchar c \<le> 32" by (auto simp: uchar_def)
  have lim: "d < CJSON_NESTING_LIMIT" using d by simp
  have open': "parse_value (Suc m) d (CHR 0x7B # t) =
      (let q = buffer_skip_whitespace t in
       if take 1 q = [CHR 0x7D] then Some (JObject [], drop 1 q) else if q = [] then None
       else map_option (\<lambda>(vs, q). (JObject vs, q)) (parse_members m (Suc d) q))" for t
    using lim by (simp add: starts_with_def isdigit_def uchar_def)
  show "parse_value n d (s @ r) = Some (JObject ms, r)"
  proof (cases ms)
    case Nil
    then have "buffer_skip_whitespace ((?nl @ b @ ?w) @ CHR 0x7D # r) = CHR 0x7D # r"
      using b ws by (intro skip_ws_app br) auto
    with Nil s n show ?thesis by (simp add: open' del: parse_value.simps)
  next
    case (Cons km us)
    obtain k v where km: "km = (k, v)" by (cases km)
    let ?t = "if fmt then replicate (Suc dp) (CHR 0x09) else []"
    obtain u where u: "b = ?t @ DQUOTE # u"
      using b Cons km by (auto simp: bind_Some_iff print_string_ptr_def)
    have dq: "32 < uchar DQUOTE" by (simp add: uchar_def)
    have sk: "buffer_skip_whitespace (?nl @ b @ ?w @ CHR 0x7D # r) = DQUOTE # u @ ?w @ CHR 0x7D # r"
    proof -
      have "\<forall>c\<in>set (?nl @ ?t). uchar c \<le> 32" by (auto simp: uchar_def)
      then have "buffer_skip_whitespace ((?nl @ ?t) @ DQUOTE # u @ ?w @ CHR 0x7D # r) =
          DQUOTE # u @ ?w @ CHR 0x7D # r"
        by (rule skip_ws_app) (simp add: uchar_def)
      then show ?thesis unfolding u by (simp only: append_assoc append_Cons)
    qed
    have "parse_members m (Suc d) (?nl @ b @ ?w @ CHR 0x7D # r) = Some (ms, r)"
    proof (rule parse_members_print [OF assms _ b n(2) _ ws])
      show "ms \<noteq> []" using Cons by simp
      show "\<forall>(k, v)\<in>set ms. Suc d + json_depth v \<le> CJSON_NESTING_LIMIT"
      proof clarify
        fix k v
        assume "(k, v) \<in> set ms"
        from json_depth_member [OF this] d
        show "Suc d + json_depth v \<le> CJSON_NESTING_LIMIT" by linarith
      qed
    qed
    moreover have "parse_members m (Suc d) (?nl @ b @ ?w @ CHR 0x7D # r) =
        parse_members m (Suc d) (DQUOTE # u @ ?w @ CHR 0x7D # r)"
      by (rule parse_members_cong) (simp only: sk skip_ws_id [OF dq])
    ultimately have pm: "parse_members m (Suc d) (DQUOTE # u @ ?w @ CHR 0x7D # r) = Some (ms, r)"
      by simp
    have sr: "s @ r = CHR 0x7B # ?nl @ b @ ?w @ CHR 0x7D # r" unfolding s by simp
    show ?thesis unfolding sr n(1) open' sk Let_def pm by simp
  qed
qed

lemma roundtrips_ok: "json_ok v \<Longrightarrow> roundtrips fmt v"
proof (induction v)
  case (JArray vs)
  then show ?case by (intro roundtrips_array) auto
next
  case (JObject ms)
  then show ?case by (intro roundtrips_object) fastforce
next
  case (JNumber q)
  then obtain x where x: "is_i32 x" "q = of_int x" by auto
  show ?case
    unfolding roundtrips_def
    using x parse_value_number [OF x(1)] by (auto simp: print_number_int gr0_conv_Suc Suc_le_eq)
next
  case (JString s)
  then show ?case
    unfolding roundtrips_def
    using parse_value_string [of s] by (auto simp: gr0_conv_Suc Suc_le_eq)
qed (auto simp: roundtrips_def starts_with_def gr0_conv_Suc Suc_le_eq)

lemma elems_fuel_bound:
  assumes "\<And>v s d. v \<in> set vs \<Longrightarrow> print_value fmt d v = Some s \<Longrightarrow> json_fuel v \<le> 2 * length s"
  shows "print_elems fmt d vs = Some s \<Longrightarrow> elems_fuel vs \<le> 2 * length s + 1"
  using assms
proof (induction vs arbitrary: s)
  case (Cons v vs)
  from Cons.prems(1) obtain a b where a: "print_value fmt d v = Some a"
    and b: "print_elems fmt d vs = Some b"
    and s: "s = a @ (if vs = [] then [] else if fmt then '', '' else '','') @ b"
    by (auto simp: bind_Some_iff)
  have "json_fuel v \<le> 2 * length a" using Cons.prems(2) a by auto
  moreover have "elems_fuel vs \<le> 2 * length b + 1" using Cons b by auto
  ultimately show ?case using s by (cases "vs = []") auto
qed simp

lemma members_fuel_bound:
  assumes "\<And>k v s d. (k, v) \<in> set ms \<Longrightarrow> print_value fmt d v = Some s \<Longrightarrow>
    json_fuel v \<le> 2 * length s"
  shows "print_members fmt d ms = Some s \<Longrightarrow> members_fuel ms \<le> 2 * length s"
  using assms
proof (induction ms arbitrary: s)
  case (Cons p ms)
  obtain k v where p: "p = (k, v)" by (cases p)
  from Cons.prems(1) p obtain a b where a: "print_value fmt d v = Some a"
    and b: "print_members fmt d ms = Some b" and s: "length a + length b + 1 \<le> length s"
    by (fastforce simp: bind_Some_iff print_string_ptr_def)
  have "json_fuel v \<le> 2 * length a" using Cons.prems(2) a p by auto
  moreover have "members_fuel ms \<le> 2 * length b" using Cons b by auto
  ultimately show ?case using s p by simp
qed simp

lemma json_fuel_bound: "print_value fmt d v = Some s \<Longrightarrow> json_fuel v \<le> 2 * length s"
proof (induction v arbitrary: d s)
  case (JNumber q)
  then show ?case
    using show_int_hd [of "num_int q"] by (auto simp: print_number_def Suc_le_eq split: if_splits)
next
  case (JArray vs)
  then obtain b where b: "print_elems fmt (Suc d) vs = Some b" "length s = length b + 2"
    by (auto simp: bind_Some_iff)
  have "elems_fuel vs \<le> 2 * length b + 1"
    by (rule elems_fuel_bound [OF _ b(1)]) (rule JArray.IH)
  with b(2) show ?case by simp
next
  case (JObject ms)
  then obtain b where b: "print_members fmt (Suc d) ms = Some b" "length b + 2 \<le> length s"
    by (auto simp: bind_Some_iff)
  have "members_fuel ms \<le> 2 * length b"
    by (rule members_fuel_bound [OF _ b(1)]) (rule JObject.IH, auto)
  with b(2) show ?case by simp
qed (auto simp: print_string_ptr_def)

lemma parse_print:
  assumes "json_ok v" "json_depth v \<le> CJSON_NESTING_LIMIT" "print_value fmt d v = Some s"
  shows "cJSON_Parse s = Some v"
proof -
  obtain c t where c: "s = c # t" "32 < uchar c" "uchar c < 128"
    using print_value_hd [OF assms(3)] by blast
  then have "skip_utf8_bom (s @ [NUL]) = s @ [NUL]"
    by (auto simp: skip_utf8_bom_def uchar_def)
  moreover have "buffer_skip_whitespace (s @ [NUL]) = s @ [NUL]" using c by (simp add: skip_ws_id)
  moreover have "parse_value (2 * length (s @ [NUL]) + 2) 0 (s @ [NUL]) = Some (v, [NUL])"
    by (rule roundtripsD [OF roundtrips_ok [OF assms(1)] assms(3)])
      (use json_fuel_bound [OF assms(3)] assms(2) in simp_all)
  ultimately show ?thesis by (simp add: cJSON_Parse_def Let_def del: parse_value.simps)
qed

text \<open>
  C16. A tree of integers, strings and booleans nested at most 1000 deep that the program
  prints, formatted or not, is what \<open>cJSON_Parse\<close> reads back.
\<close>

theorem json_print_parse:
  assumes "json_ok v" "json_depth v \<le> CJSON_NESTING_LIMIT"
    and "cJSON_Print v = Some s \<or> cJSON_PrintUnformatted v = Some s"
  shows "cJSON_Parse s = Some v"
  using assms parse_print unfolding cJSON_Print_def cJSON_PrintUnformatted_def by blast

lemma json_print_parse_witness:
  "\<exists>s. cJSON_Print (JObject [(''a'', JArray [JNumber 3, JString [DQUOTE, LF]])]) = Some s \<and>
     cJSON_Parse s = Some (JObject [(''a'', JArray [JNumber 3, JString [DQUOTE, LF]])])"
proof -
  let ?v = "JObject [(''a'', JArray [JNumber 3, JString [DQUOTE, LF]])]"
  obtain s where s: "cJSON_Print ?v = Some s"
    by (simp add: cJSON_Print_def print_number_def num_int_def INT_MAX_def INT_MIN_def)
  have "\<exists>x. is_i32 x \<and> (3::rat) = of_int x"
    by (rule exI [of _ 3]) (simp add: is_i32_def INT_MAX_def INT_MIN_def)
  then have "cJSON_Parse s = Some ?v"
    using s by (intro json_print_parse) (auto simp: CJSON_NESTING_LIMIT_def)
  with s show ?thesis by blast
qed

end
