(* ===== verification/Store.thy ===== *)
theory Store
  imports Prelude
begin

text \<open>
  The interface of the two hash tables of the program: a store from string keys to values.
  \<open>key\<close> says for which keys the laws hold; \<open>inv\<close> is the invariant that every operation
  keeps. \<open>hashmap.c\<close> provides \<open>keyed_store\<close>, \<open>hmap_utils.c\<close> provides \<open>keyed_table\<close>,
  which adds deletion.
\<close>

locale keyed_store =
  fixes empty :: "'t"
    and put :: "'t \<Rightarrow> string \<Rightarrow> 'v \<Rightarrow> 't"
    and get :: "'t \<Rightarrow> string \<Rightarrow> 'v option"
    and inv :: "'t \<Rightarrow> bool"
    and key :: "string \<Rightarrow> bool"
  assumes inv_empty: "inv empty"
    and inv_put: "inv t \<Longrightarrow> key k \<Longrightarrow> inv (put t k v)"
    and get_empty: "key k \<Longrightarrow> get empty k = None"
    and get_put: "inv t \<Longrightarrow> key k \<Longrightarrow> key j \<Longrightarrow>
      get (put t k v) j = (if j = k then Some v else get t j)"
begin

text \<open>A client that inserts a list of pairs reads back the last binding of each key.\<close>

lemma inv_put_all:
  "inv t \<Longrightarrow> \<forall>(k, v) \<in> set kvs. key k \<Longrightarrow> inv (foldl (\<lambda>t (k, v). put t k v) t kvs)"
proof (induction kvs arbitrary: t)
  case Nil
  then show ?case by simp
next
  case (Cons p kvs)
  then show ?case by (cases p) (simp add: inv_put)
qed

lemma get_put_all:
  assumes "inv t" "\<forall>(k, v) \<in> set kvs. key k" "key j"
  shows "get (foldl (\<lambda>t (k, v). put t k v) t kvs) j =
    (case map_of (rev kvs) j of Some v \<Rightarrow> Some v | None \<Rightarrow> get t j)"
  using assms
proof (induction kvs arbitrary: t)
  case Nil
  then show ?case by simp
next
  case (Cons p kvs)
  obtain k v where p: "p = (k, v)" by (cases p)
  with Cons.prems have t: "inv (put t k v)" and k: "key k" by (auto simp: inv_put)
  have "get (foldl (\<lambda>t (k, v). put t k v) (put t k v) kvs) j =
      (case map_of (rev kvs) j of Some v \<Rightarrow> Some v | None \<Rightarrow> get (put t k v) j)"
    by (rule Cons.IH) (use Cons.prems t in auto)
  with p k Cons.prems show ?case
    by (auto simp: get_put map_add_def split: option.splits)
qed

lemma put_if_absent:
  assumes "inv t" "key k" "key j"
  shows "get (if get t k = None then put t k v else t) j =
    (if j = k \<and> get t k = None then Some v else get t j)"
  using assms by (auto simp: get_put)

end

locale keyed_table = keyed_store +
  fixes del :: "'t \<Rightarrow> string \<Rightarrow> 't"
  assumes inv_del: "inv t \<Longrightarrow> key k \<Longrightarrow> inv (del t k)"
    and get_del: "inv t \<Longrightarrow> key k \<Longrightarrow> key j \<Longrightarrow>
      get (del t k) j = (if j = k then None else get t j)"
begin

text \<open>Replacing an entry, as the network map does: delete, then insert.\<close>

lemma get_replace:
  "inv t \<Longrightarrow> key k \<Longrightarrow> key j \<Longrightarrow>
    get (put (del t k) k v) j = (if j = k then Some v else get t j)"
  by (simp add: get_put get_del inv_del)

lemma inv_replace: "inv t \<Longrightarrow> key k \<Longrightarrow> inv (put (del t k) k v)"
  by (simp add: inv_put inv_del)

lemma get_replace_if_present:
  assumes "inv t" "key k" "key j"
  shows "get (put (if get t k = None then t else del t k) k v) j =
    (if j = k then Some v else get t j)"
  using assms by (auto simp: get_put get_del inv_del)

end

end
