(* ===== verification/HashTable.thy ===== *)
theory HashTable
  imports Store
begin

text \<open>
  \<open>hmap_utils.c\<close>: the generic hash table. A node keeps the pointer to its key; the model
  keeps the bytes stored there (the key's memory), which the code compares with
  \<open>memcmp\<close> over the size the \<^emph>\<open>caller\<close> passes. Equal pointers see equal bytes, so the
  code's test \<open>node->key == key || memcmp(...) == 0\<close> is the comparison of the bytes.
  Every caller passes the string length of the key as the size.
\<close>

record 'v hash_node =
  node_key :: string
  node_value :: 'v

record 'v hash_table =
  ht_size :: nat
  ht_buckets :: "'v hash_node list list"

text \<open>A size of zero is replaced by \<open>sizeof(key)\<close>, the size of a pointer.\<close>

definition key_size :: "nat \<Rightarrow> nat" where
  "key_size n = (if n = 0 then 8 else n)"

text \<open>
  The memory of a string passed as a key: its characters, the terminator, and the bytes
  after it that a size of zero makes the code read (taken as zero).
\<close>

definition key_mem :: "string \<Rightarrow> string" where
  "key_mem s = s @ replicate 8 NUL"

definition hash_func :: "string \<Rightarrow> nat \<Rightarrow> nat \<Rightarrow> 32 word" where
  "hash_func key sz size_of_key =
     foldl (\<lambda>h c. h * 31 + word_of_int (schar c)) 0 (take (key_size size_of_key) key)
       mod of_nat sz"

definition hash_table_create :: "nat \<Rightarrow> 'v hash_table" where
  "hash_table_create sz = \<lparr>ht_size = sz, ht_buckets = replicate sz []\<rparr>"

definition ht_index :: "'v hash_table \<Rightarrow> string \<Rightarrow> nat \<Rightarrow> nat" where
  "ht_index ht key sz = unat (hash_func key (ht_size ht) (key_size sz))"

definition key_eq :: "nat \<Rightarrow> string \<Rightarrow> string \<Rightarrow> bool" where
  "key_eq sz a b \<longleftrightarrow> take (key_size sz) a = take (key_size sz) b"

text \<open>The update in place of the first node with the key, if there is one.\<close>

fun chain_update :: "string \<Rightarrow> nat \<Rightarrow> ('v \<Rightarrow> 'v) \<Rightarrow> 'v hash_node list \<Rightarrow> 'v hash_node list option" where
  "chain_update key sz f [] = None"
| "chain_update key sz f (node # ns) =
     (if key_eq sz (node_key node) key then Some (node\<lparr>node_value := f (node_value node)\<rparr> # ns)
      else map_option ((#) node) (chain_update key sz f ns))"

fun chain_get :: "string \<Rightarrow> nat \<Rightarrow> 'v hash_node list \<Rightarrow> 'v option" where
  "chain_get key sz [] = None"
| "chain_get key sz (node # ns) =
     (if key_eq sz (node_key node) key then Some (node_value node) else chain_get key sz ns)"

fun chain_delete :: "string \<Rightarrow> nat \<Rightarrow> 'v hash_node list \<Rightarrow> 'v hash_node list" where
  "chain_delete key sz [] = []"
| "chain_delete key sz (node # ns) =
     (if key_eq sz (node_key node) key then ns else node # chain_delete key sz ns)"

text \<open>The chain after \<open>hash_table_put\<close>, for the bytes that a new node keeps as its key.\<close>

definition chain_put ::
  "string \<Rightarrow> string \<Rightarrow> nat \<Rightarrow> 'v \<Rightarrow> 'v hash_node list \<Rightarrow> 'v hash_node list" where
  "chain_put kept key sz v ns =
     (case chain_update key sz (\<lambda>_. v) ns of
        Some ns' \<Rightarrow> ns'
      | None \<Rightarrow> \<lparr>node_key = kept, node_value = v\<rparr> # ns)"

definition hash_table_put :: "'v hash_table \<Rightarrow> string \<Rightarrow> 'v \<Rightarrow> nat \<Rightarrow> 'v hash_table" where
  "hash_table_put ht key value sz =
     (let h = ht_index ht key sz
      in ht\<lparr>ht_buckets := (ht_buckets ht)[h := chain_put key key sz value (ht_buckets ht ! h)]\<rparr>)"

text \<open>
  \<open>hash_table_put_str\<close> keeps a copy of the key: \<open>size\<close> bytes in a block of 256 bytes from
  \<open>malloc\<close>, without a terminator. \<open>block\<close> is what the block held before. A key of more
  than 256 bytes overflows the block.
\<close>

definition hash_table_put_str ::
  "'v hash_table \<Rightarrow> string \<Rightarrow> 'v \<Rightarrow> nat \<Rightarrow> string \<Rightarrow> 'v hash_table option" where
  "hash_table_put_str ht key value sz block =
     (let h = ht_index ht key sz; n = key_size sz; chain = ht_buckets ht ! h
      in case chain_update key sz (\<lambda>_. value) chain of
           Some ns \<Rightarrow> Some (ht\<lparr>ht_buckets := (ht_buckets ht)[h := ns]\<rparr>)
         | None \<Rightarrow>
             if 256 < n then None
             else Some (ht\<lparr>ht_buckets := (ht_buckets ht)[h :=
               \<lparr>node_key = take n key @ drop n block, node_value = value\<rparr> # chain]\<rparr>))"

definition hash_table_get :: "'v hash_table \<Rightarrow> string \<Rightarrow> nat \<Rightarrow> 'v option" where
  "hash_table_get ht key sz = chain_get key sz (ht_buckets ht ! ht_index ht key sz)"

definition hash_table_delete :: "'v hash_table \<Rightarrow> string \<Rightarrow> nat \<Rightarrow> 'v hash_table" where
  "hash_table_delete ht key sz =
     (let h = ht_index ht key sz
      in ht\<lparr>ht_buckets := (ht_buckets ht)[h := chain_delete key sz (ht_buckets ht ! h)]\<rparr>)"

text \<open>A write through the pointer that \<open>hash_table_get\<close> returned.\<close>

definition hash_table_modify :: "'v hash_table \<Rightarrow> string \<Rightarrow> nat \<Rightarrow> ('v \<Rightarrow> 'v) \<Rightarrow> 'v hash_table" where
  "hash_table_modify ht key sz f =
     (let h = ht_index ht key sz
      in case chain_update key sz f (ht_buckets ht ! h) of
           Some ns \<Rightarrow> ht\<lparr>ht_buckets := (ht_buckets ht)[h := ns]\<rparr>
         | None \<Rightarrow> ht)"

text \<open>The nodes in the order in which the loops over a table visit them, which is also the
  order in which \<open>hash_table_destroy\<close> releases them.\<close>

definition ht_nodes :: "'v hash_table \<Rightarrow> 'v hash_node list" where
  "ht_nodes ht = concat (ht_buckets ht)"

definition hash_table_destroy :: "'v hash_table \<Rightarrow> 'v hash_node list" where
  "hash_table_destroy ht = concat (map (\<lambda>i. ht_buckets ht ! i) [0..<ht_size ht])"

text \<open>A key read as a C string: undefined when the bytes kept for it hold no terminator.\<close>

definition key_cstr :: "string \<Rightarrow> string option" where
  "key_cstr m = (if NUL \<in> set m then Some (c_str m) else None)"

definition print_keys :: "'v hash_table \<Rightarrow> string option" where
  "print_keys ht =
     map_option concat (those (map (\<lambda>node.
         map_option (\<lambda>key. ''PRINT KEYS HERE: '' @ key @ [LF]) (key_cstr (node_key node)))
       (concat (map (\<lambda>i. ht_buckets ht ! i) [0..<ht_size ht]))))"

subsection \<open>Keys\<close>

text \<open>
  The laws of a map hold for a set of keys none of which is a proper prefix of another
  (all uuids have one length, so they are such a set). The table itself knows nothing of
  the set: a lookup with a key that is a prefix of a stored key can find that key.
\<close>

definition prefix_free :: "string set \<Rightarrow> bool" where
  "prefix_free K \<longleftrightarrow> (\<forall>a\<in>K. \<forall>b\<in>K. prefix a b \<longrightarrow> a = b)"

definition table_key :: "string set \<Rightarrow> string \<Rightarrow> bool" where
  "table_key K k \<longleftrightarrow> prefix_free K \<and> k \<in> K \<and> k \<noteq> []"

lemma table_key_ne: "table_key K k \<Longrightarrow> k \<noteq> []"
  by (simp add: table_key_def)

lemma table_key_unique:
  assumes "table_key K a" "table_key K b" "prefix a m" "prefix b m"
  shows "a = b"
  using prefix_same_cases [OF assms(3,4)] assms(1,2)
  by (auto simp: table_key_def prefix_free_def)

lemma take_key_mem [simp]: "k \<noteq> [] \<Longrightarrow> take (key_size (length k)) (key_mem k) = k"
  by (simp add: key_size_def key_mem_def)

lemma key_eq_prefix: "k \<noteq> [] \<Longrightarrow> key_eq (length k) m (key_mem k) \<longleftrightarrow> prefix k m"
  by (simp add: key_eq_def take_eq_prefix key_size_def key_mem_def)

lemma prefix_key_mem: "prefix k (key_mem k)"
  by (simp add: key_mem_def)

lemma hash_func_less:
  "0 < sz \<Longrightarrow> sz < 2 ^ 32 \<Longrightarrow> unat (hash_func key sz n) < sz"
  by (simp add: hash_func_def unat_mod unat_of_nat)

lemma key_size_key_size [simp]: "key_size (key_size n) = key_size n"
  by (simp add: key_size_def)

subsection \<open>Chains\<close>

definition chain_inv :: "string set \<Rightarrow> 'v hash_node list \<Rightarrow> bool" where
  "chain_inv K ns \<longleftrightarrow>
     (\<forall>k. table_key K k \<longrightarrow> length (filter (\<lambda>nd. prefix k (node_key nd)) ns) \<le> 1)"

lemma chain_get_None_iff:
  "k \<noteq> [] \<Longrightarrow> chain_get (key_mem k) (length k) ns = None \<longleftrightarrow>
    (\<forall>nd\<in>set ns. \<not> prefix k (node_key nd))"
  by (induction ns) (auto simp: key_eq_prefix)

lemma chain_update_None_iff:
  "k \<noteq> [] \<Longrightarrow> chain_update (key_mem k) (length k) f ns = None \<longleftrightarrow>
    (\<forall>nd\<in>set ns. \<not> prefix k (node_key nd))"
  by (induction ns) (auto simp: key_eq_prefix)

lemma chain_update_keys:
  "chain_update key n f ns = Some ns' \<Longrightarrow> map node_key ns' = map node_key ns"
  by (induction ns arbitrary: ns') (auto split: if_splits)

lemma length_filter_key:
  "length (filter (\<lambda>nd. P (node_key nd)) ns) = length (filter P (map node_key ns))"
  by (induction ns) auto

lemma chain_inv_keys: "map node_key ns = map node_key ns' \<Longrightarrow> chain_inv K ns = chain_inv K ns'"
  by (simp add: chain_inv_def length_filter_key)

lemma chain_get_Cons:
  "k \<noteq> [] \<Longrightarrow> chain_get (key_mem k) (length k) (nd # ns) =
    (if prefix k (node_key nd) then Some (node_value nd) else chain_get (key_mem k) (length k) ns)"
  by (simp add: key_eq_prefix)

lemma chain_update_Cons:
  "k \<noteq> [] \<Longrightarrow> chain_update (key_mem k) (length k) f (nd # ns) =
    (if prefix k (node_key nd) then Some (nd\<lparr>node_value := f (node_value nd)\<rparr> # ns)
     else map_option ((#) nd) (chain_update (key_mem k) (length k) f ns))"
  by (simp add: key_eq_prefix)

lemma table_key_other:
  assumes "table_key K j" "table_key K k" "prefix k m" "j \<noteq> k"
  shows "\<not> prefix j m"
  using table_key_unique [OF assms(1,2) _ assms(3)] assms(4) by blast

lemma chain_get_update_same:
  assumes "k \<noteq> []" "chain_update (key_mem k) (length k) f ns = Some ns'"
  shows "chain_get (key_mem k) (length k) ns' = map_option f (chain_get (key_mem k) (length k) ns)"
  using assms(2)
  by (induction ns arbitrary: ns')
    (auto simp: chain_get_Cons chain_update_Cons assms(1) simp del: chain_get.simps(2) chain_update.simps(2)
      split: if_splits)

lemma chain_get_update_other:
  assumes "table_key K k" "table_key K j" "j \<noteq> k"
    and "chain_update (key_mem k) (length k) f ns = Some ns'"
  shows "chain_get (key_mem j) (length j) ns' = chain_get (key_mem j) (length j) ns"
  using assms(4) table_key_other [OF assms(2,1) _ assms(3)]
  by (induction ns arbitrary: ns')
    (auto simp: chain_get_Cons chain_update_Cons table_key_ne [OF assms(1)] table_key_ne [OF assms(2)]
      simp del: chain_get.simps(2) chain_update.simps(2) split: if_splits)

lemma chain_get_update:
  assumes "table_key K k" "table_key K j" "chain_update (key_mem k) (length k) f ns = Some ns'"
  shows "chain_get (key_mem j) (length j) ns' =
    (if j = k then map_option f (chain_get (key_mem k) (length k) ns)
     else chain_get (key_mem j) (length j) ns)"
  using chain_get_update_same [OF table_key_ne [OF assms(1)] assms(3)]
    chain_get_update_other [OF assms(1,2) _ assms(3)] by simp

lemma chain_get_put:
  assumes "table_key K k" "table_key K j" "prefix k kept"
  shows "chain_get (key_mem j) (length j) (chain_put kept (key_mem k) (length k) v ns) =
    (if j = k then Some v else chain_get (key_mem j) (length j) ns)"
proof (cases "chain_update (key_mem k) (length k) (\<lambda>_. v) ns")
  case None
  then show ?thesis
    using table_key_ne [OF assms(1)] table_key_ne [OF assms(2)] assms(3)
      table_key_other [OF assms(2,1,3)]
    by (auto simp: chain_put_def chain_get_Cons simp del: chain_get.simps(2))
next
  case (Some ns')
  have ex: "\<not> (\<forall>nd\<in>set ns. \<not> prefix k (node_key nd))"
    using Some chain_update_None_iff [OF table_key_ne [OF assms(1)], of "\<lambda>_. v" ns] by simp
  then have "chain_get (key_mem k) (length k) ns \<noteq> None"
    using chain_get_None_iff [OF table_key_ne [OF assms(1)], of ns] by simp
  then obtain w where "chain_get (key_mem k) (length k) ns = Some w" by blast
  with Some chain_get_update [OF assms(1,2) Some] show ?thesis
    by (simp add: chain_put_def)
qed

lemma chain_inv_put:
  assumes "table_key K k" "prefix k kept" "chain_inv K ns"
  shows "chain_inv K (chain_put kept (key_mem k) (length k) v ns)"
proof (cases "chain_update (key_mem k) (length k) (\<lambda>_. v) ns")
  case None
  then have no: "\<forall>nd\<in>set ns. \<not> prefix k (node_key nd)"
    using table_key_ne [OF assms(1)] by (simp add: chain_update_None_iff)
  have "length (filter (\<lambda>nd. prefix j (node_key nd)) (\<lparr>node_key = kept, node_value = v\<rparr> # ns)) \<le> 1"
    if j: "table_key K j" for j
  proof (cases "j = k")
    case True
    from no have "filter (\<lambda>nd. prefix k (node_key nd)) ns = []"
      by (simp add: filter_empty_conv)
    with True show ?thesis by simp
  next
    case False
    with table_key_other [OF j assms(1,2)] have "\<not> prefix j kept" by blast
    moreover have "length (filter (\<lambda>nd. prefix j (node_key nd)) ns) \<le> 1"
      using assms(3) j unfolding chain_inv_def by blast
    ultimately show ?thesis by simp
  qed
  with None show ?thesis by (simp add: chain_put_def chain_inv_def)
next
  case (Some ns')
  with chain_inv_keys [OF chain_update_keys [OF Some], of K] assms(3) show ?thesis
    by (simp add: chain_put_def)
qed

lemma chain_delete_filter:
  assumes "k \<noteq> []" "length (filter (\<lambda>nd. prefix k (node_key nd)) ns) \<le> 1"
  shows "chain_delete (key_mem k) (length k) ns = filter (\<lambda>nd. \<not> prefix k (node_key nd)) ns"
  using assms(2)
proof (induction ns)
  case Nil
  then show ?case by simp
next
  case (Cons nd ns)
  show ?case
  proof (cases "prefix k (node_key nd)")
    case True
    with Cons.prems have "\<forall>nd\<in>set ns. \<not> prefix k (node_key nd)"
      by (auto simp: filter_empty_conv)
    then have "filter (\<lambda>nd. \<not> prefix k (node_key nd)) ns = ns" by (rule filter_True)
    with True assms(1) show ?thesis by (simp add: key_eq_prefix)
  next
    case False
    with Cons assms(1) show ?thesis by (simp add: key_eq_prefix)
  qed
qed

lemma chain_get_filter:
  assumes "table_key K k" "table_key K j"
  shows "chain_get (key_mem j) (length j) (filter (\<lambda>nd. \<not> prefix k (node_key nd)) ns) =
    (if j = k then None else chain_get (key_mem j) (length j) ns)"
proof (cases "j = k")
  case True
  with table_key_ne [OF assms(1)] show ?thesis
    by (simp add: chain_get_None_iff)
next
  case False
  from table_key_other [OF assms(2,1) _ False] table_key_ne [OF assms(2)]
  have "chain_get (key_mem j) (length j) (filter (\<lambda>nd. \<not> prefix k (node_key nd)) ns) =
      chain_get (key_mem j) (length j) ns"
    by (induction ns) (auto simp: chain_get_Cons simp del: chain_get.simps(2))
  with False show ?thesis by simp
qed

lemma chain_inv_filter: "chain_inv K ns \<Longrightarrow> chain_inv K (filter P ns)"
  unfolding chain_inv_def
proof (intro allI impI)
  fix k assume "\<forall>k. table_key K k \<longrightarrow> length (filter (\<lambda>nd. prefix k (node_key nd)) ns) \<le> 1"
    and "table_key K k"
  then have "length (filter (\<lambda>nd. prefix k (node_key nd)) ns) \<le> 1" by blast
  moreover have "length (filter (\<lambda>nd. prefix k (node_key nd)) (filter P ns)) \<le>
      length (filter (\<lambda>nd. prefix k (node_key nd)) ns)"
    by (induction ns) auto
  ultimately show "length (filter (\<lambda>nd. prefix k (node_key nd)) (filter P ns)) \<le> 1"
    by (rule order_trans [rotated])
qed

subsection \<open>The table as a map\<close>

definition ht_inv :: "string set \<Rightarrow> 'v hash_table \<Rightarrow> bool" where
  "ht_inv K ht \<longleftrightarrow> 0 < ht_size ht \<and> ht_size ht < 2 ^ 31 \<and>
     length (ht_buckets ht) = ht_size ht \<and> (\<forall>ns\<in>set (ht_buckets ht). chain_inv K ns)"

lemma ht_index_less: "0 < ht_size ht \<Longrightarrow> ht_size ht < 2 ^ 31 \<Longrightarrow> ht_index ht key n < ht_size ht"
  by (simp add: ht_index_def hash_func_less)

lemma ht_inv_index: "ht_inv K ht \<Longrightarrow> ht_index ht key n < length (ht_buckets ht)"
  by (simp add: ht_inv_def ht_index_less)

lemma ht_index_size: "ht_size ht = ht_size ht' \<Longrightarrow> ht_index ht = ht_index ht'"
  by (simp add: ht_index_def fun_eq_iff)

lemma ht_index_buckets [simp]: "ht_index (ht\<lparr>ht_buckets := bs\<rparr>) = ht_index ht"
  by (rule ht_index_size) simp

lemma ht_inv_create: "0 < n \<Longrightarrow> n < 2 ^ 31 \<Longrightarrow> ht_inv K (hash_table_create n)"
  by (simp add: ht_inv_def hash_table_create_def chain_inv_def)

lemma ht_get_create:
  assumes "0 < n" "n < 2 ^ 31"
  shows "hash_table_get (hash_table_create n :: 'v hash_table) key m = None"
proof -
  let ?t = "hash_table_create n :: 'v hash_table"
  have "ht_index ?t key m < n"
    using ht_index_less [of ?t key m] assms by (simp add: hash_table_create_def)
  then have "ht_buckets ?t ! ht_index ?t key m = []"
    by (simp add: hash_table_create_def)
  then show ?thesis by (simp add: hash_table_get_def)
qed

text \<open>All operations replace the chain of one bucket.\<close>

lemma ht_inv_bucket:
  assumes "ht_inv K ht" "i < ht_size ht \<Longrightarrow> chain_inv K (ht_buckets ht ! i) \<Longrightarrow> chain_inv K ns"
  shows "ht_inv K (ht\<lparr>ht_buckets := (ht_buckets ht)[i := ns]\<rparr>)"
proof (cases "i < ht_size ht")
  case True
  with assms have "chain_inv K ns" by (auto simp: ht_inv_def)
  with assms(1) show ?thesis
    by (auto simp: ht_inv_def dest!: set_update_subset_insert [THEN subsetD])
next
  case False
  with assms(1) show ?thesis by (simp add: ht_inv_def list_update_beyond)
qed

lemma ht_get_bucket:
  assumes "ht_inv K ht" "i = ht_index ht (key_mem k) (length k)"
    and "table_key K j" "table_key K k"
    and "chain_get (key_mem j) (length j) ns =
      (if j = k then r else chain_get (key_mem j) (length j) (ht_buckets ht ! i))"
  shows "hash_table_get (ht\<lparr>ht_buckets := (ht_buckets ht)[i := ns]\<rparr>) (key_mem j) (length j) =
    (if j = k then r else hash_table_get ht (key_mem j) (length j))"
  using assms ht_inv_index [OF assms(1), of "key_mem k" "length k"]
  by (auto simp: hash_table_get_def nth_list_update)

lemma ht_inv_put:
  "ht_inv K ht \<Longrightarrow> table_key K k \<Longrightarrow> ht_inv K (hash_table_put ht (key_mem k) v (length k))"
  unfolding hash_table_put_def Let_def
  by (rule ht_inv_bucket) (auto intro: chain_inv_put prefix_key_mem)

lemma ht_get_put:
  "ht_inv K ht \<Longrightarrow> table_key K k \<Longrightarrow> table_key K j \<Longrightarrow>
    hash_table_get (hash_table_put ht (key_mem k) v (length k)) (key_mem j) (length j) =
      (if j = k then Some v else hash_table_get ht (key_mem j) (length j))"
  unfolding hash_table_put_def Let_def
  by (rule ht_get_bucket) (auto simp: chain_get_put [OF _ _ prefix_key_mem])

lemma ht_inv_delete:
  "ht_inv K ht \<Longrightarrow> table_key K k \<Longrightarrow> ht_inv K (hash_table_delete ht (key_mem k) (length k))"
  unfolding hash_table_delete_def Let_def
  by (rule ht_inv_bucket)
    (auto simp: chain_delete_filter table_key_ne chain_inv_def [of K "_ ! _"]
      intro!: chain_inv_filter)

lemma ht_get_delete:
  assumes "ht_inv K ht" "table_key K k" "table_key K j"
  shows "hash_table_get (hash_table_delete ht (key_mem k) (length k)) (key_mem j) (length j) =
      (if j = k then None else hash_table_get ht (key_mem j) (length j))"
proof -
  let ?i = "ht_index ht (key_mem k) (length k)"
  have "ht_buckets ht ! ?i \<in> set (ht_buckets ht)"
    using ht_inv_index [OF assms(1)] by simp
  with assms(1,2) have "length (filter (\<lambda>nd. prefix k (node_key nd)) (ht_buckets ht ! ?i)) \<le> 1"
    by (auto simp: ht_inv_def chain_inv_def)
  then have "chain_delete (key_mem k) (length k) (ht_buckets ht ! ?i) =
      filter (\<lambda>nd. \<not> prefix k (node_key nd)) (ht_buckets ht ! ?i)"
    using table_key_ne [OF assms(2)] by (rule chain_delete_filter [rotated])
  with assms show ?thesis
    unfolding hash_table_delete_def Let_def
    by (intro ht_get_bucket) (auto simp: chain_get_filter)
qed

text \<open>Tables of 100 buckets (\<open>MAX_HASHTABLE_SIZE\<close>), for any prefix-free set of keys.\<close>

definition MAX_HASHTABLE_SIZE :: nat where
  "MAX_HASHTABLE_SIZE = 100"

interpretation ht: keyed_table "hash_table_create MAX_HASHTABLE_SIZE"
    "\<lambda>t k v. hash_table_put t (key_mem k) v (length k)"
    "\<lambda>t k. hash_table_get t (key_mem k) (length k)"
    "ht_inv K" "table_key K"
    "\<lambda>t k. hash_table_delete t (key_mem k) (length k)" for K
  by unfold_locales
    (auto simp: ht_inv_create ht_get_create MAX_HASHTABLE_SIZE_def ht_inv_put ht_get_put
      ht_inv_delete ht_get_delete)

subsection \<open>The nodes after an operation\<close>

lemma chain_update_nodes:
  "chain_update key n f ns = Some ns' \<Longrightarrow> nd \<in> set ns' \<Longrightarrow>
    nd \<in> set ns \<or> (\<exists>old\<in>set ns. nd = old\<lparr>node_value := f (node_value old)\<rparr>)"
  by (induction ns arbitrary: ns') (auto split: if_splits)

lemma set_concat_update:
  "nd \<in> set (concat (xs[i := y])) \<Longrightarrow> nd \<in> set (concat xs) \<or> i < length xs \<and> nd \<in> set y"
  using set_update_subset_insert [of xs i y]
  by (cases "i < length xs") (auto simp: list_update_beyond dest!: subsetD)

lemma nth_in_nodes: "i < length (ht_buckets ht) \<Longrightarrow> nd \<in> set (ht_buckets ht ! i) \<Longrightarrow> nd \<in> set (ht_nodes ht)"
  by (auto simp: ht_nodes_def)

text \<open>Where a node of the updated chain comes from, for each of the three operations.\<close>

lemma update_nodes:
  assumes "nd \<in> set (ht_nodes (ht\<lparr>ht_buckets := (ht_buckets ht)[i := ns]\<rparr>))"
    and "chain_update key n f (ht_buckets ht ! i) = Some ns"
  shows "nd \<in> set (ht_nodes ht) \<or>
    (\<exists>old\<in>set (ht_nodes ht). nd = old\<lparr>node_value := f (node_value old)\<rparr>)"
proof -
  from assms(1) consider "nd \<in> set (ht_nodes ht)" | "i < length (ht_buckets ht)" "nd \<in> set ns"
    unfolding ht_nodes_def by (auto dest!: set_concat_update simp del: set_concat)
  then show ?thesis
  proof cases
    case 2
    with chain_update_nodes [OF assms(2) 2(2)] nth_in_nodes [OF 2(1)] show ?thesis by blast
  qed simp
qed

lemma modify_nodes:
  "nd \<in> set (ht_nodes (hash_table_modify ht key n f)) \<Longrightarrow>
    nd \<in> set (ht_nodes ht) \<or> (\<exists>old\<in>set (ht_nodes ht). nd = old\<lparr>node_value := f (node_value old)\<rparr>)"
  using update_nodes [of nd ht "ht_index ht key n" _ key n f]
  by (auto simp: hash_table_modify_def Let_def split: option.splits)

lemma add_node_nodes:
  assumes "nd \<in> set (ht_nodes (ht\<lparr>ht_buckets := (ht_buckets ht)[i := new # ht_buckets ht ! i]\<rparr>))"
  shows "nd = new \<or> nd \<in> set (ht_nodes ht)"
proof -
  from assms consider "nd \<in> set (ht_nodes ht)" | "i < length (ht_buckets ht)" "nd \<in> set (new # ht_buckets ht ! i)"
    unfolding ht_nodes_def by (auto dest!: set_concat_update simp del: set_concat)
  then show ?thesis using nth_in_nodes by cases auto
qed

lemma add_node_set:
  assumes "i < length (ht_buckets ht)"
  shows "set (ht_nodes (ht\<lparr>ht_buckets := (ht_buckets ht)[i := new # ht_buckets ht ! i]\<rparr>)) =
    insert new (set (ht_nodes ht))"
proof -
  have "ht_buckets ht = take i (ht_buckets ht) @ ht_buckets ht ! i # drop (Suc i) (ht_buckets ht)"
    by (rule id_take_nth_drop [OF assms])
  then have "set (ht_nodes ht) = set (concat (take i (ht_buckets ht) @ ht_buckets ht ! i # drop (Suc i) (ht_buckets ht)))"
    by (simp only: ht_nodes_def)
  with assms show ?thesis by (auto simp: ht_nodes_def upd_conv_take_nth_drop)
qed

lemma put_nodes:
  assumes "nd \<in> set (ht_nodes (hash_table_put ht key v n))"
  shows "nd \<in> set (ht_nodes ht) \<or> nd = \<lparr>node_key = key, node_value = v\<rparr> \<or>
    (\<exists>old\<in>set (ht_nodes ht). nd = old\<lparr>node_value := v\<rparr>)"
  using assms update_nodes [of nd ht "ht_index ht key n" _ key n "\<lambda>_. v"]
    add_node_nodes [of nd ht "ht_index ht key n"]
  by (auto simp: hash_table_put_def chain_put_def Let_def split: option.splits)

lemma put_str_nodes:
  assumes "hash_table_put_str ht key v n block = Some ht'" "nd \<in> set (ht_nodes ht')"
  shows "nd \<in> set (ht_nodes ht) \<or>
    nd = \<lparr>node_key = take (key_size n) key @ drop (key_size n) block, node_value = v\<rparr> \<or>
    (\<exists>old\<in>set (ht_nodes ht). nd = old\<lparr>node_value := v\<rparr>)"
  using assms update_nodes [of nd ht "ht_index ht key n" _ key n "\<lambda>_. v"]
    add_node_nodes [of nd ht "ht_index ht key n"]
  by (auto simp: hash_table_put_str_def Let_def split: option.splits if_splits)

lemma get_in_nodes:
  assumes "ht_inv K ht" "hash_table_get ht key n = Some v"
  shows "\<exists>nd\<in>set (ht_nodes ht). node_value nd = v \<and> key_eq n (node_key nd) key"
proof -
  have "chain_get key n ns = Some v \<Longrightarrow> \<exists>nd\<in>set ns. node_value nd = v \<and> key_eq n (node_key nd) key" for ns
    by (induction ns) (auto split: if_splits)
  then show ?thesis
    using assms(2) nth_in_nodes [OF ht_inv_index [OF assms(1)]] unfolding hash_table_get_def by blast
qed

subsection \<open>Refinement of a partial map\<close>

datatype 'v table_op = TPut string 'v | TDel string

fun op_key :: "'v table_op \<Rightarrow> string" where
  "op_key (TPut k v) = k"
| "op_key (TDel k) = k"

fun table_step :: "'v hash_table \<Rightarrow> 'v table_op \<Rightarrow> 'v hash_table" where
  "table_step t (TPut k v) = hash_table_put t (key_mem k) v (length k)"
| "table_step t (TDel k) = hash_table_delete t (key_mem k) (length k)"

fun map_step :: "(string \<rightharpoonup> 'v) \<Rightarrow> 'v table_op \<Rightarrow> (string \<rightharpoonup> 'v)" where
  "map_step m (TPut k v) = m(k \<mapsto> v)"
| "map_step m (TDel k) = m(k := None)"

definition table_abs :: "string set \<Rightarrow> 'v hash_table \<Rightarrow> (string \<rightharpoonup> 'v)" where
  "table_abs K t = (\<lambda>k. if table_key K k then hash_table_get t (key_mem k) (length k) else None)"

lemma table_abs_get: "table_key K k \<Longrightarrow> hash_table_get t (key_mem k) (length k) = table_abs K t k"
  by (simp add: table_abs_def)

lemma table_step_inv: "ht_inv K t \<Longrightarrow> table_key K (op_key p) \<Longrightarrow> ht_inv K (table_step t p)"
  by (cases p) (auto simp: ht_inv_put ht_inv_delete)

lemma table_step_abs:
  "ht_inv K t \<Longrightarrow> table_key K (op_key p) \<Longrightarrow>
    table_abs K (table_step t p) = map_step (table_abs K t) p"
  by (cases p) (auto simp: table_abs_def fun_eq_iff ht_get_put ht_get_delete)

lemma table_run_abs:
  "ht_inv K t \<Longrightarrow> \<forall>p\<in>set ps. table_key K (op_key p) \<Longrightarrow>
    ht_inv K (foldl table_step t ps) \<and>
    table_abs K (foldl table_step t ps) = foldl map_step (table_abs K t) ps"
proof (induction ps arbitrary: t)
  case Nil
  then show ?case by simp
next
  case (Cons p ps)
  then show ?case
    using Cons.IH [of "table_step t p"] by (simp add: table_step_inv table_step_abs)
qed

text \<open>
  C18. On keys none of which is a proper prefix of another, any sequence of insertions
  and deletions on a new table of 100 buckets leaves exactly the bindings that the same
  sequence leaves in a partial map: no collision of hashes is visible.
\<close>

theorem hash_table_refines_map:
  assumes "\<forall>p\<in>set ps. table_key K (op_key p)" "table_key K k"
  shows "hash_table_get (foldl table_step (hash_table_create MAX_HASHTABLE_SIZE) ps)
      (key_mem k) (length k) = foldl map_step Map.empty ps k"
proof -
  let ?t = "hash_table_create MAX_HASHTABLE_SIZE :: 'a hash_table"
  have "table_abs K ?t = Map.empty"
    by (auto simp: table_abs_def fun_eq_iff ht.get_empty)
  with table_run_abs [OF ht.inv_empty assms(1)] assms(2) show ?thesis
    by (simp add: table_abs_get)
qed

lemma hash_table_refines_map_witness:
  "hash_table_get (foldl table_step (hash_table_create MAX_HASHTABLE_SIZE)
      [TPut ''a'' (1 :: nat), TPut ''b'' 2, TPut ''a'' 3, TDel ''b'']) (key_mem ''a'') 1 = Some 3"
proof -
  have "prefix_free {''a'', ''b''}" by (simp add: prefix_free_def)
  then show ?thesis
    using hash_table_refines_map [of "[TPut ''a'' (1 :: nat), TPut ''b'' 2, TPut ''a'' 3, TDel ''b'']"
        "{''a'', ''b''}" "''a''"]
    by (simp add: table_key_def)
qed

text \<open>
  The table confuses keys outside such a set: when a stored key extends the key that is
  looked up and both fall into one bucket, the lookup returns the value of the longer key.
\<close>

theorem hash_table_prefix_confusion:
  assumes "prefix k j" "k \<noteq> []" "0 < n" "n < 2 ^ 31"
    and "hash_func (key_mem k) n (length k) = hash_func (key_mem j) n (length j)"
  shows "hash_table_get (hash_table_put (hash_table_create n) (key_mem j) v (length j))
      (key_mem k) (length k) = Some v"
proof -
  let ?t = "hash_table_create n :: 'a hash_table"
  have j: "j \<noteq> []" using assms(1,2) by auto
  have i: "ht_index ?t (key_mem k) (length k) = ht_index ?t (key_mem j) (length j)"
    using assms(2,5) j by (simp add: ht_index_def hash_table_create_def key_size_def)
  have l: "ht_index ?t (key_mem j) (length j) < n"
    using ht_index_less [of ?t] assms(3,4) by (simp add: hash_table_create_def)
  have "prefix k (key_mem j)" using assms(1) by (auto simp: key_mem_def)
  with i l assms(2) show ?thesis
    by (simp add: hash_table_get_def hash_table_put_def Let_def chain_put_def key_eq_prefix)
      (simp add: hash_table_create_def chain_put_def key_eq_prefix)
qed

lemma hash_table_prefix_confusion_witness:
  "hash_table_get (hash_table_put (hash_table_create 100) (key_mem ''content/av'') (7 :: nat) 10)
    (key_mem ''content/a'') 9 = Some 7"
proof -
  have l: "length ''content/a'' = 9" "length ''content/av'' = 10" by simp_all
  have "hash_func (key_mem ''content/a'') 100 9 = hash_func (key_mem ''content/av'') 100 10"
    by (simp add: hash_func_def key_mem_def key_size_def schar_def)
  then show ?thesis
    by (intro hash_table_prefix_confusion [of "''content/a''" "''content/av''" 100, unfolded l])
      simp_all
qed

end
