(* ===== verification/ConfJson.thy ===== *)
theory ConfJson
  imports Conf JsonRound HashTable
begin

text \<open>
  The part of \<open>conf_utils.c\<close> that turns configurations, file maps and the network map into
  JSON text and back. \<open>None\<close> is undefined behaviour; where the code returns a pointer that
  can be \<open>NULL\<close>, the result is a second option. What \<open>malloc\<close> returns is not cleared, so
  the fields that \<open>json_to_node_config\<close> does not set keep the value \<open>init\<close> of the block.
\<close>

text \<open>
  The entry of a file: the path and the table of the uuids of the nodes that hold it. The
  fields \<open>hash\<close>, \<open>size\<close> and \<open>num_peers\<close> are never read and are left out; the values in
  \<open>peers\<close> are all \<open>true\<close>.
\<close>

record file_info =
  fi_path :: string
  fi_peers :: "unit hash_table option"

subsection \<open>Writing\<close>

text \<open>The loops over \<open>config->peers[0 .. peer_count - 1]\<close>.\<close>

definition peers_read :: "node_config \<Rightarrow> peer_info list option" where
  "peers_read config = those (map (peer_at config) [0..nc_peer_count config - 1])"

definition peer_obj :: "peer_info \<Rightarrow> cJSON" where
  "peer_obj p =
     (let obj = cJSON_CreateObject;
          obj = cJSON_AddStringToObject obj ''uuid'' (pi_uuid p);
          obj = cJSON_AddStringToObject obj ''last_seen'' (pi_last_seen p);
          obj = cJSON_AddStringToObject obj ''name'' (pi_name p);
          obj = cJSON_AddStringToObject obj ''host'' (pi_host p);
          obj = cJSON_AddNumberToObject obj ''frontend_port'' (pi_frontend_port p);
          obj = cJSON_AddNumberToObject obj ''backend_port'' (pi_backend_port p);
          obj = cJSON_AddNumberToObject obj ''weight'' (pi_weight p)
      in obj)"

definition file_info_to_json :: "file_info \<Rightarrow> cJSON" where
  "file_info_to_json info = cJSON_AddStringToObject cJSON_CreateObject ''path'' (fi_path info)"

definition file_map_to_json :: "file_info hash_table \<Rightarrow> cJSON option" where
  "file_map_to_json file_map = do {
     paths \<leftarrow> those (map (\<lambda>node. key_cstr (node_key node)) (ht_nodes file_map));
     Some (foldl (\<lambda>json (path, node). cJSON_AddItemToObject json path (file_info_to_json (node_value node)))
       cJSON_CreateObject (zip paths (ht_nodes file_map))) }"

definition config_obj :: "node_config \<Rightarrow> peer_info list \<Rightarrow> cJSON" where
  "config_obj config ps =
     (let json_root = cJSON_CreateObject;
          json_root = cJSON_AddStringToObject json_root ''uuid'' (nc_uuid config);
          json_root = cJSON_AddStringToObject json_root ''last_seen'' (nc_last_seen config);
          json_root = cJSON_AddStringToObject json_root ''name'' (nc_name config);
          json_root = cJSON_AddNumberToObject json_root ''frontend_port'' (nc_frontend_port config);
          json_root = cJSON_AddNumberToObject json_root ''backend_port'' (nc_backend_port config);
          json_root = cJSON_AddStringToObject json_root ''content_dir'' (nc_content_dir config);
          json_root = cJSON_AddNumberToObject json_root ''peer_count'' (nc_peer_count config);
          peers_array = foldl (\<lambda>a p. cJSON_AddItemToArray a (peer_obj p)) cJSON_CreateArray ps
      in cJSON_AddItemToObject json_root ''peers'' peers_array)"

definition node_config_to_json ::
  "node_config \<Rightarrow> bool \<Rightarrow> file_info hash_table option \<Rightarrow> string option" where
  "node_config_to_json config is_formatted config_files = do {
     ps \<leftarrow> peers_read config;
     let json_root = config_obj config ps;
     json_root \<leftarrow> (case config_files of
         None \<Rightarrow> Some json_root
       | Some files \<Rightarrow> do {
           config_files_ht \<leftarrow> file_map_to_json files;
           Some (cJSON_AddItemToObject json_root ''file_map'' config_files_ht) });
     if is_formatted then cJSON_Print json_root else cJSON_PrintUnformatted json_root }"

text \<open>
  \<open>get_json_config_uuid\<close>: without a \<open>node.conf\<close> the code calls \<open>fclose\<close> on the null pointer
  before it gets to write one.
\<close>

definition get_json_config_uuid :: "bool \<Rightarrow> node_config \<Rightarrow> string option" where
  "get_json_config_uuid node_conf_exists config =
     (if node_conf_exists
      then cJSON_Print (cJSON_AddStringToObject cJSON_CreateObject ''uuid'' (nc_uuid config))
      else None)"

definition get_config_value_by_key_json :: "node_config \<Rightarrow> string \<Rightarrow> bool \<Rightarrow> string option option" where
  "get_config_value_by_key_json config key pretty = do {
     value \<leftarrow>
       (if key = ''peers'' then do {
          ps \<leftarrow> peers_read config;
          Some (Some (foldl (\<lambda>a p. cJSON_AddItemToArray a (peer_obj p)) cJSON_CreateArray ps)) }
        else Some (
          if key = ''uuid'' then Some (cJSON_CreateString (nc_uuid config))
          else if key = ''last_seen'' then Some (cJSON_CreateString (nc_last_seen config))
          else if key = ''name'' then Some (cJSON_CreateString (nc_name config))
          else if key = ''frontend_port'' then Some (cJSON_CreateNumber (nc_frontend_port config))
          else if key = ''backend_port'' then Some (cJSON_CreateNumber (nc_backend_port config))
          else if key = ''content_dir'' then Some (cJSON_CreateString (nc_content_dir config))
          else if key = ''peer_count'' then Some (cJSON_CreateNumber (nc_peer_count config))
          else None));
     case value of
       None \<Rightarrow> Some None
     | Some v \<Rightarrow> map_option Some
         (let json_root = cJSON_AddItemToObject cJSON_CreateObject key v
          in if pretty then cJSON_Print json_root else cJSON_PrintUnformatted json_root) }"

definition hashmap_to_json :: "peer_info hash_table \<Rightarrow> string option" where
  "hashmap_to_json ht =
     cJSON_Print (foldl (\<lambda>json_root node.
       let config = node_value node;
           item = cJSON_CreateObject;
           item = cJSON_AddStringToObject item ''uuid'' (pi_uuid config);
           item = cJSON_AddStringToObject item ''name'' (pi_name config);
           item = cJSON_AddStringToObject item ''host'' (pi_host config);
           item = cJSON_AddNumberToObject item ''frontend_port'' (pi_frontend_port config);
           item = cJSON_AddNumberToObject item ''backend_port'' (pi_backend_port config);
           item = cJSON_AddNumberToObject item ''weight'' (pi_weight config)
       in cJSON_AddItemToObject json_root (pi_uuid config) item) cJSON_CreateObject (ht_nodes ht))"

text \<open>
  The network map, with the configurations that its pointers lead to. A null \<open>file_paths\<close>
  or a negative count gives no array, and adding no item changes nothing.
\<close>

definition file_paths_json :: "node_config \<Rightarrow> cJSON option option" where
  "file_paths_json config =
     (case nc_file_paths config of
        None \<Rightarrow> Some None
      | Some paths \<Rightarrow>
          if nc_num_file_paths config < 0 then Some None
          else if length paths < nat (nc_num_file_paths config) then None
          else Some (Some (cJSON_CreateStringArray (take (nat (nc_num_file_paths config)) paths))))"

definition add_item_opt :: "cJSON \<Rightarrow> string \<Rightarrow> cJSON option \<Rightarrow> cJSON" where
  "add_item_opt obj key item = (case item of None \<Rightarrow> obj | Some v \<Rightarrow> cJSON_AddItemToObject obj key v)"

definition map_entry_json :: "node_config \<Rightarrow> cJSON option" where
  "map_entry_json config = do {
     files \<leftarrow> file_paths_json config;
     ps \<leftarrow> peers_read config;
     let config_json = cJSON_CreateObject;
     let config_json = cJSON_AddStringToObject config_json ''uuid'' (nc_uuid config);
     let config_json = cJSON_AddStringToObject config_json ''last_seen'' (nc_last_seen config);
     let config_json = cJSON_AddStringToObject config_json ''name'' (nc_name config);
     let config_json = cJSON_AddStringToObject config_json ''host'' (nc_host config);
     let config_json = cJSON_AddNumberToObject config_json ''frontend_port'' (nc_frontend_port config);
     let config_json = cJSON_AddNumberToObject config_json ''backend_port'' (nc_backend_port config);
     let config_json = cJSON_AddStringToObject config_json ''content_dir'' (nc_content_dir config);
     let config_json = cJSON_AddNumberToObject config_json ''weight'' (nc_weight config);
     let config_json = cJSON_AddBoolToObject config_json ''is_online'' (nc_is_online config);
     let config_json = add_item_opt config_json ''file_paths'' files;
     let config_json = cJSON_AddNumberToObject config_json ''peer_count'' (nc_peer_count config);
     let peers_json = foldl (\<lambda>a p. cJSON_AddItemToArray a
       (cJSON_AddBoolToObject (peer_obj p) ''is_online'' (pi_is_online p))) cJSON_CreateArray ps;
     Some (cJSON_AddItemToObject config_json ''peers'' peers_json) }"

fun network_map_entries :: "node_config hash_node list \<Rightarrow> cJSON \<Rightarrow> cJSON option" where
  "network_map_entries [] json = Some json"
| "network_map_entries (node # nodes) json = do {
     config_json \<leftarrow> map_entry_json (node_value node);
     network_map_entries nodes
       (cJSON_AddItemToObject json (nc_uuid (node_value node)) config_json) }"

definition network_map_json :: "node_config hash_table \<Rightarrow> string option" where
  "network_map_json network_map = do {
     json \<leftarrow> network_map_entries (ht_nodes network_map) cJSON_CreateObject;
     cJSON_Print json }"

text \<open>One requested field; \<open>peer_count\<close> is given the weight, as in the code.\<close>

definition add_config_field :: "node_config \<Rightarrow> cJSON \<Rightarrow> string \<Rightarrow> cJSON" where
  "add_config_field config json_root s =
     (if s = ''uuid'' then cJSON_AddStringToObject json_root ''uuid'' (nc_uuid config)
      else if s = ''name'' then cJSON_AddStringToObject json_root ''name'' (nc_name config)
      else if s = ''host'' then cJSON_AddStringToObject json_root ''host'' (nc_host config)
      else if s = ''content_dir'' then cJSON_AddStringToObject json_root ''content_dir'' (nc_content_dir config)
      else if s = ''frontend_port'' then
        cJSON_AddNumberToObject json_root ''frontend_port'' (nc_frontend_port config)
      else if s = ''backend_port'' then
        cJSON_AddNumberToObject json_root ''backend_port'' (nc_backend_port config)
      else if s = ''weight'' then cJSON_AddNumberToObject json_root ''weight'' (nc_weight config)
      else if s = ''peer_count'' then cJSON_AddNumberToObject json_root ''peer_count'' (nc_weight config)
      else json_root)"

definition add_peer_field :: "peer_info \<Rightarrow> cJSON \<Rightarrow> string \<Rightarrow> cJSON" where
  "add_peer_field p json_root s =
     (if s = ''uuid'' then cJSON_AddStringToObject json_root ''uuid'' (pi_uuid p)
      else if s = ''name'' then cJSON_AddStringToObject json_root ''name'' (pi_name p)
      else if s = ''host'' then cJSON_AddStringToObject json_root ''host'' (pi_host p)
      else if s = ''frontend_port'' then
        cJSON_AddNumberToObject json_root ''frontend_port'' (pi_frontend_port p)
      else if s = ''backend_port'' then
        cJSON_AddNumberToObject json_root ''backend_port'' (pi_backend_port p)
      else if s = ''weight'' then cJSON_AddNumberToObject json_root ''weight'' (pi_weight p)
      else if s = ''is_online'' then cJSON_AddBoolToObject json_root ''is_online'' (pi_is_online p)
      else json_root)"

definition config_fields :: "string list \<Rightarrow> string list \<Rightarrow> node_config \<Rightarrow> cJSON option" where
  "config_fields config_strings peer_strings config = do {
     ps \<leftarrow> peers_read config;
     let json_root = foldl (add_config_field config) cJSON_CreateObject config_strings;
     let peers_array = foldl (\<lambda>a p. cJSON_AddItemToArray a
       (foldl (add_peer_field p) cJSON_CreateObject peer_strings)) cJSON_CreateArray ps;
     Some (if ''peers'' \<in> set config_strings
       then cJSON_AddItemToObject json_root ''peers'' peers_array else json_root) }"

definition get_config_fields_json :: "string list \<Rightarrow> string list \<Rightarrow> node_config \<Rightarrow> string option" where
  "get_config_fields_json config_strings peer_strings config = do {
     json_root \<leftarrow> config_fields config_strings peer_strings config;
     cJSON_Print json_root }"

fun all_configs ::
  "string list \<Rightarrow> string list \<Rightarrow> node_config hash_node list \<Rightarrow> cJSON \<Rightarrow> cJSON option" where
  "all_configs cs ps [] json = Some json"
| "all_configs cs ps (node # nodes) json = do {
     uuid \<leftarrow> key_cstr (node_key node);
     s \<leftarrow> get_config_fields_json cs ps (node_value node);
     all_configs cs ps nodes (add_item_opt json uuid (cJSON_Parse s)) }"

definition get_all_configs_json ::
  "string list \<Rightarrow> string list \<Rightarrow> node_config hash_table \<Rightarrow> string option" where
  "get_all_configs_json config_strings peer_strings ht = do {
     json_root \<leftarrow> all_configs config_strings peer_strings (ht_nodes ht) cJSON_CreateObject;
     cJSON_PrintUnformatted json_root }"

subsection \<open>Reading\<close>

text \<open>A field of the struct after its item, if there is one, was copied into it.\<close>

definition str_field :: "nat \<Rightarrow> cJSON option \<Rightarrow> string \<Rightarrow> string option" where
  "str_field n item old =
     (case item of
        None \<Rightarrow> Some old
      | Some v \<Rightarrow> (case json_valuestring v of None \<Rightarrow> Some old | Some s \<Rightarrow> strcpy_buf n s))"

definition int_field :: "cJSON option \<Rightarrow> int \<Rightarrow> int" where
  "int_field item old = (case item of None \<Rightarrow> old | Some v \<Rightarrow> json_valueint v)"

definition json_to_peer :: "peer_info \<Rightarrow> cJSON \<Rightarrow> peer_info option" where
  "json_to_peer old peer = do {
     uuid \<leftarrow> str_field UUID_SIZE (cJSON_GetObjectItem peer ''uuid'') (pi_uuid old);
     name \<leftarrow> str_field NAME_SIZE (cJSON_GetObjectItem peer ''name'') (pi_name old);
     host \<leftarrow> str_field NAME_SIZE (cJSON_GetObjectItem peer ''host'') (pi_host old);
     Some (old\<lparr>pi_uuid := uuid, pi_name := name, pi_host := host,
       pi_frontend_port := int_field (cJSON_GetObjectItem peer ''frontend_port'') (pi_frontend_port old),
       pi_backend_port := int_field (cJSON_GetObjectItem peer ''backend_port'') (pi_backend_port old),
       pi_weight := int_field (cJSON_GetObjectItem peer ''weight'') (pi_weight old)\<rparr>) }"

fun json_to_peers :: "peer_info list \<Rightarrow> cJSON list \<Rightarrow> peer_info list option" where
  "json_to_peers olds [] = Some olds"
| "json_to_peers [] (v # vs) = None"
| "json_to_peers (p # olds) (v # vs) = do {
     p' \<leftarrow> json_to_peer p v;
     ps \<leftarrow> json_to_peers olds vs;
     Some (p' # ps) }"

definition json_to_node_config :: "node_config \<Rightarrow> string \<Rightarrow> node_config option option" where
  "json_to_node_config init json_str =
     (case cJSON_Parse json_str of
        None \<Rightarrow> Some None
      | Some json_root \<Rightarrow> do {
          uuid \<leftarrow> str_field UUID_SIZE (cJSON_GetObjectItem json_root ''uuid'') (nc_uuid init);
          name \<leftarrow> str_field NAME_SIZE (cJSON_GetObjectItem json_root ''name'') (nc_name init);
          content_dir \<leftarrow> str_field NAME_SIZE (cJSON_GetObjectItem json_root ''content_dir'')
            (nc_content_dir init);
          let config = init\<lparr>nc_uuid := uuid, nc_name := name,
            nc_frontend_port := int_field (cJSON_GetObjectItem json_root ''frontend_port'')
              (nc_frontend_port init),
            nc_backend_port := int_field (cJSON_GetObjectItem json_root ''backend_port'')
              (nc_backend_port init),
            nc_content_dir := content_dir,
            nc_peer_count := int_field (cJSON_GetObjectItem json_root ''peer_count'')
              (nc_peer_count init)\<rparr>;
          case cJSON_GetObjectItem json_root ''peers'' of
            None \<Rightarrow> Some (Some config)
          | Some peers \<Rightarrow>
              if int MAX_PEERS < cJSON_GetArraySize peers then Some None
              else do {
                ps \<leftarrow> json_to_peers (nc_peers init) (map snd (json_children peers));
                Some (Some (config\<lparr>nc_peers := ps\<rparr>)) } })"

text \<open>What a function returns that gives back a pointer or one of its error codes as a pointer.\<close>

datatype config_ptr = ErrorPtr int | ConfigPtr node_config

definition url_path_to_config :: "node_config \<Rightarrow> string \<Rightarrow> config_ptr option" where
  "url_path_to_config init url_path =
     (case sscanf addneighbor_format url_path of
        [AStr uuid, AStr host, AInt frontend_port, AInt backend_port, AInt weight] \<Rightarrow> do {
          let json = cJSON_CreateObject;
          let json = cJSON_AddStringToObject json ''uuid'' uuid;
          let json = cJSON_AddStringToObject json ''last_seen'' [];
          let json = cJSON_AddStringToObject json ''name'' [];
          let json = cJSON_AddStringToObject json ''host'' host;
          let json = cJSON_AddNumberToObject json ''frontend_port'' frontend_port;
          let json = cJSON_AddNumberToObject json ''backend_port'' backend_port;
          let json = cJSON_AddNumberToObject json ''weight'' weight;
          let json = cJSON_AddItemToObject json ''file_paths'' cJSON_CreateArray;
          json_str \<leftarrow> cJSON_PrintUnformatted json;
          peer_config \<leftarrow> json_to_node_config init json_str;
          Some (case peer_config of None \<Rightarrow> ErrorPtr (- 1) | Some c \<Rightarrow> ConfigPtr c) }
      | _ \<Rightarrow> Some (ErrorPtr (- 1)))"

subsection \<open>What is written\<close>

lemma foldl_add_array:
  "foldl (\<lambda>a x. cJSON_AddItemToArray a (f x)) (JArray vs) xs = JArray (vs @ map f xs)"
  by (induction xs arbitrary: vs) auto

lemma foldl_add_object:
  "foldl (\<lambda>obj x. cJSON_AddItemToObject obj (k x) (f x)) (JObject ms) xs =
    JObject (ms @ map (\<lambda>x. (k x, f x)) xs)"
  by (induction xs arbitrary: ms) auto

lemma peers_read_live:
  assumes "length (nc_peers c) = MAX_PEERS" "nc_peer_count c \<le> int MAX_PEERS"
  shows "peers_read c = Some (live_peers c)"
proof -
  have those_map: "those (map f xs) = Some (map g xs)" if "\<forall>x\<in>set xs. f x = Some (g x)"
    for f :: "int \<Rightarrow> peer_info option" and g xs
    using that by (induction xs) auto
  have "\<forall>i\<in>set [0..nc_peer_count c - 1]. peer_at c i = Some (nc_peers c ! nat i)"
    using assms by (auto simp: peer_at_def)
  then have "peers_read c = Some (map (\<lambda>i. nc_peers c ! nat i) [0..nc_peer_count c - 1])"
    unfolding peers_read_def by (rule those_map)
  also have "map (\<lambda>i. nc_peers c ! nat i) [0..nc_peer_count c - 1] = live_peers c"
    by (rule nth_equalityI)
      (use assms in \<open>auto simp: live_peers_def\<close>)
  finally show ?thesis .
qed

lemma peers_read_ok: "config_ok c \<Longrightarrow> peers_read c = Some (live_peers c)"
  using config_okD(1,3) [of c] by (intro peers_read_live)

lemma live_peers_ok: "config_ok c \<Longrightarrow> p \<in> set (live_peers c) \<Longrightarrow> peer_ok p"
  by (auto simp: live_peers_def dest: in_set_takeD config_okD(4))

lemma live_peers_sub: "config_ok c \<Longrightarrow> length (live_peers c) \<le> MAX_PEERS"
  using config_okD(3) [of c] by (simp add: length_live_peers)

lemma json_ok_int [simp]: "is_i32 x \<Longrightarrow> json_ok (JNumber (of_int x))"
  by auto

lemma json_depth_le_array:
  "\<forall>v\<in>set vs. json_depth v \<le> n \<Longrightarrow> json_depth (JArray vs) \<le> Suc n"
  by simp

lemma json_depth_le_object:
  "\<forall>(k, v)\<in>set ms. json_depth v \<le> n \<Longrightarrow> json_depth (JObject ms) \<le> Suc n"
  by auto

lemma peer_obj_members:
  "peer_obj p = JObject [(''uuid'', JString (pi_uuid p)), (''last_seen'', JString (pi_last_seen p)),
     (''name'', JString (pi_name p)), (''host'', JString (pi_host p)),
     (''frontend_port'', JNumber (of_int (pi_frontend_port p))),
     (''backend_port'', JNumber (of_int (pi_backend_port p))),
     (''weight'', JNumber (of_int (pi_weight p)))]"
  by (simp add: peer_obj_def json_build)

lemma peer_obj_ok: "peer_ok p \<Longrightarrow> json_ok (peer_obj p) \<and> json_depth (peer_obj p) = 1"
  by (auto simp: peer_obj_members peer_ok_def field_ok_def)

lemma config_obj_members:
  "config_obj c ps = JObject [(''uuid'', JString (nc_uuid c)),
     (''last_seen'', JString (nc_last_seen c)), (''name'', JString (nc_name c)),
     (''frontend_port'', JNumber (of_int (nc_frontend_port c))),
     (''backend_port'', JNumber (of_int (nc_backend_port c))),
     (''content_dir'', JString (nc_content_dir c)),
     (''peer_count'', JNumber (of_int (nc_peer_count c))), (''peers'', JArray (map peer_obj ps))]"
  by (simp add: config_obj_def json_build foldl_add_array)

lemma peer_count_i32: "config_ok c \<Longrightarrow> is_i32 (nc_peer_count c)"
  using config_okD(2,3) [of c] by (simp add: is_i32_def INT_MAX_def INT_MIN_def MAX_PEERS_def)

lemma config_obj_ok:
  assumes "config_ok c"
  shows "json_ok (config_obj c (live_peers c)) \<and> json_depth (config_obj c (live_peers c)) \<le> 3"
proof -
  have "\<forall>v\<in>set (map peer_obj (live_peers c)). json_ok v \<and> json_depth v \<le> 1"
    using live_peers_ok [OF assms] peer_obj_ok by auto
  then have "json_ok (JArray (map peer_obj (live_peers c)))"
    "json_depth (JArray (map peer_obj (live_peers c))) \<le> 2"
    using json_depth_le_array [of "map peer_obj (live_peers c)" 1] by auto
  then show ?thesis
    using assms peer_count_i32 [OF assms]
    by (auto simp: config_obj_members config_ok_def field_ok_def simp del: json_depth.simps(1)
        intro!: json_depth_le_object [of _ 2, simplified])
qed

definition files_ok :: "file_info hash_table \<Rightarrow> bool" where
  "files_ok files \<longleftrightarrow>
     (\<forall>nd\<in>set (ht_nodes files). NUL \<in> set (node_key nd) \<and> cstring (fi_path (node_value nd)))"

lemma those_all: "\<forall>x\<in>set xs. f x = Some (g x) \<Longrightarrow> those (map f xs) = Some (map g xs)"
  by (induction xs) auto

lemma file_map_to_json_members:
  assumes "files_ok files"
  shows "file_map_to_json files = Some (JObject (map (\<lambda>nd. (c_str (node_key nd),
    JObject [(''path'', JString (fi_path (node_value nd)))])) (ht_nodes files)))"
proof -
  have "those (map (\<lambda>node. key_cstr (node_key node)) (ht_nodes files)) =
      Some (map (\<lambda>nd. c_str (node_key nd)) (ht_nodes files))"
    using assms by (intro those_all) (auto simp: files_ok_def key_cstr_def)
  moreover have "foldl (\<lambda>json (path, node). cJSON_AddItemToObject json path (file_info_to_json (node_value node)))
      (JObject ms) (zip (map g nds) nds) =
      JObject (ms @ map (\<lambda>nd. (g nd, file_info_to_json (node_value nd))) nds)"
    for ms nds and g :: "file_info hash_node \<Rightarrow> string"
    by (induction nds arbitrary: ms) auto
  ultimately show ?thesis
    by (simp add: file_map_to_json_def file_info_to_json_def json_build)
qed

lemma file_map_to_json_ok:
  assumes "files_ok files" "file_map_to_json files = Some j"
  shows "json_ok j \<and> json_depth j \<le> 2"
proof -
  have "j = JObject (map (\<lambda>nd. (c_str (node_key nd),
      JObject [(''path'', JString (fi_path (node_value nd)))])) (ht_nodes files))"
    using file_map_to_json_members [OF assms(1)] assms(2) by simp
  with assms(1) show ?thesis
    by (auto simp: files_ok_def simp del: json_depth.simps(2)
        intro!: json_depth_le_object [of _ 1, simplified]) (auto simp: json_depth.simps(2))
qed

lemma print_elems_ok:
  "\<forall>v\<in>set vs. print_value fmt d v \<noteq> None \<Longrightarrow> print_elems fmt d vs \<noteq> None"
  by (induction vs) auto

lemma print_members_ok:
  "\<forall>(k, v)\<in>set ms. print_value fmt d v \<noteq> None \<Longrightarrow> print_members fmt d ms \<noteq> None"
  by (induction ms) auto

lemma print_ok: "json_ok v \<Longrightarrow> print_value fmt d v \<noteq> None"
proof (induction v arbitrary: d)
  case (JArray vs)
  then have "print_elems fmt (Suc d) vs \<noteq> None" by (intro print_elems_ok) auto
  then show ?case by auto
next
  case (JObject ms)
  then have "print_members fmt (Suc d) ms \<noteq> None" by (intro print_members_ok) fastforce
  then show ?case by auto
qed (auto simp: print_number_def num_int_of_int)

lemma hex_digit_cstring: "n < 16 \<Longrightarrow> hex_digit n \<noteq> NUL"
proof -
  have "\<forall>n\<in>set [0..<16]. hex_digit n \<noteq> NUL" by code_simp
  then show "n < 16 \<Longrightarrow> hex_digit n \<noteq> NUL" by simp
qed

lemma escape_char_cstring: "c \<noteq> NUL \<Longrightarrow> cstring (escape_char c)"
proof -
  assume c: "c \<noteq> NUL"
  have "nat (uchar c) < 16 * 16" using uchar_range [of c] by (simp add: nat_less_iff)
  then have "nat (uchar c) div 16 < 16" by (rule less_mult_imp_div_less)
  with c hex_digit_cstring [of "nat (uchar c) div 16"] hex_digit_cstring [of "nat (uchar c) mod 16"]
  show ?thesis by (simp add: escape_char_def BACKSLASH_def)
qed

lemma print_string_cstring: "cstring s \<Longrightarrow> cstring (print_string_ptr s)"
proof -
  assume "cstring s"
  then have "cstring (concat (map escape_char s))"
    by (induction s) (simp_all add: escape_char_cstring)
  then show ?thesis by (simp add: print_string_ptr_def)
qed

lemma show_int_cstring: "cstring (show_int x)"
  using show_int_chars [of NUL x] by (auto simp: cstring_def isdigit_def uchar_def)

lemma print_elems_cstring:
  assumes "\<forall>v\<in>set vs. \<forall>s. print_value fmt d v = Some s \<longrightarrow> cstring s"
  shows "print_elems fmt d vs = Some s \<Longrightarrow> cstring s"
  using assms by (induction vs arbitrary: s) (auto simp: bind_Some_iff)

lemma print_members_cstring:
  assumes "\<forall>(k, v)\<in>set ms. cstring k \<and> (\<forall>s. print_value fmt d v = Some s \<longrightarrow> cstring s)"
  shows "print_members fmt d ms = Some s \<Longrightarrow> cstring s"
  using assms
  by (induction ms arbitrary: s)
    (auto simp: bind_Some_iff print_string_cstring cstring_def [of "replicate _ _"])

lemma print_cstring: "json_ok v \<Longrightarrow> print_value fmt d v = Some s \<Longrightarrow> cstring s"
proof (induction v arbitrary: d s)
  case (JArray vs)
  have "cstring t" if "print_elems fmt (Suc d) vs = Some t" for t
    by (rule print_elems_cstring [OF _ that]) (use JArray in auto)
  with JArray.prems(2) show ?case by (auto simp: bind_Some_iff)
next
  case (JObject ms)
  have "cstring t" if "print_members fmt (Suc d) ms = Some t" for t
    by (rule print_members_cstring [OF _ that]) (use JObject in fastforce)
  with JObject.prems(2) show ?case by (auto simp: bind_Some_iff cstring_def [of "replicate _ _"])
next
  case (JNumber q)
  then show ?case by (auto simp: print_number_def show_int_cstring split: if_splits)
qed (auto simp: print_string_cstring)

lemma print_and_parse:
  assumes "json_ok v" "json_depth v \<le> 1000"
  shows "\<exists>s. print_value fmt 0 v = Some s \<and> cJSON_Parse s = Some v"
proof -
  obtain s where s: "print_value fmt 0 v = Some s"
    using print_ok [OF assms(1), of fmt 0] by blast
  moreover have "cJSON_Parse s = Some v"
    using assms by (intro parse_print [OF _ _ s]) (simp_all add: CJSON_NESTING_LIMIT_def)
  ultimately show ?thesis by blast
qed

subsection \<open>Sending a configuration\<close>

definition received_peer :: "peer_info \<Rightarrow> peer_info \<Rightarrow> peer_info" where
  "received_peer old p = old\<lparr>pi_uuid := pi_uuid p, pi_name := pi_name p, pi_host := pi_host p,
     pi_frontend_port := pi_frontend_port p, pi_backend_port := pi_backend_port p,
     pi_weight := pi_weight p\<rparr>"

definition received_config :: "node_config \<Rightarrow> node_config \<Rightarrow> node_config" where
  "received_config init c = init\<lparr>nc_uuid := nc_uuid c, nc_name := nc_name c,
     nc_frontend_port := nc_frontend_port c, nc_backend_port := nc_backend_port c,
     nc_content_dir := nc_content_dir c, nc_peer_count := nc_peer_count c,
     nc_peers := map2 received_peer (nc_peers init) (live_peers c) @
       drop (length (live_peers c)) (nc_peers init)\<rparr>"

lemma json_to_peer_obj: "peer_ok p \<Longrightarrow> json_to_peer old (peer_obj p) = Some (received_peer old p)"
  by (simp add: json_to_peer_def peer_obj_members cJSON_GetObjectItem_def case_insensitive_eq_def
      tolower_def uchar_def str_field_def int_field_def peer_ok_def field_ok_def num_int_of_int
      received_peer_def strcpy_buf_def fits_def)

lemma json_to_peers_objs:
  "\<forall>p\<in>set ps. peer_ok p \<Longrightarrow> length ps \<le> length olds \<Longrightarrow>
    json_to_peers olds (map peer_obj ps) =
      Some (map2 received_peer olds ps @ drop (length ps) olds)"
proof (induction ps arbitrary: olds)
  case (Cons p ps)
  then obtain q qs where "olds = q # qs" by (cases olds) auto
  with Cons show ?case by (simp add: json_to_peer_obj)
qed simp

text \<open>What is sent is a C string, and the receiver finds the file map in it.\<close>

lemma node_config_sent:
  assumes "config_ok c" "length (nc_peers init) = MAX_PEERS"
    and "\<forall>f. files = Some f \<longrightarrow> files_ok f"
  shows "\<exists>s j. node_config_to_json c fmt files = Some s \<and> cstring s \<and> cJSON_Parse s = Some j \<and>
    cJSON_GetObjectItem j ''file_map'' = Option.bind files file_map_to_json \<and>
    json_to_node_config init s = Some (Some (received_config init c))"
proof -
  let ?base = "config_obj c (live_peers c)"
  obtain ms where ms: "?base = JObject ms" by (simp add: config_obj_members)
  have no_files: "cJSON_GetObjectItem (JObject ms) ''file_map'' = None"
    using ms by (auto simp: config_obj_members cJSON_GetObjectItem_def case_insensitive_eq_def
      tolower_def uchar_def)
  obtain extra where extra: "json_ok (JObject (ms @ extra)) \<and> json_depth (JObject (ms @ extra)) \<le> 4"
    "cJSON_GetObjectItem (JObject (ms @ extra)) ''file_map'' = Option.bind files file_map_to_json"
    "(case files of None \<Rightarrow> Some ?base
      | Some f \<Rightarrow> file_map_to_json f \<bind> (\<lambda>j. Some (cJSON_AddItemToObject ?base ''file_map'' j))) =
     Some (JObject (ms @ extra))"
  proof (cases files)
    case None
    have "json_ok ?base \<and> json_depth ?base \<le> 4" using config_obj_ok [OF assms(1)] by simp
    with None ms no_files show thesis by (intro that [of "[]"]) simp_all
  next
    case (Some f)
    then have f: "files_ok f" using assms(3) by blast
    then obtain j where j: "file_map_to_json f = Some j"
      by (simp add: file_map_to_json_members)
    have "json_ok (JObject (ms @ [(''file_map'', j)])) \<and>
        json_depth (JObject (ms @ [(''file_map'', j)])) \<le> 4"
      using config_obj_ok [OF assms(1)] file_map_to_json_ok [OF f j] ms by auto
    moreover have "cJSON_GetObjectItem (JObject (ms @ [(''file_map'', j)])) ''file_map'' = Some j"
      using ms by (auto simp: config_obj_members cJSON_GetObjectItem_def case_insensitive_eq_def
        tolower_def uchar_def)
    ultimately show thesis using Some j ms by (intro that [of "[(''file_map'', j)]"]) simp_all
  qed
  have "json_depth (JObject (ms @ extra)) \<le> 1000" using extra(1) by linarith
  from print_and_parse [OF conjunct1 [OF extra(1)] this]
  obtain s where s: "print_value fmt 0 (JObject (ms @ extra)) = Some s"
    "cJSON_Parse s = Some (JObject (ms @ extra))"
    by blast
  have "node_config_to_json c fmt files = Some s"
    using s(1) extra(3)
    by (cases files; cases fmt)
      (auto simp: node_config_to_json_def peers_read_ok [OF assms(1)] cJSON_Print_def
        cJSON_PrintUnformatted_def bind_Some_iff)
  moreover have "json_to_node_config init s = Some (Some (received_config init c))"
  proof -
    have "length (live_peers c) \<le> MAX_PEERS" by (rule live_peers_sub [OF assms(1)])
    then have "\<not> int MAX_PEERS < cJSON_GetArraySize (JArray (map peer_obj (live_peers c)))"
      using i32_id [of "int (length (live_peers c))"]
      by (simp add: cJSON_GetArraySize_def is_i32_def INT_MAX_def INT_MIN_def MAX_PEERS_def)
    moreover have "json_to_peers (nc_peers init) (map peer_obj (live_peers c)) =
        Some (map2 received_peer (nc_peers init) (live_peers c) @
          drop (length (live_peers c)) (nc_peers init))"
      using live_peers_ok [OF assms(1)] live_peers_sub [OF assms(1)] assms(2)
      by (intro json_to_peers_objs) auto
    ultimately show ?thesis
      using s(2) assms(1) ms [symmetric] peer_count_i32 [OF assms(1)]
      by (simp add: json_to_node_config_def config_obj_members cJSON_GetObjectItem_def
          case_insensitive_eq_def tolower_def uchar_def str_field_def int_field_def config_ok_def
          field_ok_def num_int_of_int received_config_def strcpy_buf_def fits_def comp_def)
  qed
  ultimately show ?thesis using s extra(1,2) print_cstring [OF _ s(1)] by blast
qed

text \<open>
  C17. A configuration that one node prints, with or without its file map, is read by
  another node without undefined behaviour, and every field the reader takes has the value
  the sender had: the identity, the ports, the directory and all its peers.
\<close>

theorem node_config_json_roundtrip:
  assumes "config_ok c" "length (nc_peers init) = MAX_PEERS"
    and "\<forall>f. files = Some f \<longrightarrow> files_ok f"
  shows "\<exists>s. node_config_to_json c fmt files = Some s \<and>
    json_to_node_config init s = Some (Some (received_config init c))"
  using node_config_sent [OF assms] by blast

lemma global_config_init_simps:
  "nc_uuid global_config_init = ''uuid''" "nc_peer_count global_config_init = 0"
  "live_peers global_config_init = []" "length (nc_peers global_config_init) = MAX_PEERS"
  "nc_weight global_config_init = 0" "nc_name global_config_init = ''name''"
  "nc_file_paths global_config_init = None" "nc_content_dir global_config_init = ''content/''"
  by (simp_all add: global_config_init_def live_peers_def MAX_PEERS_def)

lemma node_config_json_roundtrip_witness:
  "\<exists>s. node_config_to_json (global_config_init\<lparr>nc_name := ''n1''\<rparr>) True None = Some s \<and>
    map_option (map_option nc_name) (json_to_node_config global_config_init s) = Some (Some ''n1'')"
proof -
  let ?c = "global_config_init\<lparr>nc_name := ''n1''\<rparr>"
  have "config_ok ?c" using global_config_init_ok by (simp add: config_ok_def field_ok_def)
  from node_config_json_roundtrip [OF this global_config_init_simps(4), of None True]
  show ?thesis by (auto simp: received_config_def)
qed

subsection \<open>A neighbour of a request\<close>

text \<open>
  \<open>url_path_to_config\<close> of a well-formed request: the new configuration has the uuid, an
  empty name and the ports of the request, but neither its host nor its metric, nor a peer
  count: those fields are whatever the allocated block held.
\<close>

theorem url_path_to_config_query:
  assumes "query_field 36 u" "cstring u" "query_field 255 h" "cstring h"
    and "is_i32 f" "is_i32 b" "is_i32 w"
  shows "url_path_to_config init (peer_query u h f b w) =
    Some (ConfigPtr (init\<lparr>nc_uuid := u, nc_name := [], nc_frontend_port := f,
      nc_backend_port := b\<rparr>))"
proof -
  note args = addneighbor_scan [OF assms(1,3,5-7)]
  let ?j = "JObject [(''uuid'', JString u), (''last_seen'', JString []), (''name'', JString []),
    (''host'', JString h), (''frontend_port'', JNumber (of_int f)),
    (''backend_port'', JNumber (of_int b)), (''weight'', JNumber (of_int w)),
    (''file_paths'', JArray [])]"
  have "json_ok ?j" "json_depth ?j \<le> 1000" using assms by auto
  from print_and_parse [OF this, of False]
  obtain s where s: "cJSON_PrintUnformatted ?j = Some s" "cJSON_Parse s = Some ?j"
    unfolding cJSON_PrintUnformatted_def by blast
  have "json_to_node_config init s = Some (Some (init\<lparr>nc_uuid := u, nc_name := [],
      nc_frontend_port := f, nc_backend_port := b\<rparr>))"
    using s(2) assms
    by (simp add: json_to_node_config_def cJSON_GetObjectItem_def case_insensitive_eq_def
        tolower_def uchar_def str_field_def int_field_def num_int_of_int query_field_def
        strcpy_buf_def fits_def)
  with s(1) args show ?thesis
    by (simp add: url_path_to_config_def json_build)
qed

lemma url_path_to_config_query_witness:
  "url_path_to_config global_config_init (peer_query ''n2'' ''remote'' 1 2 30) =
    Some (ConfigPtr (global_config_init\<lparr>nc_uuid := ''n2'', nc_name := [], nc_frontend_port := 1,
      nc_backend_port := 2\<rparr>))"
  by (rule url_path_to_config_query)
    (simp_all add: query_field_def is_i32_def INT_MAX_def INT_MIN_def)

subsection \<open>Chosen fields of a configuration\<close>

text \<open>The members that a list of requested field names stands for.\<close>

fun config_member :: "node_config \<Rightarrow> string \<Rightarrow> (string \<times> cJSON) list" where
  "config_member c s =
     (case map_of [(''uuid'', JString (nc_uuid c)), (''name'', JString (nc_name c)),
        (''host'', JString (nc_host c)), (''content_dir'', JString (nc_content_dir c)),
        (''frontend_port'', JNumber (of_int (nc_frontend_port c))),
        (''backend_port'', JNumber (of_int (nc_backend_port c))),
        (''weight'', JNumber (of_int (nc_weight c))),
        (''peer_count'', JNumber (of_int (nc_weight c)))] s of
      None \<Rightarrow> [] | Some v \<Rightarrow> [(s, v)])"

fun peer_member :: "peer_info \<Rightarrow> string \<Rightarrow> (string \<times> cJSON) list" where
  "peer_member p s =
     (case map_of [(''uuid'', JString (pi_uuid p)), (''name'', JString (pi_name p)),
        (''host'', JString (pi_host p)),
        (''frontend_port'', JNumber (of_int (pi_frontend_port p))),
        (''backend_port'', JNumber (of_int (pi_backend_port p))),
        (''weight'', JNumber (of_int (pi_weight p))),
        (''is_online'', if pi_is_online p then JTrue else JFalse)] s of
      None \<Rightarrow> [] | Some v \<Rightarrow> [(s, v)])"

definition config_members :: "string list \<Rightarrow> string list \<Rightarrow> node_config \<Rightarrow> (string \<times> cJSON) list" where
  "config_members cs ps c = concat (map (config_member c) cs) @
     (if ''peers'' \<in> set cs
      then [(''peers'', JArray (map (\<lambda>p. JObject (concat (map (peer_member p) ps))) (live_peers c)))]
      else [])"

lemma add_config_field_members:
  "foldl (add_config_field c) (JObject ms) cs = JObject (ms @ concat (map (config_member c) cs))"
  by (induction cs arbitrary: ms) (auto simp: add_config_field_def json_build)

lemma add_peer_field_members:
  "foldl (add_peer_field p) (JObject ms) ps = JObject (ms @ concat (map (peer_member p) ps))"
  by (induction ps arbitrary: ms) (auto simp: add_peer_field_def json_build)

lemma config_fields_members:
  "config_ok c \<Longrightarrow> config_fields cs ps c = Some (JObject (config_members cs ps c))"
  by (simp add: config_fields_def peers_read_ok config_members_def json_build foldl_add_array
      add_config_field_members add_peer_field_members)

definition members_ok :: "nat \<Rightarrow> (string \<times> cJSON) list \<Rightarrow> bool" where
  "members_ok n ms \<longleftrightarrow> (\<forall>m\<in>set ms. cstring (fst m) \<and> json_ok (snd m) \<and> json_depth (snd m) \<le> n)"

lemma members_ok_append: "members_ok n (a @ b) \<longleftrightarrow> members_ok n a \<and> members_ok n b"
  by (auto simp: members_ok_def)

lemma members_ok_concat: "\<forall>x\<in>set xs. members_ok n (f x) \<Longrightarrow> members_ok n (concat (map f xs))"
  by (induction xs) (auto simp: members_ok_append members_ok_def)

lemma members_ok_object:
  "members_ok n ms \<Longrightarrow> json_ok (JObject ms) \<and> json_depth (JObject ms) \<le> Suc n"
  by (auto simp: members_ok_def)

lemma config_member_ok: "config_ok c \<Longrightarrow> members_ok 0 (config_member c s)"
  by (auto simp: members_ok_def config_ok_def field_ok_def split: if_splits)

lemma peer_member_ok: "peer_ok p \<Longrightarrow> members_ok 0 (peer_member p s)"
  by (auto simp: members_ok_def peer_ok_def field_ok_def split: if_splits)

lemma members_ok_mono: "members_ok m ms \<Longrightarrow> m \<le> n \<Longrightarrow> members_ok n ms"
  by (auto simp: members_ok_def)

lemma members_ok_single:
  "json_ok v \<Longrightarrow> json_depth v \<le> n \<Longrightarrow> cstring k \<Longrightarrow> members_ok n [(k, v)]"
  by (simp add: members_ok_def)

lemma config_members_ok:
  assumes "config_ok c"
  shows "members_ok 2 (config_members cs ps c)"
proof -
  let ?peer = "\<lambda>p. JObject (concat (map (peer_member p) ps))"
  let ?peers = "map ?peer (live_peers c)"
  have "json_ok (?peer p) \<and> json_depth (?peer p) \<le> Suc 0" if "p \<in> set (live_peers c)" for p
    by (intro members_ok_object members_ok_concat ballI peer_member_ok live_peers_ok [OF assms that])
  then have all: "json_ok v \<and> json_depth v \<le> Suc 0" if "v \<in> set ?peers" for v
    using that unfolding set_map by (elim imageE) (simp only:)
  have "json_ok (JArray ?peers)" unfolding json_ok.simps by (rule ballI, drule all, erule conjunct1)
  moreover have "json_depth (JArray ?peers) \<le> Suc (Suc 0)"
    by (rule json_depth_le_array, rule ballI, drule all, erule conjunct2)
  ultimately have "members_ok (Suc (Suc 0)) [(''peers'', JArray ?peers)]"
    by (rule members_ok_single) simp
  then have pk: "members_ok 2 [(''peers'', JArray ?peers)]" by (simp only: numeral_2_eq_2)
  have "members_ok 2 (concat (map (config_member c) cs))"
    by (rule members_ok_mono [of 0]) (intro members_ok_concat ballI config_member_ok assms, simp)
  moreover have "members_ok 2 []" by (simp add: members_ok_def)
  ultimately show ?thesis using pk by (simp only: config_members_def members_ok_append simp_thms split: if_split)
qed

lemma members_print_and_parse:
  assumes "members_ok n ms" "n < 1000"
  shows "\<exists>s. print_value fmt 0 (JObject ms) = Some s \<and> cJSON_Parse s = Some (JObject ms)"
proof (rule print_and_parse)
  show "json_ok (JObject ms)" using members_ok_object [OF assms(1)] by blast
  show "json_depth (JObject ms) \<le> 1000" using members_ok_object [OF assms(1)] assms(2) by linarith
qed

text \<open>
  \<open>get_config_fields_json\<close> prints an object with exactly the requested fields that it
  knows, in the order of the request, the peers last. The value under \<open>peer_count\<close> is the
  node's weight and not the number of its peers.
\<close>

theorem get_config_fields_json_members:
  assumes "config_ok c"
  shows "\<exists>s. get_config_fields_json cs ps c = Some s \<and>
    cJSON_Parse s = Some (JObject (config_members cs ps c))"
  using members_print_and_parse [OF config_members_ok [OF assms, of cs ps], of True]
  by (auto simp: get_config_fields_json_def config_fields_members [OF assms] cJSON_Print_def
      simp del: print_value.simps)

lemma get_config_fields_json_members_witness:
  "\<exists>s. get_config_fields_json [''uuid'', ''peer_count''] [] (global_config_init\<lparr>nc_weight := 7\<rparr>) =
      Some s \<and>
    cJSON_Parse s = Some (JObject [(''uuid'', JString ''uuid''), (''peer_count'', JNumber 7)])"
proof -
  let ?c = "global_config_init\<lparr>nc_weight := 7\<rparr>"
  have "config_ok ?c"
    using global_config_init_ok by (simp add: config_ok_def is_i32_def INT_MAX_def INT_MIN_def)
  from get_config_fields_json_members [OF this, of "[''uuid'', ''peer_count'']" "[]"]
  show ?thesis by (simp add: config_members_def global_config_init_simps)
qed

subsection \<open>The network map\<close>

definition map_entry :: "node_config \<Rightarrow> cJSON" where
  "map_entry c = JObject [(''uuid'', JString (nc_uuid c)), (''last_seen'', JString (nc_last_seen c)),
     (''name'', JString (nc_name c)), (''host'', JString (nc_host c)),
     (''frontend_port'', JNumber (of_int (nc_frontend_port c))),
     (''backend_port'', JNumber (of_int (nc_backend_port c))),
     (''content_dir'', JString (nc_content_dir c)), (''weight'', JNumber (of_int (nc_weight c))),
     (''is_online'', if nc_is_online c then JTrue else JFalse),
     (''peer_count'', JNumber (of_int (nc_peer_count c))),
     (''peers'', JArray (map (\<lambda>p. cJSON_AddBoolToObject (peer_obj p) ''is_online'' (pi_is_online p))
        (live_peers c)))]"

lemma map_entry_json_entry:
  "config_ok c \<Longrightarrow> nc_file_paths c = None \<Longrightarrow> map_entry_json c = Some (map_entry c)"
  by (simp add: map_entry_json_def file_paths_json_def peers_read_ok json_build add_item_opt_def
      map_entry_def foldl_add_array)

lemma map_entry_ok:
  assumes "config_ok c"
  shows "json_ok (map_entry c) \<and> json_depth (map_entry c) \<le> 3"
proof -
  let ?peer = "\<lambda>p. cJSON_AddBoolToObject (peer_obj p) ''is_online'' (pi_is_online p)"
  have "\<forall>v\<in>set (map ?peer (live_peers c)). json_ok v \<and> json_depth v \<le> 1"
    using live_peers_ok [OF assms]
    by (auto simp: peer_obj_members json_build peer_ok_def field_ok_def)
  then have "json_ok (JArray (map ?peer (live_peers c)))"
    "json_depth (JArray (map ?peer (live_peers c))) \<le> 2"
    using json_depth_le_array [of "map ?peer (live_peers c)" 1] by auto
  then show ?thesis
    using assms peer_count_i32 [OF assms]
    by (auto simp: map_entry_def config_ok_def field_ok_def simp del: json_depth.simps(1)
        intro!: json_depth_le_object [of _ 2, simplified])
qed

lemma network_map_entries_members:
  "\<forall>nd\<in>set nodes. config_ok (node_value nd) \<and> nc_file_paths (node_value nd) = None \<Longrightarrow>
    network_map_entries nodes (JObject ms) =
      Some (JObject (ms @ map (\<lambda>nd. (nc_uuid (node_value nd), map_entry (node_value nd))) nodes))"
  by (induction nodes arbitrary: ms) (auto simp: map_entry_json_entry)

text \<open>
  The text of the network map is a JSON object with one member for every node of the
  map, in the order of the buckets, that holds all its fields and its peers.
\<close>

theorem network_map_json_members:
  assumes "\<forall>nd\<in>set (ht_nodes m). config_ok (node_value nd) \<and> nc_file_paths (node_value nd) = None"
  shows "\<exists>s. network_map_json m = Some s \<and>
    cJSON_Parse s = Some (JObject (map (\<lambda>nd. (nc_uuid (node_value nd), map_entry (node_value nd)))
      (ht_nodes m)))"
proof -
  let ?ms = "map (\<lambda>nd. (nc_uuid (node_value nd), map_entry (node_value nd))) (ht_nodes m)"
  have all: "\<forall>(k, v)\<in>set ?ms. cstring k \<and> json_ok v \<and> json_depth v \<le> 3"
    using assms map_entry_ok by (auto simp: config_ok_def field_ok_def)
  then have "json_ok (JObject ?ms)" by fastforce
  moreover have "json_depth (JObject ?ms) \<le> Suc 3"
    using all by (intro json_depth_le_object) fastforce
  then have "json_depth (JObject ?ms) \<le> 1000" by linarith
  ultimately obtain s where "cJSON_Print (JObject ?ms) = Some s" "cJSON_Parse s = Some (JObject ?ms)"
    using print_and_parse [of "JObject ?ms" True] unfolding cJSON_Print_def by blast
  then show ?thesis
    using network_map_entries_members [OF assms, of "[]"]
    by (simp add: network_map_json_def json_build)
qed

lemma network_map_json_members_witness:
  "\<exists>s. network_map_json \<lparr>ht_size = 1, ht_buckets =
      [[\<lparr>node_key = key_mem ''uuid'', node_value = global_config_init\<rparr>]]\<rparr> = Some s \<and>
    cJSON_Parse s = Some (JObject [(''uuid'', map_entry global_config_init)])"
  using network_map_json_members [of "\<lparr>ht_size = 1, ht_buckets =
      [[\<lparr>node_key = key_mem ''uuid'', node_value = global_config_init\<rparr>]]\<rparr>"]
    global_config_init_ok
  by (simp add: ht_nodes_def global_config_init_simps)

end
