(* ===== verification/LinkState.thy ===== *)
theory LinkState
  imports ConfJson
begin

text \<open>
  The routing part of \<open>conf_utils.c\<close>: what a node does with the configuration and the file
  map that a neighbour advertises. Integers are \<open>int\<close> (\<open>i32\<close> of the sums). The time string
  that \<open>strftime\<close> writes is a parameter.
\<close>

subsection \<open>The neighbour's table\<close>

text \<open>
  \<open>memcpy\<close> of the first \<open>sizeof(peer_info)\<close> bytes of a \<open>node_config\<close>: both structs start with
  the same strings and ports; \<open>weight\<close>, \<open>is_online\<close> and the pointers fall into \<open>content_dir\<close>.
  The weight is assigned next; the rest is never read, and \<open>is_online\<close> is put as false.
\<close>

definition peer_of_config :: "node_config \<Rightarrow> int \<Rightarrow> peer_info" where
  "peer_of_config c weight =
     \<lparr>pi_uuid = nc_uuid c, pi_last_seen = nc_last_seen c, pi_name = nc_name c, pi_host = nc_host c,
      pi_frontend_port = nc_frontend_port c, pi_backend_port = nc_backend_port c,
      pi_weight = weight, pi_is_online = False\<rparr>"

text \<open>
  One peer of the list: a new node, or a smaller weight for the node found under the key,
  through the pointer to it.
\<close>

definition add_peer_node :: "node_config \<Rightarrow> peer_info hash_table \<Rightarrow> peer_info \<Rightarrow> peer_info hash_table" where
  "add_peer_node config ht peer =
     (let key = key_mem (pi_uuid peer); n = length (pi_uuid peer) in
      case hash_table_get ht key n of
        None \<Rightarrow> hash_table_put ht key peer n
      | Some existing_peer \<Rightarrow>
          if pi_uuid existing_peer \<noteq> nc_uuid config \<and> pi_weight peer < pi_weight existing_peer
          then hash_table_modify ht key n (\<lambda>p. p\<lparr>pi_weight := pi_weight peer\<rparr>)
          else ht)"

text \<open>A table without buckets divides by zero on its first use.\<close>

definition node_config_to_hashmap :: "node_config \<Rightarrow> int \<Rightarrow> peer_info hash_table option" where
  "node_config_to_hashmap config root_weight =
     (if nc_peer_count config + 1 \<le> 0 then None
      else do {
        let ht = hash_table_create (nat (nc_peer_count config + 1));
        let initial_peer = peer_of_config config root_weight;
        let ht = hash_table_put ht (key_mem (pi_uuid initial_peer)) initial_peer
          (length (pi_uuid initial_peer));
        peers \<leftarrow> peers_read config;
        Some (foldl (add_peer_node config) ht peers) })"

subsection \<open>The update of the own table\<close>

text \<open>
  One node of the neighbour's table. The first component says whether the code leaves the
  chain: \<open>break\<close> when the own table is full.
\<close>

definition update_from_node ::
  "int \<Rightarrow> string \<Rightarrow> node_config \<Rightarrow> peer_info \<Rightarrow> (bool \<times> node_config) option" where
  "update_from_node given_weight peer_uuid config peer =
     (if pi_uuid peer = nc_uuid config then Some (False, config)
      else do {
        index \<leftarrow> find_peer config (pi_uuid peer) 0;
        case index of
          None \<Rightarrow>
            if int MAX_PEERS \<le> nc_peer_count config then Some (True, config)
            else do {
              new_peer \<leftarrow> peer_at config (nc_peer_count config);
              uuid \<leftarrow> strcpy_buf UUID_SIZE (pi_uuid peer);
              name \<leftarrow> strcpy_buf NAME_SIZE (pi_name peer);
              host \<leftarrow> strcpy_buf NAME_SIZE (pi_host peer);
              Some (False, (set_peer config (nc_peer_count config)
                (new_peer\<lparr>pi_uuid := uuid, pi_name := name, pi_host := host,
                  pi_frontend_port := pi_frontend_port peer, pi_backend_port := pi_backend_port peer,
                  pi_weight := i32 (given_weight + pi_weight peer)\<rparr>))
                \<lparr>nc_peer_count := nc_peer_count config + 1\<rparr>) }
        | Some i \<Rightarrow> do {
            own \<leftarrow> peer_at config i;
            let new_weight = i32 (given_weight + pi_weight peer);
            Some (False,
              if pi_uuid own \<noteq> peer_uuid \<and> new_weight < pi_weight own
              then set_peer config i (own\<lparr>pi_weight := new_weight\<rparr>) else config) } })"

fun update_from_chain ::
  "int \<Rightarrow> string \<Rightarrow> peer_info hash_node list \<Rightarrow> node_config \<Rightarrow> node_config option" where
  "update_from_chain g v [] config = Some config"
| "update_from_chain g v (node # nodes) config =
     (case update_from_node g v config (node_value node) of
        None \<Rightarrow> None
      | Some (brk, config') \<Rightarrow> if brk then Some config' else update_from_chain g v nodes config')"

fun update_from_buckets ::
  "int \<Rightarrow> string \<Rightarrow> peer_info hash_node list list \<Rightarrow> node_config \<Rightarrow> node_config option" where
  "update_from_buckets g v [] config = Some config"
| "update_from_buckets g v (chain # rest) config =
     (case update_from_chain g v chain config of
        None \<Rightarrow> None
      | Some config' \<Rightarrow> update_from_buckets g v rest config')"

definition update_peer_weights_last_seen ::
  "string \<Rightarrow> node_config \<Rightarrow> peer_info hash_table \<Rightarrow> node_config \<Rightarrow> node_config option" where
  "update_peer_weights_last_seen last_seen_str config ht peer_config = do {
     let peer_uuid = nc_uuid peer_config;
     found \<leftarrow> find_peer config peer_uuid 0;
     (given_weight, config) \<leftarrow>
       (case found of
          None \<Rightarrow> Some (0, config)
        | Some i \<Rightarrow> do {
            p \<leftarrow> peer_at config i;
            last_seen \<leftarrow> strcpy_buf UUID_SIZE last_seen_str;
            Some (pi_weight p, set_peer config i (p\<lparr>pi_last_seen := last_seen\<rparr>)) });
     let given_weight =
       (if given_weight = 0 then
          (case hash_table_get ht (key_mem (nc_uuid config)) (length (nc_uuid config)) of
             None \<Rightarrow> given_weight
           | Some peers_config_of_me \<Rightarrow> pi_weight peers_config_of_me)
        else given_weight);
     update_from_buckets given_weight peer_uuid (ht_buckets ht) config }"

subsection \<open>The network map\<close>

text \<open>The values of the map are pointers; \<open>'v\<close> is what identifies a configuration.\<close>

definition update_network_map :: "'v hash_table \<Rightarrow> string \<Rightarrow> 'v \<Rightarrow> 'v hash_table" where
  "update_network_map ht uuid config =
     (let old_config = hash_table_get ht (key_mem uuid) (length uuid);
          ht = (if old_config \<noteq> None then hash_table_delete ht (key_mem uuid) (length uuid) else ht)
      in hash_table_put ht (key_mem uuid) config (length uuid))"

definition hash_table_update_node_config :: "'v hash_table \<Rightarrow> string \<Rightarrow> 'v \<Rightarrow> nat \<Rightarrow> 'v hash_table" where
  "hash_table_update_node_config ht key value sz =
     hash_table_put (hash_table_delete ht (key_mem key) sz) (key_mem key) value sz"

definition add_node_config :: "node_config list \<Rightarrow> node_config \<Rightarrow> node_config list" where
  "add_node_config list config = config # list"

subsection \<open>The file map\<close>

text \<open>
  \<open>json_to_files_map\<close> stores for every file a pointer to the same local variable, which is
  dead when the table is used: the values of the table carry nothing. \<open>blocks i\<close> is what the
  block for the \<open>i\<close>-th key held. The size passed for a key is the length of the path and not
  of the key; more bytes than the key has are read past its end.
\<close>

fun files_map_items ::
  "(nat \<Rightarrow> string) \<Rightarrow> nat \<Rightarrow> (string option \<times> cJSON) list \<Rightarrow> unit hash_table \<Rightarrow> unit hash_table option"
where
  "files_map_items blocks i [] ht = Some ht"
| "files_map_items blocks i ((file_path, file_item) # items) ht = do {
     path_item \<leftarrow> cJSON_GetObjectItem file_item ''path'';
     file_real_path \<leftarrow> json_valuestring path_item;
     _ \<leftarrow> strcpy_buf 256 file_real_path;
     key \<leftarrow> file_path;
     if length key + 1 < key_size (length file_real_path) then None
     else do {
       ht \<leftarrow> hash_table_put_str ht (key_mem key) () (length file_real_path) (blocks i);
       files_map_items blocks (Suc i) items ht } }"

definition json_to_files_map :: "(nat \<Rightarrow> string) \<Rightarrow> string \<Rightarrow> unit hash_table option option" where
  "json_to_files_map blocks json_str =
     (case cJSON_Parse json_str of
        None \<Rightarrow> Some None
      | Some json \<Rightarrow>
          (case cJSON_GetObjectItem json ''file_map'' of
             None \<Rightarrow> Some None
           | Some file_map \<Rightarrow>
               map_option Some
                 (files_map_items blocks 0 (json_children file_map)
                   (hash_table_create MAX_HASHTABLE_SIZE))))"

text \<open>
  The uuid is entered in the table of the file; \<open>dead_path\<close> is what the dead variable reads
  as when a new entry copies its path from it.
\<close>

definition add_holder :: "string \<Rightarrow> unit hash_table \<Rightarrow> unit hash_table" where
  "add_holder uuid peers =
     (if hash_table_get peers (key_mem uuid) (length uuid) = None
      then hash_table_put peers (key_mem uuid) () (length uuid) else peers)"

definition update_file ::
  "string \<Rightarrow> string \<Rightarrow> string \<Rightarrow> string \<Rightarrow> file_info hash_table \<Rightarrow> file_info hash_table option" where
  "update_file dead_path block uuid file_path files =
     (let n = length file_path in
      case Option.bind (hash_table_get files (key_mem file_path) n) fi_peers of
        Some peers \<Rightarrow>
          Some (hash_table_modify files (key_mem file_path) n
            (\<lambda>f. f\<lparr>fi_peers := Some (add_holder uuid peers)\<rparr>))
      | None \<Rightarrow> do {
          path \<leftarrow> strcpy_buf 256 dead_path;
          f_path \<leftarrow> strcpy_buf 128 file_path;
          hash_table_put_str files (key_mem f_path)
            \<lparr>fi_path = path, fi_peers = Some (add_holder uuid (hash_table_create MAX_HASHTABLE_SIZE))\<rparr>
            n block })"

fun update_files ::
  "string \<Rightarrow> (nat \<Rightarrow> string) \<Rightarrow> nat \<Rightarrow> string \<Rightarrow> unit hash_node list \<Rightarrow> file_info hash_table \<Rightarrow>
    file_info hash_table option" where
  "update_files dead_path blocks i uuid [] files = Some files"
| "update_files dead_path blocks i uuid (node # nodes) files = do {
     file_path \<leftarrow> key_cstr (node_key node);
     files \<leftarrow> update_file dead_path (blocks i) uuid file_path files;
     update_files dead_path blocks (Suc i) uuid nodes files }"

definition update_peer_to_files_map ::
  "string \<Rightarrow> (nat \<Rightarrow> string) \<Rightarrow> file_info hash_table \<Rightarrow> unit hash_table option \<Rightarrow> node_config \<Rightarrow>
    file_info hash_table option" where
  "update_peer_to_files_map dead_path blocks local_files_map peers_ht_files_map peer_config =
     (case peers_ht_files_map of
        None \<Rightarrow> None
      | Some ht \<Rightarrow>
          update_files dead_path blocks 0 (nc_uuid peer_config) (ht_nodes ht) local_files_map)"

subsection \<open>The own table as a map of weights\<close>

definition weights :: "node_config \<Rightarrow> string \<rightharpoonup> int" where
  "weights c = map_of (map (\<lambda>p. (pi_uuid p, pi_weight p)) (live_peers c))"

text \<open>A node never lists itself and lists every other node once.\<close>

definition routing_inv :: "node_config \<Rightarrow> bool" where
  "routing_inv c \<longleftrightarrow> config_ok c \<and> distinct (peer_uuids c) \<and> nc_uuid c \<notin> set (peer_uuids c)"

text \<open>One relaxation: reaching \<open>q\<close> over a neighbour \<open>v\<close> at distance \<open>g\<close>.\<close>

definition relax :: "int \<Rightarrow> string \<Rightarrow> string \<Rightarrow> (string \<rightharpoonup> int) \<Rightarrow> peer_info \<Rightarrow> (string \<rightharpoonup> int)" where
  "relax g own v m q =
     (if pi_uuid q = own then m
      else case m (pi_uuid q) of
             None \<Rightarrow> m(pi_uuid q \<mapsto> i32 (g + pi_weight q))
           | Some w \<Rightarrow>
               if pi_uuid q \<noteq> v \<and> i32 (g + pi_weight q) < w then m(pi_uuid q \<mapsto> i32 (g + pi_weight q))
               else m)"

lemma weights_None_iff: "weights c u = None \<longleftrightarrow> u \<notin> set (peer_uuids c)"
  by (simp add: weights_def map_of_eq_None_iff image_image)

lemma map_of_update_weight:
  "distinct (map pi_uuid ps) \<Longrightarrow> i < length ps \<Longrightarrow>
    map_of (map (\<lambda>p. (pi_uuid p, pi_weight p)) (ps[i := (ps ! i)\<lparr>pi_weight := w\<rparr>])) =
    (map_of (map (\<lambda>p. (pi_uuid p, pi_weight p)) ps))(pi_uuid (ps ! i) \<mapsto> w)"
proof (induction ps arbitrary: i)
  case (Cons p ps)
  show ?case
  proof (cases i)
    case (Suc j)
    then have "pi_uuid (ps ! j) \<noteq> pi_uuid p" using Cons.prems by (metis distinct.simps(2)
        image_eqI length_Cons list.set_map list.simps(9) not_less_eq nth_mem)
    with Suc Cons show ?thesis by (auto simp: fun_eq_iff)
  qed (simp add: fun_eq_iff)
qed simp

lemma weights_append:
  "live_peers c' = live_peers c @ [q] \<Longrightarrow> pi_uuid q \<notin> set (peer_uuids c) \<Longrightarrow>
    weights c' = (weights c)(pi_uuid q \<mapsto> pi_weight q)"
proof -
  assume a: "live_peers c' = live_peers c @ [q]" "pi_uuid q \<notin> set (peer_uuids c)"
  then have "weights c (pi_uuid q) = None" by (simp add: weights_None_iff)
  with a(1) show ?thesis
    by (auto simp: weights_def map_add_def fun_eq_iff split: option.splits)
qed

lemma live_set_peer:
  assumes "0 \<le> i" "i < nc_peer_count c"
  shows "live_peers (set_peer c i p) = (live_peers c)[nat i := p]"
  using assms by (simp add: live_peers_def set_peer_def take_update_swap)

text \<open>The four things that one node of the neighbour's table can do.\<close>

lemma find_peer_cases:
  assumes "config_ok c"
  obtains (absent) "find_peer c u 0 = Some None" "u \<notin> set (peer_uuids c)"
  | (present) i where "find_peer c u 0 = Some (Some i)" "0 \<le> i" "i < nc_peer_count c"
      "pi_uuid (nc_peers c ! nat i) = u" "peer_at c i = Some (nc_peers c ! nat i)"
      "live_peers c ! nat i = nc_peers c ! nat i"
proof -
  obtain r where r: "find_peer c u 0 = Some r"
    "map_option (\<lambda>j. nc_peers c ! nat j) r = List.find (\<lambda>p. pi_uuid p = u) (live_peers c)"
    "\<forall>j. r = Some j \<longrightarrow> 0 \<le> j \<and> j < nc_peer_count c"
    using find_peer_find [OF assms, of 0 u] by auto
  show thesis
  proof (cases r)
    case None
    with r(2) have "List.find (\<lambda>p. pi_uuid p = u) (live_peers c) = None" by simp
    then have "u \<notin> set (peer_uuids c)" by (auto simp: find_None_iff)
    with r(1) None show thesis by (intro absent) simp_all
  next
    case (Some j)
    with r(2) have "List.find (\<lambda>p. pi_uuid p = u) (live_peers c) = Some (nc_peers c ! nat j)" by simp
    then have "pi_uuid (nc_peers c ! nat j) = u" by (auto simp: find_Some_iff)
    moreover have "0 \<le> j" "j < nc_peer_count c" using r(3) Some by auto
    moreover have "j < int MAX_PEERS" using calculation config_okD(3) [OF assms] by simp
    ultimately show thesis
      using r(1) Some peer_at_ok [OF assms, of j] live_peers_nth [of j c] by (intro present) simp_all
  qed
qed

lemma peer_ok_weight: "peer_ok p \<Longrightarrow> is_i32 w \<Longrightarrow> peer_ok (p\<lparr>pi_weight := w\<rparr>)"
  by (simp add: peer_ok_def)

definition improves :: "string \<Rightarrow> node_config \<Rightarrow> node_config \<Rightarrow> bool" where
  "improves v c c' \<longleftrightarrow> routing_inv c' \<and> nc_uuid c' = nc_uuid c \<and>
     prefix (peer_uuids c) (peer_uuids c') \<and>
     (\<forall>u w. weights c u = Some w \<longrightarrow> (\<exists>w' \<le> w. weights c' u = Some w')) \<and>
     (v \<in> set (peer_uuids c) \<longrightarrow> weights c' v = weights c v)"

lemma improves_refl: "routing_inv c \<Longrightarrow> improves v c c"
  by (auto simp: improves_def)

lemma improvesD: "improves v a b \<Longrightarrow> weights a u = Some w \<Longrightarrow> \<exists>w'\<le>w. weights b u = Some w'"
  by (simp add: improves_def)

lemma improves_trans:
  assumes "improves v a b" "improves v b c"
  shows "improves v a c"
proof -
  have "\<exists>w'\<le>w. weights c u = Some w'" if au: "weights a u = Some w" for u w
  proof -
    obtain x where x: "x \<le> w" "weights b u = Some x"
      using improvesD [OF assms(1) au] by blast
    obtain y where "y \<le> x" "weights c u = Some y"
      using improvesD [OF assms(2) x(2)] by blast
    with x(1) show ?thesis by fastforce
  qed
  moreover have "prefix (peer_uuids a) (peer_uuids b)" "prefix (peer_uuids b) (peer_uuids c)"
    using assms by (auto simp: improves_def)
  moreover have "weights c v = weights a v" if "v \<in> set (peer_uuids a)"
  proof -
    have "v \<in> set (peer_uuids b)"
      using that set_mono_prefix [OF \<open>prefix (peer_uuids a) (peer_uuids b)\<close>] by blast
    with that assms show ?thesis unfolding improves_def by simp
  qed
  ultimately show ?thesis
    using assms prefix_order.trans unfolding improves_def by auto
qed

text \<open>
  What the update reads of a neighbour's configuration: not the time a peer was seen, nor the
  entries behind the listed peers, which a received configuration takes from memory.
\<close>

definition entry_ok :: "peer_info \<Rightarrow> bool" where
  "entry_ok p \<longleftrightarrow> field_ok UUID_SIZE (pi_uuid p) \<and> field_ok NAME_SIZE (pi_name p) \<and> field_ok NAME_SIZE (pi_host p) \<and>
     is_i32 (pi_frontend_port p) \<and> is_i32 (pi_backend_port p) \<and> is_i32 (pi_weight p)"

definition read_ok :: "node_config \<Rightarrow> bool" where
  "read_ok c \<longleftrightarrow> field_ok UUID_SIZE (nc_uuid c) \<and> field_ok NAME_SIZE (nc_name c) \<and> field_ok NAME_SIZE (nc_host c) \<and>
     is_i32 (nc_frontend_port c) \<and> is_i32 (nc_backend_port c) \<and> length (nc_peers c) = MAX_PEERS \<and>
     0 \<le> nc_peer_count c \<and> nc_peer_count c \<le> int MAX_PEERS \<and> (\<forall>p\<in>set (live_peers c). entry_ok p)"

lemma peer_ok_entry: "peer_ok p \<Longrightarrow> entry_ok p"
  by (simp add: peer_ok_def entry_ok_def)

lemma config_ok_read: "config_ok c \<Longrightarrow> read_ok c"
  using live_peers_ok [of c] peer_ok_entry by (auto simp: config_ok_def read_ok_def)

lemma read_okD:
  assumes "read_ok c"
  shows "peers_read c = Some (live_peers c)" "length (live_peers c) = nat (nc_peer_count c)"
    "0 \<le> nc_peer_count c" "nc_peer_count c \<le> int MAX_PEERS"
    "\<And>p. p \<in> set (live_peers c) \<Longrightarrow> entry_ok p" "is_i32 w \<Longrightarrow> entry_ok (peer_of_config c w)"
  using assms peers_read_live [of c]
  by (auto simp: read_ok_def live_peers_def entry_ok_def peer_of_config_def)

lemma update_from_node_step:
  assumes "routing_inv c" "entry_ok q"
  shows "\<exists>b c'. update_from_node g v c q = Some (b, c') \<and> improves v c c' \<and>
    (b \<longrightarrow> c' = c \<and> nc_peer_count c = int MAX_PEERS) \<and>
    (\<not> b \<longrightarrow> weights c' = relax g (nc_uuid c) v (weights c) q \<and>
      nc_peer_count c' \<le> nc_peer_count c + 1)"
proof (cases "pi_uuid q = nc_uuid c")
  case True
  then show ?thesis
    using assms(1)
    by (intro exI [of _ False]) (simp add: update_from_node_def relax_def improves_refl)
next
  case ne: False
  have ok: "config_ok c" and dist: "distinct (peer_uuids c)" and own: "nc_uuid c \<notin> set (peer_uuids c)"
    using assms(1) by (auto simp: routing_inv_def)
  let ?w = "i32 (g + pi_weight q)"
  from ok show ?thesis
  proof (cases rule: find_peer_cases [where u = "pi_uuid q"])
    case absent
    show ?thesis
    proof (cases "int MAX_PEERS \<le> nc_peer_count c")
      case True
      with absent ne show ?thesis
        using config_okD(3) [OF ok] assms(1)
        by (intro exI [of _ True]) (simp add: update_from_node_def improves_refl)
    next
      case False
      define old where "old = nc_peers c ! nat (nc_peer_count c)"
      define p where "p = old\<lparr>pi_uuid := pi_uuid q, pi_name := pi_name q, pi_host := pi_host q,
        pi_frontend_port := pi_frontend_port q, pi_backend_port := pi_backend_port q,
        pi_weight := ?w\<rparr>"
      define c' where "c' = (set_peer c (nc_peer_count c) p)\<lparr>nc_peer_count := nc_peer_count c + 1\<rparr>"
      have at: "peer_at c (nc_peer_count c) = Some old"
        using False peer_at_ok [OF ok config_okD(2) [OF ok]] by (simp add: old_def)
      have "nat (nc_peer_count c) < length (nc_peers c)"
        using False config_okD(1,2) [OF ok] by simp
      then have "peer_ok old" unfolding old_def by (intro config_okD(4) [OF ok] nth_mem)
      then have pok: "peer_ok p" using assms(2) i32_range by (simp add: p_def peer_ok_def entry_ok_def)
      have live: "live_peers c' = live_peers c @ [p]"
        unfolding c'_def using False by (intro live_peers_append ok) simp
      have "config_ok c'"
        using set_peer_ok [OF ok pok, of "nc_peer_count c"] False
        by (simp add: c'_def config_ok_def set_peer_def)
      moreover have "nc_uuid c' = nc_uuid c" by (simp add: c'_def set_peer_def)
      moreover have uu: "pi_uuid p = pi_uuid q" "pi_weight p = ?w" by (simp_all add: p_def)
      ultimately have inv: "routing_inv c'"
        using dist own absent ne live by (simp add: routing_inv_def)
      have w: "weights c' = (weights c)(pi_uuid q \<mapsto> ?w)"
        using weights_append [OF live] absent uu by simp
      have no: "weights c (pi_uuid q) = None" using absent(2) by (simp add: weights_None_iff)
      have "improves v c c'"
        unfolding improves_def w using inv live no absent(2) by (auto simp: c'_def set_peer_def)
      moreover have "update_from_node g v c q = Some (False, c')"
        using ne absent False at assms(2)
        by (simp add: update_from_node_def c'_def p_def entry_ok_def field_ok_def strcpy_buf_def fits_def)
      moreover have "relax g (nc_uuid c) v (weights c) q = (weights c)(pi_uuid q \<mapsto> ?w)"
        using ne no by (simp add: relax_def)
      ultimately show ?thesis using w by (auto simp: c'_def set_peer_def)
    qed
  next
    case (present i)
    define old where "old = nc_peers c ! nat i"
    have i: "nat i < length (live_peers c)" using present by (simp add: length_live_peers [OF ok])
    have wi: "weights c (pi_uuid q) = Some (pi_weight old)"
    proof -
      have "distinct (map fst (map (\<lambda>p. (pi_uuid p, pi_weight p)) (live_peers c)))"
        using dist by (simp add: comp_def)
      moreover have "(pi_uuid q, pi_weight old) \<in> set (map (\<lambda>p. (pi_uuid p, pi_weight p)) (live_peers c))"
        unfolding set_map
        by (rule image_eqI [OF _ nth_mem [OF i]]) (use present(4,6) in \<open>simp add: old_def\<close>)
      ultimately show ?thesis unfolding weights_def by (rule map_of_is_SomeI)
    qed
    show ?thesis
    proof (cases "pi_uuid q \<noteq> v \<and> ?w < pi_weight old")
      case False
      with ne present wi assms(1) show ?thesis
        by (auto simp: update_from_node_def relax_def improves_refl old_def)
    next
      case True
      let ?c = "set_peer c i (old\<lparr>pi_weight := ?w\<rparr>)"
      have oldl: "old = live_peers c ! nat i" using present(6) by (simp add: old_def)
      have live: "live_peers ?c = (live_peers c)[nat i := old\<lparr>pi_weight := ?w\<rparr>]"
        by (rule live_set_peer) (use present in auto)
      have "old \<in> set (live_peers c)" using i oldl by simp
      then have "peer_ok old" by (rule live_peers_ok [OF ok])
      then have "config_ok ?c"
        using i32_range by (intro set_peer_ok ok peer_ok_weight)
      moreover have uu: "peer_uuids ?c = peer_uuids c"
        unfolding live using i oldl by (intro map_update_same) simp_all
      moreover have nu: "nc_uuid ?c = nc_uuid c" by (simp add: set_peer_def)
      ultimately have inv: "routing_inv ?c" using dist own by (simp add: routing_inv_def)
      have w: "weights ?c = (weights c)(pi_uuid q \<mapsto> ?w)"
        using map_of_update_weight [OF dist i, of ?w] present(4)
        unfolding weights_def live oldl [symmetric] by (simp only: old_def)
      have "improves v c ?c"
        unfolding improves_def using inv uu w wi True nu
        by (auto simp: set_peer_def)
      moreover have "update_from_node g v c q = Some (False, ?c)"
        using ne present True by (simp add: update_from_node_def old_def Let_def)
      moreover have "relax g (nc_uuid c) v (weights c) q = (weights c)(pi_uuid q \<mapsto> ?w)"
        using ne wi True by (simp add: relax_def)
      ultimately show ?thesis using w by (auto simp: set_peer_def)
    qed
  qed
qed

lemma relax_break_free:
  "improves v c c' \<Longrightarrow> nc_uuid c' = nc_uuid c"
  by (simp add: improves_def)

lemma update_from_chain_improves:
  "routing_inv c \<Longrightarrow> \<forall>nd\<in>set nds. entry_ok (node_value nd) \<Longrightarrow>
    \<exists>c'. update_from_chain g v nds c = Some c' \<and> improves v c c'"
proof (induction nds arbitrary: c)
  case Nil
  then show ?case by (simp add: improves_refl)
next
  case (Cons nd nds)
  obtain b c' where s: "update_from_node g v c (node_value nd) = Some (b, c')" "improves v c c'"
    using update_from_node_step [OF Cons.prems(1), of "node_value nd" g v] Cons.prems(2) by auto
  show ?case
  proof (cases b)
    case True
    with s show ?thesis by simp
  next
    case False
    have "routing_inv c'" using s(2) by (simp add: improves_def)
    then obtain c2 where "update_from_chain g v nds c' = Some c2" "improves v c' c2"
      using Cons.IH [of c'] Cons.prems(2) by auto
    with s False improves_trans [OF s(2)] show ?thesis by auto
  qed
qed

lemma update_from_buckets_improves:
  "routing_inv c \<Longrightarrow> \<forall>ns\<in>set bs. \<forall>nd\<in>set ns. entry_ok (node_value nd) \<Longrightarrow>
    \<exists>c'. update_from_buckets g v bs c = Some c' \<and> improves v c c'"
proof (induction bs arbitrary: c)
  case Nil
  then show ?case by (simp add: improves_refl)
next
  case (Cons ns bs)
  obtain c' where s: "update_from_chain g v ns c = Some c'" "improves v c c'"
    using update_from_chain_improves [OF Cons.prems(1), of ns g v] Cons.prems(2) by auto
  then have "routing_inv c'" by (simp add: improves_def)
  then obtain c2 where "update_from_buckets g v bs c' = Some c2" "improves v c' c2"
    using Cons.IH [of c'] Cons.prems(2) by auto
  with s improves_trans [OF s(2)] show ?case by auto
qed

text \<open>With room for all nodes no chain is left early and every node is relaxed.\<close>

definition relax_all :: "int \<Rightarrow> string \<Rightarrow> string \<Rightarrow> (string \<rightharpoonup> int) \<Rightarrow> peer_info hash_node list \<Rightarrow> (string \<rightharpoonup> int)" where
  "relax_all g own v m nds = foldl (\<lambda>m nd. relax g own v m (node_value nd)) m nds"

lemma update_from_chain_relax:
  assumes "routing_inv c" "\<forall>nd\<in>set nds. entry_ok (node_value nd)"
    and "nc_peer_count c + int (length nds) \<le> int MAX_PEERS"
  shows "\<exists>c'. update_from_chain g v nds c = Some c' \<and> routing_inv c' \<and> nc_uuid c' = nc_uuid c \<and>
    weights c' = relax_all g (nc_uuid c) v (weights c) nds \<and>
    nc_peer_count c' \<le> nc_peer_count c + int (length nds)"
  using assms
proof (induction nds arbitrary: c)
  case Nil
  then show ?case by (simp add: relax_all_def)
next
  case (Cons nd nds)
  obtain b c' where s: "update_from_node g v c (node_value nd) = Some (b, c')" "improves v c c'"
    "b \<longrightarrow> nc_peer_count c = int MAX_PEERS"
    "\<not> b \<longrightarrow> weights c' = relax g (nc_uuid c) v (weights c) (node_value nd) \<and>
      nc_peer_count c' \<le> nc_peer_count c + 1"
    using update_from_node_step [OF Cons.prems(1), of "node_value nd" g v] Cons.prems(2) by auto
  have nb: "\<not> b" using s(3) Cons.prems(3) by auto
  have "routing_inv c'" "nc_uuid c' = nc_uuid c" using s(2) by (auto simp: improves_def)
  then show ?case
    using Cons.IH [of c'] Cons.prems s nb by (auto simp: relax_all_def)
qed

lemma update_from_buckets_relax:
  assumes "routing_inv c" "\<forall>ns\<in>set bs. \<forall>nd\<in>set ns. entry_ok (node_value nd)"
    and "nc_peer_count c + int (length (concat bs)) \<le> int MAX_PEERS"
  shows "\<exists>c'. update_from_buckets g v bs c = Some c' \<and>
    weights c' = relax_all g (nc_uuid c) v (weights c) (concat bs)"
  using assms
proof (induction bs arbitrary: c)
  case Nil
  then show ?case by (simp add: relax_all_def)
next
  case (Cons ns bs)
  obtain c' where s: "update_from_chain g v ns c = Some c'" "routing_inv c'" "nc_uuid c' = nc_uuid c"
    "weights c' = relax_all g (nc_uuid c) v (weights c) ns"
    "nc_peer_count c' \<le> nc_peer_count c + int (length ns)"
    using update_from_chain_relax [OF Cons.prems(1), of ns g v] Cons.prems(2,3) by auto
  show ?case
    using Cons.IH [OF s(2)] Cons.prems s by (auto simp: relax_all_def)
qed

text \<open>The distance to the neighbour: its weight here, or else the weight it has for this node.\<close>

definition link_weight :: "node_config \<Rightarrow> peer_info hash_table \<Rightarrow> node_config \<Rightarrow> int" where
  "link_weight c ht peer =
     (let g = (case weights c (nc_uuid peer) of None \<Rightarrow> 0 | Some w \<Rightarrow> w)
      in if g \<noteq> 0 then g
         else case hash_table_get ht (key_mem (nc_uuid c)) (length (nc_uuid c)) of
                None \<Rightarrow> 0 | Some p \<Rightarrow> pi_weight p)"

lemma weights_nth:
  assumes "distinct (peer_uuids c)" "i < length (live_peers c)"
  shows "weights c (pi_uuid (live_peers c ! i)) = Some (pi_weight (live_peers c ! i))"
  unfolding weights_def
proof (rule map_of_is_SomeI)
  show "distinct (map fst (map (\<lambda>p. (pi_uuid p, pi_weight p)) (live_peers c)))"
    using assms(1) by (simp add: comp_def)
  show "(pi_uuid (live_peers c ! i), pi_weight (live_peers c ! i)) \<in>
      set (map (\<lambda>p. (pi_uuid p, pi_weight p)) (live_peers c))"
    unfolding set_map by (rule image_eqI [OF _ nth_mem [OF assms(2)]]) simp
qed

text \<open>The first step only stamps the neighbour's entry with the time.\<close>

lemma update_peer_weights_unfold:
  assumes "routing_inv c" "field_ok UUID_SIZE time"
  shows "\<exists>c1. update_peer_weights_last_seen time c ht peer =
      update_from_buckets (link_weight c ht peer) (nc_uuid peer) (ht_buckets ht) c1 \<and>
    routing_inv c1 \<and> nc_uuid c1 = nc_uuid c \<and> peer_uuids c1 = peer_uuids c \<and>
    weights c1 = weights c \<and> nc_peer_count c1 = nc_peer_count c"
proof -
  have ok: "config_ok c" and dist: "distinct (peer_uuids c)"
    using assms(1) by (auto simp: routing_inv_def)
  from ok show ?thesis
  proof (cases rule: find_peer_cases [where u = "nc_uuid peer"])
    case absent
    then have "weights c (nc_uuid peer) = None" by (simp add: weights_None_iff)
    with absent assms(1) show ?thesis
      by (intro exI [of _ c])
        (simp add: update_peer_weights_last_seen_def link_weight_def split: option.split)
  next
    case (present i)
    define old where "old = nc_peers c ! nat i"
    let ?p = "old\<lparr>pi_last_seen := time\<rparr>"
    let ?c = "set_peer c i ?p"
    have i: "nat i < length (live_peers c)" using present by (simp add: length_live_peers [OF ok])
    have oldl: "live_peers c ! nat i = old" using present(6) by (simp add: old_def)
    have live: "live_peers ?c = (live_peers c)[nat i := ?p]"
      by (rule live_set_peer) (use present in auto)
    have "peer_ok old" using live_peers_ok [OF ok nth_mem [OF i]] oldl by simp
    then have "config_ok ?c" using assms(2) by (intro set_peer_ok ok) (simp add: peer_ok_def)
    moreover have same: "map (\<lambda>p. (pi_uuid p, pi_weight p)) (live_peers ?c) =
        map (\<lambda>p. (pi_uuid p, pi_weight p)) (live_peers c)"
      unfolding live using i oldl by (intro map_update_same) simp_all
    then have w: "weights ?c = weights c" by (simp add: weights_def)
    have "peer_uuids ?c = map fst (map (\<lambda>p. (pi_uuid p, pi_weight p)) (live_peers ?c))"
      by (simp add: comp_def)
    then have uu: "peer_uuids ?c = peer_uuids c" using same by (simp add: comp_def)
    ultimately have "routing_inv ?c"
      using assms(1) by (simp add: routing_inv_def) (simp add: set_peer_def)
    moreover have "weights c (nc_uuid peer) = Some (pi_weight old)"
      using weights_nth [OF dist i] oldl present(4) by (simp add: old_def)
    ultimately show ?thesis
      using present assms(2) w uu
      by (intro exI [of _ ?c])
        (auto simp: update_peer_weights_last_seen_def link_weight_def old_def field_ok_def set_peer_def
          strcpy_buf_def fits_def split: option.split)
  qed
qed

lemma update_peer_weights_step:
  assumes "routing_inv c" "field_ok UUID_SIZE time"
    and "\<forall>nd\<in>set (ht_nodes ht). entry_ok (node_value nd)"
  shows "\<exists>c'. update_peer_weights_last_seen time c ht peer = Some c' \<and>
    improves (nc_uuid peer) c c' \<and>
    (nc_peer_count c + int (length (ht_nodes ht)) \<le> int MAX_PEERS \<longrightarrow>
      weights c' = relax_all (link_weight c ht peer) (nc_uuid c) (nc_uuid peer) (weights c) (ht_nodes ht))"
proof -
  obtain c1 where c1: "update_peer_weights_last_seen time c ht peer =
      update_from_buckets (link_weight c ht peer) (nc_uuid peer) (ht_buckets ht) c1"
    "routing_inv c1" "nc_uuid c1 = nc_uuid c" "peer_uuids c1 = peer_uuids c" "weights c1 = weights c"
    "nc_peer_count c1 = nc_peer_count c"
    using update_peer_weights_unfold [OF assms(1,2)] by blast
  then have "improves (nc_uuid peer) c c1" by (auto simp: improves_def)
  moreover obtain c' where c': "update_from_buckets (link_weight c ht peer) (nc_uuid peer) (ht_buckets ht) c1 =
      Some c'" "improves (nc_uuid peer) c1 c'"
    using update_from_buckets_improves [OF c1(2), of "ht_buckets ht"] assms(3)
    by (fastforce simp: ht_nodes_def)
  moreover have "weights c' = relax_all (link_weight c ht peer) (nc_uuid c) (nc_uuid peer) (weights c) (ht_nodes ht)"
    if "nc_peer_count c + int (length (ht_nodes ht)) \<le> int MAX_PEERS"
    using update_from_buckets_relax [OF c1(2), of "ht_buckets ht" "link_weight c ht peer" "nc_uuid peer"]
      assms(3) that c1(3,5,6) c'(1) by (fastforce simp: ht_nodes_def)
  ultimately show ?thesis using c1(1) improves_trans by auto
qed

text \<open>
  C5. Taking over the advertisement of a neighbour is free of undefined behaviour and
  keeps the invariant of the own table: at most 50 peers, each node listed once, the node
  itself never. No distance grows, the entries keep their places, and the distance to the
  neighbour itself does not change.
\<close>

theorem update_peer_weights_improves:
  assumes "routing_inv c" "field_ok UUID_SIZE time"
    and "\<forall>nd\<in>set (ht_nodes ht). entry_ok (node_value nd)"
  shows "\<exists>c'. update_peer_weights_last_seen time c ht peer = Some c' \<and>
    improves (nc_uuid peer) c c'"
  using update_peer_weights_step [OF assms] by blast

text \<open>
  C4. When the own table has room for every node of the advertisement, the new distances
  are the old ones relaxed once over each advertised node, in the order of the buckets: the
  detailed loop refines one round of the Bellman-Ford update of a distance vector.
\<close>

theorem update_peer_weights_refines_relax:
  assumes "routing_inv c" "field_ok UUID_SIZE time"
    and "\<forall>nd\<in>set (ht_nodes ht). entry_ok (node_value nd)"
    and "nc_peer_count c + int (length (ht_nodes ht)) \<le> int MAX_PEERS"
  shows "map_option weights (update_peer_weights_last_seen time c ht peer) =
    Some (relax_all (link_weight c ht peer) (nc_uuid c) (nc_uuid peer) (weights c) (ht_nodes ht))"
  using update_peer_weights_step [OF assms(1-3), of peer] assms(4) by auto

lemma routing_inv_init: "routing_inv global_config_init"
  by (simp add: routing_inv_def global_config_init_ok global_config_init_simps)

definition sample_table :: "peer_info hash_table" where
  "sample_table = \<lparr>ht_size = 1, ht_buckets =
     [[\<lparr>node_key = key_mem ''n2'', node_value = zero_peer\<lparr>pi_uuid := ''n2'', pi_weight := 5\<rparr>\<rparr>]]\<rparr>"

lemma sample_table_ok: "\<forall>nd\<in>set (ht_nodes sample_table). entry_ok (node_value nd)"
  by (simp add: sample_table_def ht_nodes_def entry_ok_def zero_peer_def field_ok_def is_i32_def
      INT_MAX_def INT_MIN_def)

lemma update_peer_weights_improves_witness:
  "\<exists>c'. update_peer_weights_last_seen ''2023-05-01'' global_config_init sample_table
      (global_config_init\<lparr>nc_uuid := ''n2''\<rparr>) = Some c' \<and> improves ''n2'' global_config_init c'"
  using update_peer_weights_improves [OF routing_inv_init _ sample_table_ok, of "''2023-05-01''"
      "global_config_init\<lparr>nc_uuid := ''n2''\<rparr>"]
  by (simp add: field_ok_def)

lemma update_peer_weights_refines_relax_witness:
  "map_option (\<lambda>c'. weights c' ''n2'')
    (update_peer_weights_last_seen ''2023-05-01'' global_config_init sample_table
      (global_config_init\<lparr>nc_uuid := ''n2''\<rparr>)) = Some (Some 5)"
proof -
  let ?peer = "global_config_init\<lparr>nc_uuid := ''n2''\<rparr>"
  have "weights global_config_init = Map.empty"
    by (simp add: weights_def global_config_init_simps)
  moreover have "hash_table_get sample_table (key_mem ''uuid'') 4 = None"
    by (simp add: hash_table_get_def sample_table_def ht_index_def hash_func_def key_eq_def
        key_size_def key_mem_def)
  then have "link_weight global_config_init sample_table ?peer = 0"
    using \<open>weights global_config_init = Map.empty\<close>
    by (simp add: link_weight_def global_config_init_simps numeral_eq_Suc)
  moreover have "map_option weights (update_peer_weights_last_seen ''2023-05-01'' global_config_init
      sample_table ?peer) = Some (relax_all (link_weight global_config_init sample_table ?peer) ''uuid''
      ''n2'' (weights global_config_init) (ht_nodes sample_table))"
    using update_peer_weights_refines_relax [OF routing_inv_init _ sample_table_ok, of "''2023-05-01''"
        ?peer]
    by (simp add: field_ok_def global_config_init_simps sample_table_def ht_nodes_def MAX_PEERS_def)
  ultimately show ?thesis
    by (cases "update_peer_weights_last_seen ''2023-05-01'' global_config_init sample_table ?peer")
      (auto simp: relax_all_def sample_table_def ht_nodes_def relax_def i32_id is_i32_def INT_MAX_def
        INT_MIN_def)
qed

subsection \<open>The contents of the neighbour's table\<close>

lemma chain_inv_update: "chain_update key n f ns = Some ns' \<Longrightarrow> chain_inv K ns \<Longrightarrow> chain_inv K ns'"
  using chain_inv_keys [OF chain_update_keys, of key n f ns ns' K] by simp

lemma ht_inv_modify:
  assumes "ht_inv K ht"
  shows "ht_inv K (hash_table_modify ht key n f)"
proof -
  let ?h = "ht_index ht key n"
  show ?thesis
  proof (cases "chain_update key n f (ht_buckets ht ! ?h)")
    case None
    with assms show ?thesis by (simp add: hash_table_modify_def)
  next
    case (Some ns)
    then have "ht_inv K (ht\<lparr>ht_buckets := (ht_buckets ht)[?h := ns]\<rparr>)"
      by (intro ht_inv_bucket [OF assms]) (rule chain_inv_update)
    with Some show ?thesis by (simp add: hash_table_modify_def Let_def)
  qed
qed

lemma ht_get_modify:
  assumes "ht_inv K ht" "table_key K k" "table_key K j"
  shows "hash_table_get (hash_table_modify ht (key_mem k) (length k) f) (key_mem j) (length j) =
    (if j = k then map_option f (hash_table_get ht (key_mem k) (length k))
     else hash_table_get ht (key_mem j) (length j))"
proof -
  let ?h = "ht_index ht (key_mem k) (length k)"
  show ?thesis
  proof (cases "chain_update (key_mem k) (length k) f (ht_buckets ht ! ?h)")
    case None
    then have "chain_get (key_mem k) (length k) (ht_buckets ht ! ?h) = None"
      using table_key_ne [OF assms(2)] by (simp add: chain_get_None_iff chain_update_None_iff)
    with None show ?thesis by (simp add: hash_table_modify_def hash_table_get_def)
  next
    case (Some ns)
    have "hash_table_get (ht\<lparr>ht_buckets := (ht_buckets ht)[?h := ns]\<rparr>) (key_mem j) (length j) =
        (if j = k then map_option f (hash_table_get ht (key_mem k) (length k))
         else hash_table_get ht (key_mem j) (length j))"
      by (rule ht_get_bucket [OF assms(1) refl assms(3,2)])
        (simp add: chain_get_update [OF assms(2,3) Some] hash_table_get_def)
    with Some show ?thesis by (simp add: hash_table_modify_def Let_def)
  qed
qed

text \<open>What one peer of the list does to the map that the table stands for.\<close>

definition merge_peer :: "string \<Rightarrow> (string \<rightharpoonup> peer_info) \<Rightarrow> peer_info \<Rightarrow> (string \<rightharpoonup> peer_info)" where
  "merge_peer own m p =
     (case m (pi_uuid p) of
        None \<Rightarrow> m(pi_uuid p \<mapsto> p)
      | Some e \<Rightarrow>
          if pi_uuid e \<noteq> own \<and> pi_weight p < pi_weight e
          then m(pi_uuid p \<mapsto> e\<lparr>pi_weight := pi_weight p\<rparr>) else m)"

lemma add_peer_node_abs:
  assumes "ht_inv K ht" "table_key K (pi_uuid p)"
  shows "ht_inv K (add_peer_node c ht p) \<and>
    table_abs K (add_peer_node c ht p) = merge_peer (nc_uuid c) (table_abs K ht) p"
proof (cases "hash_table_get ht (key_mem (pi_uuid p)) (length (pi_uuid p))")
  case None
  with assms show ?thesis
    by (auto simp: add_peer_node_def merge_peer_def ht_inv_put table_abs_def ht_get_put fun_eq_iff)
next
  case (Some e)
  with assms show ?thesis
    by (auto simp: add_peer_node_def merge_peer_def ht_inv_modify table_abs_def ht_get_modify
        fun_eq_iff Let_def)
qed

lemma add_peer_nodes_abs:
  "ht_inv K ht \<Longrightarrow> \<forall>p\<in>set ps. table_key K (pi_uuid p) \<Longrightarrow>
    ht_inv K (foldl (add_peer_node c) ht ps) \<and>
    table_abs K (foldl (add_peer_node c) ht ps) = foldl (merge_peer (nc_uuid c)) (table_abs K ht) ps"
proof (induction ps arbitrary: ht)
  case (Cons p ps)
  then show ?case using add_peer_node_abs [of K ht p c] by simp
qed simp

lemma node_config_to_hashmap_abs:
  assumes "read_ok c" "table_key K (nc_uuid c)" "\<forall>p\<in>set (live_peers c). table_key K (pi_uuid p)"
  shows "\<exists>ht. node_config_to_hashmap c w = Some ht \<and> ht_inv K ht \<and>
    table_abs K ht = foldl (merge_peer (nc_uuid c)) [nc_uuid c \<mapsto> peer_of_config c w] (live_peers c)"
proof -
  let ?n = "nat (nc_peer_count c + 1)"
  let ?t = "hash_table_create ?n :: peer_info hash_table"
  let ?r = "peer_of_config c w"
  let ?ht = "hash_table_put ?t (key_mem (nc_uuid c)) ?r (length (nc_uuid c))"
  have n: "0 < ?n" "?n < 2 ^ 31"
    using read_okD(3,4) [OF assms(1)] by (auto simp: MAX_PEERS_def)
  then have t: "ht_inv K ?t" by (rule ht_inv_create)
  then have inv: "ht_inv K ?ht" using assms(2) by (rule ht_inv_put)
  have "table_abs K ?ht = [nc_uuid c \<mapsto> ?r]"
    using assms(2) t by (auto simp: table_abs_def fun_eq_iff ht_get_put ht_get_create [OF n])
  moreover have "node_config_to_hashmap c w = Some (foldl (add_peer_node c) ?ht (live_peers c))"
    using read_okD(3) [OF assms(1)]
    by (simp add: node_config_to_hashmap_def read_okD(1) [OF assms(1)] peer_of_config_def Let_def)
  ultimately show ?thesis using add_peer_nodes_abs [OF inv assms(3), of c] by simp
qed

text \<open>
  For uuids none of which is a prefix of another, the table built from a configuration
  holds its own entry with the given weight and, for every other uuid of its peers, the
  first entry with the smallest weight of that uuid: the table refines a map.
\<close>

theorem node_config_to_hashmap_refines_map:
  assumes "read_ok c" "table_key K (nc_uuid c)" "\<forall>p\<in>set (live_peers c). table_key K (pi_uuid p)"
  shows "\<exists>ht. node_config_to_hashmap c w = Some ht \<and> ht_inv K ht \<and>
    table_abs K ht = foldl (merge_peer (nc_uuid c)) [nc_uuid c \<mapsto> peer_of_config c w] (live_peers c)"
  using assms by (rule node_config_to_hashmap_abs)

lemma node_config_to_hashmap_refines_map_witness:
  "\<exists>ht. node_config_to_hashmap global_config_init 4 = Some ht \<and>
    table_abs {''uuid''} ht = [''uuid'' \<mapsto> peer_of_config global_config_init 4]"
  using node_config_to_hashmap_refines_map [OF config_ok_read [OF global_config_init_ok], of "{''uuid''}" 4]
  by (auto simp: global_config_init_simps table_key_def prefix_free_def)

text \<open>
  The peer count of an advertisement is not checked against its list: a message that
  claims more than 50 peers is accepted, and building its table then reads outside the array.
\<close>

theorem advertised_count_unchecked:
  assumes "length (nc_peers init) = MAX_PEERS" "int MAX_PEERS < n" "n < INT_MAX"
  shows "\<exists>s c. cJSON_PrintUnformatted (JObject [(''peer_count'', JNumber (of_int n))]) = Some s \<and>
    json_to_node_config init s = Some (Some c) \<and> node_config_to_hashmap c w = None"
proof -
  let ?j = "JObject [(''peer_count'', JNumber (of_int n))]"
  let ?c = "init\<lparr>nc_peer_count := n\<rparr>"
  have n: "is_i32 n" using assms(2,3) by (simp add: is_i32_def INT_MIN_def)
  from print_and_parse [of ?j False] n
  obtain s where s: "cJSON_PrintUnformatted ?j = Some s" "cJSON_Parse s = Some ?j"
    unfolding cJSON_PrintUnformatted_def by auto
  have "json_to_node_config init s = Some (Some ?c)"
    using s(2) n
    by (simp add: json_to_node_config_def cJSON_GetObjectItem_def case_insensitive_eq_def
        tolower_def uchar_def str_field_def int_field_def num_int_of_int)
  have none: "those (map f xs) = None" if "x \<in> set xs" "f x = None"
    for f :: "int \<Rightarrow> peer_info option" and x xs
    using that by (induction xs) (auto split: option.splits)
  have "peers_read ?c = None"
    unfolding peers_read_def
    by (rule none [of "int MAX_PEERS"]) (use assms in \<open>auto simp: peer_at_def\<close>)
  then have "node_config_to_hashmap ?c w = None"
    using assms(2) by (simp add: node_config_to_hashmap_def Let_def)
  with \<open>json_to_node_config init s = Some (Some ?c)\<close> show ?thesis using s(1) by blast
qed

lemma advertised_count_unchecked_witness:
  "\<exists>s c. cJSON_PrintUnformatted (JObject [(''peer_count'', JNumber (of_int 51))]) = Some s \<and>
    json_to_node_config global_config_init s = Some (Some c) \<and> node_config_to_hashmap c 0 = None"
  by (rule advertised_count_unchecked)
    (simp_all add: MAX_PEERS_def INT_MAX_def global_config_init_simps(4) [unfolded MAX_PEERS_def])

subsection \<open>The network map\<close>

text \<open>
  \<open>update_network_map\<close> on the map of the program (100 buckets) sets the entry of one node
  and leaves every other entry, whether the node was known or not.
\<close>

theorem update_network_map_get:
  assumes "ht_inv K m" "table_key K u" "table_key K j"
  shows "ht_inv K (update_network_map m u v) \<and>
    hash_table_get (update_network_map m u v) (key_mem j) (length j) =
      (if j = u then Some v else hash_table_get m (key_mem j) (length j))"
proof
  show "ht_inv K (update_network_map m u v)"
    by (simp add: update_network_map_def Let_def ht.inv_put [OF assms(1,2)] ht.inv_replace [OF assms(1,2)])
  show "hash_table_get (update_network_map m u v) (key_mem j) (length j) =
      (if j = u then Some v else hash_table_get m (key_mem j) (length j))"
    using ht.get_replace_if_present [OF assms, of v]
    by (cases "hash_table_get m (key_mem u) (length u)") (simp_all add: update_network_map_def)
qed

lemma update_network_map_get_witness:
  "hash_table_get (update_network_map (hash_table_create MAX_HASHTABLE_SIZE) ''n1'' (3 :: nat))
    (key_mem ''n1'') 2 = Some 3"
proof -
  have "table_key {''n1''} ''n1''" by (simp add: table_key_def prefix_free_def)
  from update_network_map_get [OF ht.inv_empty this this, of "3 :: nat"]
  show ?thesis by (simp add: numeral_2_eq_2)
qed

subsection \<open>Which node holds which file\<close>

lemma put_str_chain:
  assumes "k \<noteq> []" "length k \<le> 256"
  shows "hash_table_put_str ht (key_mem k) v (length k) block =
    Some (ht\<lparr>ht_buckets := (ht_buckets ht)[ht_index ht (key_mem k) (length k) :=
      chain_put (k @ drop (length k) block) (key_mem k) (length k) v
        (ht_buckets ht ! ht_index ht (key_mem k) (length k))]\<rparr>)"
proof -
  have "key_size (length k) = length k" using assms(1) by (simp add: key_size_def)
  with assms show ?thesis
    by (simp add: hash_table_put_str_def Let_def chain_put_def key_mem_def split: option.split)
qed

lemma table_abs_update:
  assumes "table_key K k"
    and "\<And>j. table_key K j \<Longrightarrow> hash_table_get ht' (key_mem j) (length j) =
      (if j = k then Some v else hash_table_get ht (key_mem j) (length j))"
  shows "table_abs K ht' = (table_abs K ht)(k \<mapsto> v)"
  using assms by (auto simp: table_abs_def fun_eq_iff)

lemma put_str_abs:
  assumes "ht_inv K ht" "table_key K k" "length k \<le> 256"
  shows "\<exists>ht'. hash_table_put_str ht (key_mem k) v (length k) block = Some ht' \<and> ht_inv K ht' \<and>
    table_abs K ht' = (table_abs K ht)(k \<mapsto> v)"
proof -
  let ?i = "ht_index ht (key_mem k) (length k)"
  let ?ns = "chain_put (k @ drop (length k) block) (key_mem k) (length k) v (ht_buckets ht ! ?i)"
  let ?ht = "ht\<lparr>ht_buckets := (ht_buckets ht)[?i := ?ns]\<rparr>"
  have "ht_inv K ?ht"
    by (rule ht_inv_bucket [OF assms(1)]) (rule chain_inv_put [OF assms(2)], simp_all)
  moreover have "table_abs K ?ht = (table_abs K ht)(k \<mapsto> v)"
  proof (rule table_abs_update [OF assms(2)])
    fix j
    assume j: "table_key K j"
    show "hash_table_get ?ht (key_mem j) (length j) =
        (if j = k then Some v else hash_table_get ht (key_mem j) (length j))"
      by (rule ht_get_bucket [OF assms(1) refl j assms(2)])
        (rule chain_get_put [OF assms(2) j], simp)
  qed
  ultimately show ?thesis
    by (intro exI [of _ ?ht] conjI put_str_chain [OF table_key_ne [OF assms(2)] assms(3)])
qed

definition holders_ok :: "string \<Rightarrow> (string \<rightharpoonup> file_info) \<Rightarrow> bool" where
  "holders_ok u m \<longleftrightarrow> (\<forall>k f ps. m k = Some f \<longrightarrow> fi_peers f = Some ps \<longrightarrow> ht_inv {u} ps)"

definition held_by :: "string \<Rightarrow> (string \<rightharpoonup> file_info) \<Rightarrow> string \<Rightarrow> bool" where
  "held_by u m k \<longleftrightarrow> (\<exists>f ps. m k = Some f \<and> fi_peers f = Some ps \<and>
     hash_table_get ps (key_mem u) (length u) \<noteq> None)"

lemma single_key: "u \<noteq> [] \<Longrightarrow> table_key {u} u"
  by (simp add: table_key_def prefix_free_def)

lemma add_holder_get:
  assumes "ht_inv {u} ps" "u \<noteq> []"
  shows "ht_inv {u} (add_holder u ps)"
    "hash_table_get (add_holder u ps) (key_mem u) (length u) = Some ()"
  using assms single_key [OF assms(2)]
  by (auto simp: add_holder_def ht_inv_put ht_get_put)

lemma update_file_abs:
  assumes "ht_inv K files" "table_key K k" "length k < 128" "length dead_path < 256" "u \<noteq> []"
    and "holders_ok u (table_abs K files)"
  shows "\<exists>files' f. update_file dead_path block u k files = Some files' \<and> ht_inv K files' \<and>
    table_abs K files' = (table_abs K files)(k \<mapsto> f) \<and>
    holders_ok u (table_abs K files') \<and> held_by u (table_abs K files') k"
proof -
  have done': ?thesis
    if "update_file dead_path block u k files = Some files'" "ht_inv K files'"
      "table_abs K files' = (table_abs K files)(k \<mapsto> f\<lparr>fi_peers := Some (add_holder u ps)\<rparr>)"
      "ht_inv {u} ps" for files' f ps
    using that assms(6) add_holder_get [OF that(4) assms(5)]
    by (auto simp: holders_ok_def held_by_def)
  show ?thesis
  proof (cases "Option.bind (hash_table_get files (key_mem k) (length k)) fi_peers")
    case (Some ps)
    then obtain f where f: "hash_table_get files (key_mem k) (length k) = Some f" "fi_peers f = Some ps"
      by (auto simp: bind_Some_iff)
    have "ht_inv {u} ps"
      using assms(2,6) f unfolding holders_ok_def by (metis table_abs_get)
    then show ?thesis
      using Some f assms(1,2)
      by (intro done' [where f = f and ps = ps and files' = "hash_table_modify files (key_mem k)
            (length k) (\<lambda>f. f\<lparr>fi_peers := Some (add_holder u ps)\<rparr>)"])
        (auto simp: update_file_def Let_def ht_inv_modify table_abs_def ht_get_modify fun_eq_iff)
  next
    case None
    let ?new = "hash_table_create MAX_HASHTABLE_SIZE :: unit hash_table"
    let ?f = "\<lparr>fi_path = dead_path, fi_peers = Some (add_holder u ?new)\<rparr>"
    obtain files' where files': "hash_table_put_str files (key_mem k) ?f (length k) block = Some files'"
      "ht_inv K files'" "table_abs K files' = (table_abs K files)(k \<mapsto> ?f)"
      using put_str_abs [OF assms(1,2), of ?f block] assms(3) by auto
    have "ht_inv {u} ?new" by (rule ht.inv_empty)
    then show ?thesis
      using None files' assms(3,4)
      by (intro done' [where files' = files' and f = ?f and ps = ?new])
        (auto simp: update_file_def Let_def strcpy_buf_def fits_def bind_Some_iff)
  qed
qed

lemma update_files_abs:
  assumes "\<forall>nd\<in>set nds. key_cstr (node_key nd) = Some (c_str (node_key nd)) \<and>
      table_key K (c_str (node_key nd)) \<and> length (c_str (node_key nd)) < 128"
    and "length dead_path < 256" "u \<noteq> []" "ht_inv K files" "holders_ok u (table_abs K files)"
  shows "\<exists>files'. update_files dead_path blocks i u nds files = Some files' \<and> ht_inv K files' \<and>
    (\<forall>nd\<in>set nds. held_by u (table_abs K files') (c_str (node_key nd))) \<and>
    (\<forall>k. held_by u (table_abs K files) k \<longrightarrow> held_by u (table_abs K files') k) \<and>
    (\<forall>k. k \<notin> (\<lambda>nd. c_str (node_key nd)) ` set nds \<longrightarrow> table_abs K files' k = table_abs K files k)"
  using assms
proof (induction nds arbitrary: i files)
  case (Cons nd nds)
  let ?k = "c_str (node_key nd)"
  obtain files1 f where 1: "update_file dead_path (blocks i) u ?k files = Some files1" "ht_inv K files1"
    "table_abs K files1 = (table_abs K files)(?k \<mapsto> f)" "holders_ok u (table_abs K files1)"
    "held_by u (table_abs K files1) ?k"
    using update_file_abs [OF Cons.prems(4), of ?k dead_path u "blocks i"] Cons.prems by auto
  obtain files2 where 2: "update_files dead_path blocks (Suc i) u nds files1 = Some files2"
    "ht_inv K files2" "\<forall>nd\<in>set nds. held_by u (table_abs K files2) (c_str (node_key nd))"
    "\<forall>k. held_by u (table_abs K files1) k \<longrightarrow> held_by u (table_abs K files2) k"
    "\<forall>k. k \<notin> (\<lambda>nd. c_str (node_key nd)) ` set nds \<longrightarrow> table_abs K files2 k = table_abs K files1 k"
    using Cons.IH [OF _ Cons.prems(2,3) 1(2,4), of "Suc i"] Cons.prems(1) by auto
  have "held_by u (table_abs K files1) k" if "held_by u (table_abs K files) k" for k
    using that 1(3,5) by (cases "k = ?k") (auto simp: held_by_def)
  moreover have "update_files dead_path blocks i u (nd # nds) files = Some files2"
    using 1(1) 2(1) Cons.prems(1) by simp
  moreover have "table_abs K files2 k = table_abs K files k"
    if "k \<notin> (\<lambda>nd. c_str (node_key nd)) ` set (nd # nds)" for k
    using that 1(3) 2(5) by simp
  ultimately show ?case using 1(5) 2(2,3,4) by (intro exI [of _ files2]) simp
qed simp

text \<open>
  C21. After an advertised file map is taken over, every advertised path is known here and
  lists the advertising node among its holders; files it did not advertise keep their entry.
\<close>

theorem update_peer_to_files_map_holders:
  assumes "\<forall>nd\<in>set (ht_nodes ads). NUL \<in> set (node_key nd) \<and> table_key K (c_str (node_key nd)) \<and>
      length (c_str (node_key nd)) < 128"
    and "length dead_path < 256" "nc_uuid peer \<noteq> []"
    and "ht_inv K files" "holders_ok (nc_uuid peer) (table_abs K files)"
  shows "\<exists>files'. update_peer_to_files_map dead_path blocks files (Some ads) peer = Some files' \<and>
    ht_inv K files' \<and>
    (\<forall>nd\<in>set (ht_nodes ads). held_by (nc_uuid peer) (table_abs K files') (c_str (node_key nd))) \<and>
    (\<forall>k. k \<notin> (\<lambda>nd. c_str (node_key nd)) ` set (ht_nodes ads) \<longrightarrow>
      table_abs K files' k = table_abs K files k)"
  using update_files_abs [OF _ assms(2-5), of "ht_nodes ads" blocks 0] assms(1)
  by (auto simp: update_peer_to_files_map_def key_cstr_def)

lemma update_peer_to_files_map_holders_witness:
  "\<exists>files'. update_peer_to_files_map [] (\<lambda>_. []) (hash_table_create MAX_HASHTABLE_SIZE)
      (Some \<lparr>ht_size = 1, ht_buckets = [[\<lparr>node_key = ''content/a'' @ [NUL], node_value = ()\<rparr>]]\<rparr>)
      global_config_init = Some files' \<and>
    held_by ''uuid'' (table_abs {''content/a''} files') ''content/a''"
proof -
  have k: "table_key {''content/a''} ''content/a''" by (simp add: table_key_def prefix_free_def)
  have c: "c_str (''content/a'' @ [NUL]) = ''content/a''" by (simp add: c_str_def)
  have "holders_ok (nc_uuid global_config_init) (table_abs {''content/a''}
      (hash_table_create MAX_HASHTABLE_SIZE))"
    by (auto simp: holders_ok_def table_abs_def ht_get_create MAX_HASHTABLE_SIZE_def)
  from update_peer_to_files_map_holders [OF _ _ _ ht.inv_empty this,
      of "\<lparr>ht_size = 1, ht_buckets = [[\<lparr>node_key = ''content/a'' @ [NUL], node_value = ()\<rparr>]]\<rparr>" "[]" "\<lambda>_. []"]
  show ?thesis using k c by (auto simp: ht_nodes_def global_config_init_simps)
qed

end
