(* ===== verification/HashMap.thy ===== *)
theory HashMap
  imports Store "HOL-Library.Multiset"
begin

text \<open>
  \<open>hashmap.c\<close>: the map from strings to strings in which the server remembers the sockets
  that asked for a file. A chain is the list of its entries, newest first; keys and values
  are copies (\<open>strdup\<close>), so an entry holds the strings themselves.
\<close>

definition HASH_TABLE_SIZE :: nat where
  "HASH_TABLE_SIZE = 256"

record hm_entry =
  hme_key :: string
  hme_value :: string

record hm_map =
  hm_entries :: "hm_entry list list"

text \<open>\<open>hash\<close>: unsigned arithmetic on signed characters, up to the terminator.\<close>

definition hm_hash :: "string \<Rightarrow> 32 word" where
  "hm_hash str =
     foldl (\<lambda>result c. result * 31 + word_of_int (schar c)) 0 (c_str str)
       mod of_nat HASH_TABLE_SIZE"

definition hashmap_new :: hm_map where
  "hashmap_new = \<lparr>hm_entries = replicate HASH_TABLE_SIZE []\<rparr>"

text \<open>\<open>hashmap_free\<close> releases the entries of every chain from its head; the result is the
  list of the entries in the order of their release.\<close>

definition hashmap_free :: "hm_map \<Rightarrow> hm_entry list" where
  "hashmap_free m = concat (map (\<lambda>i. hm_entries m ! i) [0..<HASH_TABLE_SIZE])"

definition hashmap_put :: "hm_map \<Rightarrow> string \<Rightarrow> string \<Rightarrow> hm_map" where
  "hashmap_put m key value =
     (let index = unat (hm_hash key);
          entry = \<lparr>hme_key = key, hme_value = value\<rparr>
      in m\<lparr>hm_entries := (hm_entries m)[index := entry # hm_entries m ! index]\<rparr>)"

fun hm_chain_get :: "hm_entry list \<Rightarrow> string \<Rightarrow> string option" where
  "hm_chain_get [] key = None"
| "hm_chain_get (entry # es) key =
     (if hme_key entry = key then Some (hme_value entry) else hm_chain_get es key)"

definition hashmap_get :: "hm_map \<Rightarrow> string \<Rightarrow> string option" where
  "hashmap_get m key = hm_chain_get (hm_entries m ! unat (hm_hash key)) key"

definition hashmap_print_all :: "hm_map \<Rightarrow> string" where
  "hashmap_print_all m =
     concat (map (\<lambda>e. hme_key e @ '': '' @ hme_value e @ [LF])
       (concat (map (\<lambda>i. hm_entries m ! i) [0..<HASH_TABLE_SIZE])))"

definition hm_wf :: "hm_map \<Rightarrow> bool" where
  "hm_wf m \<longleftrightarrow> length (hm_entries m) = HASH_TABLE_SIZE"

lemma hm_hash_less: "unat (hm_hash k) < HASH_TABLE_SIZE"
proof -
  have "unat (x mod of_nat HASH_TABLE_SIZE :: 32 word) < 256" for x :: "32 word"
    by (simp add: HASH_TABLE_SIZE_def unat_mod)
  then show ?thesis by (simp add: hm_hash_def HASH_TABLE_SIZE_def)
qed

lemma hm_wf_new: "hm_wf hashmap_new"
  by (simp add: hm_wf_def hashmap_new_def)

lemma hm_wf_put: "hm_wf m \<Longrightarrow> hm_wf (hashmap_put m k v)"
  by (simp add: hm_wf_def hashmap_put_def Let_def)

lemma hashmap_get_new: "hashmap_get hashmap_new k = None"
  using hm_hash_less [of k] by (simp add: hashmap_get_def hashmap_new_def)

lemma hashmap_get_put:
  assumes "hm_wf m"
  shows "hashmap_get (hashmap_put m k v) j = (if j = k then Some v else hashmap_get m j)"
  using assms hm_hash_less [of k]
  by (auto simp: hashmap_get_def hashmap_put_def hm_wf_def Let_def nth_list_update)

text \<open>The map provides the store for every key: \<open>strcmp\<close> compares whole strings.\<close>

interpretation hm: keyed_store hashmap_new hashmap_put hashmap_get hm_wf "\<lambda>_. True"
  by unfold_locales (auto simp: hm_wf_new hm_wf_put hashmap_get_new hashmap_get_put)

text \<open>
  After any sequence of insertions into a new map, a lookup returns the value inserted
  last for that key, and \<open>NULL\<close> for a key never inserted, whatever keys collide.
\<close>

theorem hashmap_lookup_last:
  "hashmap_get (foldl (\<lambda>m (k, v). hashmap_put m k v) hashmap_new kvs) j = map_of (rev kvs) j"
  using hm.get_put_all [of hashmap_new kvs j]
  by (simp add: hm_wf_new hashmap_get_new split: option.splits)

lemma hm_concat_put:
  assumes "hm_wf m"
  shows "mset (hashmap_free (hashmap_put m k v)) =
    add_mset \<lparr>hme_key = k, hme_value = v\<rparr> (mset (hashmap_free m))"
proof -
  let ?i = "unat (hm_hash k)" and ?e = "\<lparr>hme_key = k, hme_value = v\<rparr>"
  let ?es = "hm_entries m"
  have l: "?i < length ?es" using assms hm_hash_less [of k] by (simp add: hm_wf_def)
  have all: "hashmap_free m' = concat (hm_entries m')" if "hm_wf m'" for m'
    using that by (simp add: hashmap_free_def hm_wf_def) (metis map_nth)
  have "concat (?es[?i := ?e # ?es ! ?i]) =
      concat (take ?i ?es) @ ?e # ?es ! ?i @ concat (drop (Suc ?i) ?es)"
    using l by (simp add: upd_conv_take_nth_drop)
  moreover have "concat ?es = concat (take ?i ?es) @ ?es ! ?i @ concat (drop (Suc ?i) ?es)"
    using l by (metis concat.simps(2) concat_append id_take_nth_drop)
  ultimately have "mset (concat (?es[?i := ?e # ?es ! ?i])) = add_mset ?e (mset (concat ?es))"
    by simp
  then show ?thesis
    using all [OF assms] all [OF hm_wf_put [OF assms, of k v]]
    by (simp add: hashmap_put_def Let_def)
qed

end
