(* ===== verification/PeerApi.thy ===== *)
theory PeerApi
  imports FileTransfer LinkState HashMap
begin

text \<open>
  The requests \<open>/peer/...\<close> of a node: \<open>process_peer_path\<close> of \<open>src/hw4/src/uri_parse.c\<close>, one
  definition per command, over the global state of a node.

  The network map stores pointers: the entry of the node itself points to \<open>global_config\<close>, so
  that a change of the configuration shows in the map; every other entry points to a
  configuration that only the map refers to.
\<close>

subsection \<open>The state of a node\<close>

datatype node_ref = Self | Other node_config

fun deref :: "node_config \<Rightarrow> node_ref \<Rightarrow> node_config" where
  "deref global_config Self = global_config"
| "deref global_config (Other c) = c"

record node =
  nd_config :: node_config
  nd_network_map :: "node_ref hash_table"
  nd_filepaths :: "file_info hash_table"
  nd_sockets_map :: hm_map
  nd_peers :: peer_table
  nd_rate_limit :: int

text \<open>The network map with the configurations that its pointers lead to.\<close>

definition map_table :: "('v \<Rightarrow> 'w) \<Rightarrow> 'v hash_table \<Rightarrow> 'w hash_table" where
  "map_table f ht =
     \<lparr>ht_size = ht_size ht,
      ht_buckets = map (map (\<lambda>n. \<lparr>node_key = node_key n, node_value = f (node_value n)\<rparr>)) (ht_buckets ht)\<rparr>"

definition network_configs :: "node \<Rightarrow> node_config hash_table" where
  "network_configs nd = map_table (deref (nd_config nd)) (nd_network_map nd)"

text \<open>
  The environment of a request: dates, the files behind paths, whether \<open>node.conf\<close> exists,
  whether \<open>html/file_list.html\<close> can be written, which hosts resolve, and what the memory holds
  that the code reads without having written it: the pointer \<open>uuid\<close> of \<open>/peer/view\<close>, its
  content type, and the configuration \<open>url_path_to_config\<close> allocates.
\<close>

record api_env =
  ae_date :: string
  ae_last_modified :: string
  ae_files :: "string \<Rightarrow> string option"
  ae_node_conf :: bool
  ae_html_writable :: bool
  ae_resolves :: "string \<Rightarrow> bool"
  ae_uuid_junk :: "string option"
  ae_type_junk :: string
  ae_config_junk :: node_config

datatype api_result = Answer node "net_action list" | Killed

definition answer :: "node \<Rightarrow> tcp_action list \<Rightarrow> api_result" where
  "answer nd acts = Answer nd (map Tcp acts)"

definition send_page :: "api_env \<Rightarrow> int \<Rightarrow> node \<Rightarrow> string \<Rightarrow> api_result option" where
  "send_page env connect_fd nd page =
     map_option (answer nd)
       (send_html_from_file (ae_date env) (ae_last_modified env) (ae_files env page) connect_fd)"

definition send_json :: "api_env \<Rightarrow> int \<Rightarrow> node \<Rightarrow> string option \<Rightarrow> api_result option" where
  "send_json env connect_fd nd str =
     map_option (answer nd) (send_json_str (ae_date env) connect_fd str)"

subsection \<open>\<open>/peer/add\<close>\<close>

record add_info =
  ai_path :: "string option"
  ai_host :: "string option"
  ai_port :: "string option"
  ai_rate :: "string option"

definition set_add_info :: "string \<Rightarrow> string option \<Rightarrow> add_info \<Rightarrow> add_info" where
  "set_add_info field_name data info =
     (if field_name = ''path'' then info\<lparr>ai_path := data\<rparr>
      else if field_name = ''host'' then info\<lparr>ai_host := data\<rparr>
      else if field_name = ''port'' then info\<lparr>ai_port := data\<rparr>
      else if field_name = ''rate'' then info\<lparr>ai_rate := data\<rparr>
      else info)"

text \<open>The loop over the fields between ampersands. A field of equal signs only has no name.\<close>

function read_add_info :: "add_info \<Rightarrow> string \<Rightarrow> add_info option" where
  "read_add_info info rest =
     (case strtok_r ''&'' rest of
        (None, _) \<Rightarrow> Some info
      | (Some new_token, rest') \<Rightarrow>
          (case strtok_r ''='' new_token of
             (None, _) \<Rightarrow> None
           | (Some field_name, remainder) \<Rightarrow>
               read_add_info (set_add_info field_name (fst (strtok_r ''='' remainder)) info) rest'))"
  by pat_completeness auto
termination
proof (relation "measure (\<lambda>(info, rest). length rest)", goal_cases)
  case 1
  show ?case by simp
next
  case (2 info rest x y t xa ya n)
  from 2 have "strtok_r ''&'' rest = (Some t, y)" by simp
  with length_strtok_r [of "''&''" rest t] show ?case by simp
qed

declare read_add_info.simps [simp del]

definition api_add :: "api_env \<Rightarrow> int \<Rightarrow> node \<Rightarrow> string \<Rightarrow> api_result option" where
  "api_add env connect_fd nd rest = do {
     info \<leftarrow> read_add_info \<lparr>ai_path = None, ai_host = None, ai_port = None, ai_rate = None\<rparr> rest;
     path \<leftarrow> ai_path info;
     path \<leftarrow> strcpy_buf 256 path;
     host \<leftarrow> ai_host info;
     host \<leftarrow> strcpy_buf 256 host;
     port \<leftarrow> ai_port info;
     port \<leftarrow> strcpy_buf 256 port;
     rate \<leftarrow> strcpy_buf 256 (case ai_rate info of None \<Rightarrow> ''0'' | Some r \<Rightarrow> r);
     let peer = \<lparr>pu_path = path, pu_host = host, pu_port = port, pu_rate = rate\<rparr>;
     send_page env connect_fd (nd\<lparr>nd_peers := add_peer_to_list (nd_peers nd) peer\<rparr>)
       ''html/peer_add.html'' }"

subsection \<open>\<open>/peer/view\<close>\<close>

text \<open>
  The holder that the loop over the buckets leaves in \<open>uuid\<close>: the first node of the last
  bucket that is not empty, and what the pointer held before when all are.
\<close>

fun bucket_holder :: "string option option \<Rightarrow> unit hash_node list \<Rightarrow> string option option" where
  "bucket_holder uuid [] = uuid"
| "bucket_holder uuid (node2 # nodes) = map_option Some (key_cstr (node_key node2))"

definition last_holder :: "string option \<Rightarrow> unit hash_table \<Rightarrow> string option option" where
  "last_holder junk peers =
     foldl bucket_holder (Some junk) (map (\<lambda>j. ht_buckets peers ! j) [0..<ht_size peers])"

text \<open>The extension of a local file: \<open>sscanf(path, "%*[^.]%s", file_type)\<close> into ten bytes.\<close>

definition local_file_type :: "string \<Rightarrow> string option option" where
  "local_file_type content_path =
     (case sscanf [SkipSet (\<lambda>c. c \<noteq> CHR ''.''), ConvStr] content_path of
        [AStr t] \<Rightarrow> map_option Some (strcpy_buf 10 t)
      | _ \<Rightarrow> Some None)"

definition view_local :: "api_env \<Rightarrow> int \<Rightarrow> node \<Rightarrow> string \<Rightarrow> string \<Rightarrow> api_result option" where
  "view_local env connect_fd nd og_req_buffer content_path =
     (case ae_files env content_path of
        None \<Rightarrow> Some (answer nd [])
      | Some content \<Rightarrow> do {
          file_type \<leftarrow> local_file_type content_path;
          content_type \<leftarrow>
            (case file_type of
               None \<Rightarrow> Some (ae_type_junk env)
             | Some t \<Rightarrow> map_option fst (content_type_lookup (Some t)));
          map_option (answer nd)
            (transfer_file_chunk (ae_date env) (ae_last_modified env) (Some content) og_req_buffer
              connect_fd content_type) })"

text \<open>\<open>found_peer->host\<close> is changed where the pointer leads: in the configuration of the node
itself or in the entry of the map.\<close>

definition set_found_host :: "node \<Rightarrow> string \<Rightarrow> node_ref \<Rightarrow> string \<Rightarrow> node" where
  "set_found_host nd uuid found host =
     (case found of
        Self \<Rightarrow> nd\<lparr>nd_config := (nd_config nd)\<lparr>nc_host := host\<rparr>\<rparr>
      | Other c \<Rightarrow> nd\<lparr>nd_network_map := hash_table_modify (nd_network_map nd) (key_mem uuid) (length uuid)
          (\<lambda>_. Other (c\<lparr>nc_host := host\<rparr>))\<rparr>)"

definition view_found ::
  "api_env \<Rightarrow> int \<Rightarrow> node \<Rightarrow> string \<Rightarrow> string \<Rightarrow> string \<Rightarrow> node_ref \<Rightarrow> api_result option" where
  "view_found env connect_fd nd og_req_buffer content_path uuid found = do {
     view_req_fd_filepath \<leftarrow> sprintf_buf 256 (show_int connect_fd @ '' '' @ content_path);
     let nd = (if hashmap_get (nd_sockets_map nd) view_req_fd_filepath = None
       then nd\<lparr>nd_sockets_map :=
         hashmap_put (nd_sockets_map nd) view_req_fd_filepath view_req_fd_filepath\<rparr>
       else nd);
     let found_peer = deref (nd_config nd) found;
     let host = (if nc_host found_peer = ''::1'' then ''localhost'' else nc_host found_peer);
     let nd = (if nc_host found_peer = ''::1'' then set_found_host nd uuid found host else nd);
     if \<not> ae_resolves env host then Some (answer nd [])
     else do {
       ack_packet \<leftarrow> request_packet view_req_fd_filepath content_path
         (parse_http_range_header og_req_buffer);
       if nc_uuid (nd_config nd) = nc_uuid found_peer
       then view_local env connect_fd nd og_req_buffer content_path
       else Some (Answer nd [UdpTo host (nc_backend_port found_peer) ack_packet]) } }"

definition api_view :: "api_env \<Rightarrow> int \<Rightarrow> node \<Rightarrow> string \<Rightarrow> string \<Rightarrow> api_result option" where
  "api_view env connect_fd nd og_req_buffer rest =
     (case strtok_r [] rest of
        (None, _) \<Rightarrow> None
      | (Some content_path, _) \<Rightarrow>
          (case hash_table_get (nd_filepaths nd) (key_mem content_path) (length content_path) of
             None \<Rightarrow> send_page env connect_fd nd ''html/not_found.html''
           | Some info \<Rightarrow> do {
               peers \<leftarrow> fi_peers info;
               uuid \<leftarrow> last_holder (ae_uuid_junk env) peers;
               case uuid of
                 None \<Rightarrow> send_page env connect_fd nd ''html/not_found.html''
               | Some uuid \<Rightarrow>
                   (case hash_table_get (nd_network_map nd) (key_mem uuid) (length uuid) of
                      None \<Rightarrow> send_page env connect_fd nd ''html/not_found.html''
                    | Some found \<Rightarrow>
                        view_found env connect_fd nd og_req_buffer content_path uuid found) }))"

subsection \<open>\<open>/peer/search\<close>\<close>

definition holder_list :: "file_info \<Rightarrow> string list option" where
  "holder_list f =
     (case fi_peers f of
        None \<Rightarrow> Some []
      | Some peers \<Rightarrow> those (map (\<lambda>node2. key_cstr (node_key node2)) (ht_nodes peers)))"

definition file_object :: "string \<Rightarrow> string list \<Rightarrow> cJSON" where
  "file_object path uuids =
     (let obj = cJSON_AddStringToObject cJSON_CreateObject ''content'' path;
          peers_array = foldl (\<lambda>a u. cJSON_AddItemToArray a (cJSON_CreateString u)) cJSON_CreateArray uuids
      in cJSON_AddItemToObject obj ''peers'' peers_array)"

text \<open>The loop over the nodes of the file table.\<close>

fun search_nodes :: "bool \<Rightarrow> string \<Rightarrow> file_info hash_node list \<Rightarrow> cJSON \<Rightarrow> cJSON option" where
  "search_nodes show_all content_path [] json = Some json"
| "search_nodes show_all content_path (node # nodes) json = do {
     key \<leftarrow> key_cstr (node_key node);
     to_search \<leftarrow> strcpy_buf 128 key;
     search_for \<leftarrow> strcpy_buf 128 content_path;
     if strstr to_search search_for \<noteq> None \<or> show_all
     then do {
       uuids \<leftarrow> holder_list (node_value node);
       search_nodes show_all content_path nodes (cJSON_AddItemToArray json (file_object key uuids)) }
     else search_nodes show_all content_path nodes json }"

definition html_line :: "string \<Rightarrow> string" where
  "html_line l = l @ [LF]"

definition file_list_html :: "string list \<Rightarrow> string" where
  "file_list_html names =
     concat (map html_line
       ([''<!DOCTYPE html>'', ''<html>'', ''<head>'', ''<title>File List</title>'', ''</head>'',
         ''<body>'', ''<h1>File List</h1>'', ''<ul>''] @
        map (\<lambda>name. ''<li>'' @ name @ ''</li>'') names @
        [''</ul>'', ''</body>'', ''</html>'']))"

definition item_content :: "cJSON \<Rightarrow> string option" where
  "item_content item = Option.bind (cJSON_GetObjectItem item ''content'') cJSON_GetStringValue"

definition api_search :: "api_env \<Rightarrow> int \<Rightarrow> node \<Rightarrow> string \<Rightarrow> api_result option" where
  "api_search env connect_fd nd rest = do {
     let show_all = (rest = []);
     let content_path = (if show_all then [] else rest);
     json \<leftarrow> search_nodes show_all content_path (ht_nodes (nd_filepaths nd)) cJSON_CreateArray;
     if \<not> ae_html_writable env then None
     else do {
       names \<leftarrow> those (map item_content (map snd (json_children json)));
       json_string \<leftarrow> cJSON_Print json;
       acts \<leftarrow> send_json_str (ae_date env) connect_fd (Some json_string);
       Some (Answer nd (WriteFile ''html/file_list.html'' (file_list_html names) # map Tcp acts)) } }"

subsection \<open>The other commands\<close>

definition api_config :: "api_env \<Rightarrow> int \<Rightarrow> node \<Rightarrow> string \<Rightarrow> api_result option" where
  "api_config env connect_fd nd rest = do {
     config_options \<leftarrow> fst (strtok_r [] rest);
     rate \<leftarrow> fst (strtok_r ''&'' (snd (strtok_r ''='' config_options)));
     send_page env connect_fd (nd\<lparr>nd_rate_limit := atoi rate\<rparr>) ''html/config.html'' }"

definition api_uuid :: "api_env \<Rightarrow> int \<Rightarrow> node \<Rightarrow> api_result option" where
  "api_uuid env connect_fd nd = do {
     str \<leftarrow> get_json_config_uuid (ae_node_conf env) (nd_config nd);
     send_json env connect_fd nd (Some str) }"

definition api_neighbors :: "api_env \<Rightarrow> int \<Rightarrow> node \<Rightarrow> api_result option" where
  "api_neighbors env connect_fd nd = do {
     str \<leftarrow> get_config_value_by_key_json (nd_config nd) ''peers'' False;
     send_json env connect_fd nd str }"

text \<open>The text between \<open>GET\<close> and \<open>HTTP\<close> of the request, copied into 256 bytes.\<close>

definition addneighbor_query :: "string \<Rightarrow> string option option" where
  "addneighbor_query og_req_buffer =
     (case strstr og_req_buffer ''GET '' of
        None \<Rightarrow> Some None
      | Some start \<Rightarrow>
          (case strstr (drop 4 start) '' HTTP'' of
             None \<Rightarrow> Some None
           | Some rest \<Rightarrow>
               map_option Some (strcpy_buf 256 (take (length (drop 4 start) - length rest) (drop 4 start)))))"

definition api_addneighbor :: "api_env \<Rightarrow> int \<Rightarrow> node \<Rightarrow> string \<Rightarrow> api_result option" where
  "api_addneighbor env connect_fd nd og_req_buffer = do {
     query \<leftarrow> addneighbor_query og_req_buffer;
     case query of
       None \<Rightarrow> Some (answer nd [])
     | Some peer_string \<Rightarrow> do {
         (err, config) \<leftarrow> add_peer_from_string (nd_config nd) peer_string;
         let nd = nd\<lparr>nd_config := config\<rparr>;
         let reply = (\<lambda>text. map_option (answer nd) (send_str (ae_date env) connect_fd (Some text)));
         if err = -1 then reply ''Error: add_peer_from_string error''
         else if err = -2 then reply ''Error: Peer with UUID already exists''
         else do {
           peer_config \<leftarrow> url_path_to_config (ae_config_junk env) peer_string;
           case peer_config of
             ErrorPtr _ \<Rightarrow> None
           | ConfigPtr c \<Rightarrow> do {
               let nd = nd\<lparr>nd_network_map :=
                 update_network_map (nd_network_map nd) (nc_uuid c) (Other c)\<rparr>;
               api_neighbors env connect_fd nd } } } }"

definition api_map :: "api_env \<Rightarrow> int \<Rightarrow> node \<Rightarrow> api_result option" where
  "api_map env connect_fd nd = do {
     let nd = nd\<lparr>nd_network_map := update_network_map (nd_network_map nd) (nc_uuid (nd_config nd)) Self\<rparr>;
     str \<leftarrow> get_all_configs_json [''name'', ''weight'', ''peers''] [''name'', ''weight''] (network_configs nd);
     send_json env connect_fd nd (Some str) }"

subsection \<open>The dispatcher\<close>

definition process_peer_path ::
  "api_env \<Rightarrow> string \<Rightarrow> int \<Rightarrow> string \<Rightarrow> node \<Rightarrow> api_result option" where
  "process_peer_path env path_string connect_fd og_req_buffer nd =
     (case strtok_r ''/'' path_string of
        (None, _) \<Rightarrow> None
      | (Some first_token, rest) \<Rightarrow>
          if first_token \<noteq> ''peer'' then Some (answer nd [])
          else
            (case strtok_r ''/?'' rest of
               (None, _) \<Rightarrow> None
             | (Some peer_cmd, rest) \<Rightarrow>
                 if peer_cmd = ''add'' then api_add env connect_fd nd rest
                 else if peer_cmd = ''view'' then api_view env connect_fd nd og_req_buffer rest
                 else if peer_cmd = ''search'' then api_search env connect_fd nd rest
                 else if peer_cmd = ''config'' then api_config env connect_fd nd rest
                 else if peer_cmd = ''status'' then Some (answer nd [])
                 else if peer_cmd = ''uuid'' then api_uuid env connect_fd nd
                 else if peer_cmd = ''neighbors'' then api_neighbors env connect_fd nd
                 else if peer_cmd = ''addneighbor'' then api_addneighbor env connect_fd nd og_req_buffer
                 else if peer_cmd = ''kill'' then Some Killed
                 else if peer_cmd = ''map'' then api_map env connect_fd nd
                 else if peer_cmd = ''rank'' then api_neighbors env connect_fd nd
                 else Some (answer nd [])))"

subsection \<open>Commands on a path\<close>

lemma peer_command:
  assumes "c \<noteq> []" "set c \<inter> {CHR ''/'', CHR ''?''} = {}"
  shows "strtok_r ''/'' (''/peer/'' @ c @ r) = (Some ''peer'', c @ r)"
    and "d \<in> {CHR ''/'', CHR ''?''} \<Longrightarrow> strtok_r ''/?'' (c @ d # r) = (Some c, r)"
    and "strtok_r ''/?'' c = (Some c, [])"
proof -
  have "strtok_r ''/'' (''/'' @ ''peer'' @ CHR ''/'' # c @ r) = strtok_r ''/'' (''peer'' @ CHR ''/'' # c @ r)"
    by (rule strtok_r_skip) simp
  also have "\<dots> = (Some ''peer'', c @ r)"
    by (rule strtok_r_split) auto
  finally show "strtok_r ''/'' (''/peer/'' @ c @ r) = (Some ''peer'', c @ r)"
    by simp
  show "d \<in> {CHR ''/'', CHR ''?''} \<Longrightarrow> strtok_r ''/?'' (c @ d # r) = (Some c, r)"
    using assms by (intro strtok_r_split) auto
  show "strtok_r ''/?'' c = (Some c, [])"
    using assms by (intro strtok_r_whole) auto
qed

subsection \<open>Search\<close>

definition node_path :: "'v hash_node \<Rightarrow> string" where
  "node_path n = c_str (node_key n)"

definition node_holders :: "file_info hash_node \<Rightarrow> string list" where
  "node_holders n =
     (case fi_peers (node_value n) of None \<Rightarrow> [] | Some peers \<Rightarrow> map node_path (ht_nodes peers))"

text \<open>Keys have their terminator and paths fit the arrays that \<open>/peer/search\<close> copies them to.\<close>

definition files_searchable :: "file_info hash_table \<Rightarrow> bool" where
  "files_searchable files \<longleftrightarrow>
     (\<forall>n\<in>set (ht_nodes files). NUL \<in> set (node_key n) \<and> length (node_path n) < 128 \<and>
       (\<forall>peers. fi_peers (node_value n) = Some peers \<longrightarrow> (\<forall>m\<in>set (ht_nodes peers). NUL \<in> set (node_key m))))"

definition found_file :: "file_info hash_node \<Rightarrow> cJSON" where
  "found_file n = JObject [(''content'', JString (node_path n)), (''peers'', JArray (map JString (node_holders n)))]"

definition search_result :: "string \<Rightarrow> file_info hash_table \<Rightarrow> file_info hash_node list" where
  "search_result q files = filter (\<lambda>n. sublist q (node_path n)) (ht_nodes files)"

lemma file_object_found:
  "NUL \<in> set (node_key n) \<Longrightarrow>
    (\<forall>peers. fi_peers (node_value n) = Some peers \<longrightarrow> (\<forall>m\<in>set (ht_nodes peers). NUL \<in> set (node_key m))) \<Longrightarrow>
    holder_list (node_value n) = Some (node_holders n) \<and>
    file_object (node_path n) (node_holders n) = found_file n"
proof
  assume a: "\<forall>peers. fi_peers (node_value n) = Some peers \<longrightarrow> (\<forall>m\<in>set (ht_nodes peers). NUL \<in> set (node_key m))"
  have "those (map (\<lambda>node2. key_cstr (node_key node2)) ns) = Some (map node_path ns)"
    if "\<forall>m\<in>set ns. NUL \<in> set (node_key m)" for ns :: "unit hash_node list"
    using that by (intro those_all) (auto simp: key_cstr_def node_path_def)
  with a show "holder_list (node_value n) = Some (node_holders n)"
    by (simp add: holder_list_def node_holders_def split: option.split)
  have "foldl (\<lambda>a u. cJSON_AddItemToArray a (JString u)) (JArray vs) us = JArray (vs @ map JString us)" for us vs
    by (rule foldl_add_array)
  then show "file_object (node_path n) (node_holders n) = found_file n"
    by (simp add: file_object_def found_file_def json_build)
qed

lemma search_nodes_found:
  assumes "\<forall>n\<in>set ns. NUL \<in> set (node_key n) \<and> length (node_path n) < 128 \<and>
      (\<forall>peers. fi_peers (node_value n) = Some peers \<longrightarrow> (\<forall>m\<in>set (ht_nodes peers). NUL \<in> set (node_key m)))"
    and "length q < 128" "show_all = (q = [])"
  shows "search_nodes show_all q ns (JArray vs) =
    Some (JArray (vs @ map found_file (filter (\<lambda>n. sublist q (node_path n)) ns)))"
  using assms(1)
proof (induction ns arbitrary: vs)
  case Nil
  then show ?case by simp
next
  case (Cons n ns)
  note f = file_object_found [of n]
  have k: "key_cstr (node_key n) = Some (node_path n)"
    using Cons.prems by (simp add: key_cstr_def node_path_def)
  show ?case
  proof (cases "sublist q (node_path n)")
    case True
    with Cons f k assms(2) show ?thesis
      by (cases "strstr (node_path n) q") (auto simp: strstr_None_iff)
  next
    case False
    then have "strstr (node_path n) q = None" "q \<noteq> []" by (auto simp: strstr_None_iff)
    with False Cons k assms(2,3) show ?thesis by simp
  qed
qed

lemma found_file_ok: "json_ok (found_file n) \<and> json_depth (found_file n) \<le> 2"
proof -
  have "cstring s" if "s \<in> set (node_holders n)" for s
    using that by (auto simp: node_holders_def node_path_def split: option.splits)
  moreover have "Max (insert 0 ((\<lambda>x. 0 :: nat) ` set xs)) = 0" for xs :: "string list"
    by (cases "xs = []") auto
  ultimately show ?thesis
    by (auto simp: found_file_def node_path_def image_image)
qed

definition env_ok :: "api_env \<Rightarrow> bool" where
  "env_ok env \<longleftrightarrow> header_text 100 (ae_date env) \<and> header_text 100 (ae_last_modified env)"

text \<open>
  C35. \<open>/peer/search/q\<close> answers with a JSON text that reads as the array of exactly the known
  files whose path contains \<open>q\<close>, in the order of the table, each with the nodes that hold it
  (all files for an empty \<open>q\<close>), and writes the same paths as an HTML list. The stored paths and
  uuids end within their keys.
\<close>

theorem search_lists_matching_files:
  assumes "files_searchable (nd_filepaths nd)" "env_ok env" "ae_html_writable env" "length q < 128"
    and "\<forall>s. cJSON_Print (JArray (map found_file (search_result q (nd_filepaths nd)))) = Some s \<longrightarrow>
      length s < 261900"
  shows "\<exists>acts s. process_peer_path env (''/peer/search/'' @ q) fd req nd = Some (Answer nd acts) \<and>
    http_body (sent fd (tcp_of acts)) = Some (s @ crlf) \<and>
    cJSON_Parse s = Some (JArray (map found_file (search_result q (nd_filepaths nd)))) \<and>
    WriteFile ''html/file_list.html''
      (file_list_html (map node_path (search_result q (nd_filepaths nd)))) \<in> set acts"
proof -
  let ?ns = "search_result q (nd_filepaths nd)"
  let ?j = "JArray (map found_file ?ns)"
  have j: "search_nodes (q = []) q (ht_nodes (nd_filepaths nd)) (JArray []) = Some ?j"
    using search_nodes_found [of "ht_nodes (nd_filepaths nd)" q "q = []" "[]"] assms(1,4)
    by (simp add: files_searchable_def search_result_def)
  have "json_ok ?j" using found_file_ok by auto
  moreover have "json_depth ?j \<le> Suc 2"
    by (rule json_depth_le_array) (use found_file_ok in simp)
  then have "json_depth ?j \<le> 1000" by linarith
  ultimately obtain s where s: "cJSON_Print ?j = Some s" "cJSON_Parse s = Some ?j"
    using print_and_parse unfolding cJSON_Print_def by blast
  obtain m where m: "send_json_str (ae_date env) fd (Some s) = Some [Send fd m, CloseFd fd]"
    "http_body m = Some (s @ crlf)"
    using send_json_str_ok [of "ae_date env" s fd] assms(2,5) s(1) by (auto simp: env_ok_def)
  have names: "those (map item_content (map snd (map (Pair x) (map found_file ns)))) = Some (map node_path ns)"
    for ns and x :: "string option"
    by (induction ns)
      (simp_all add: item_content_def found_file_def cJSON_GetObjectItem_def cJSON_GetStringValue_def
        case_insensitive_eq_def)
  have path: "strtok_r ''/'' (''/peer/search/'' @ q) = (Some ''peer'', ''search/'' @ q)"
    "strtok_r ''/?'' (''search/'' @ q) = (Some ''search'', q)"
    using peer_command(1) [of "''search''" "CHR ''/'' # q"] peer_command(2) [of "''search''" "CHR ''/''" q]
    by simp_all
  have "process_peer_path env (''/peer/search/'' @ q) fd req nd =
      Some (Answer nd (WriteFile ''html/file_list.html'' (file_list_html (map node_path ?ns)) #
        map Tcp [Send fd m, CloseFd fd]))"
    using j s(1) m(1) names assms(3)
    by (simp add: process_peer_path_def path [simplified] api_search_def json_build comp_def del: map_map)
  with s(2) m(2) show ?thesis by auto
qed

definition sample_node :: node where
  "sample_node =
     \<lparr>nd_config = global_config_init, nd_network_map = hash_table_create 100,
      nd_filepaths = \<lparr>ht_size = 1, ht_buckets =
        [[\<lparr>node_key = ''content/a.ogg'' @ [NUL], node_value = \<lparr>fi_path = ''content/a.ogg'',
            fi_peers = Some \<lparr>ht_size = 1, ht_buckets = [[\<lparr>node_key = ''n1'' @ [NUL], node_value = ()\<rparr>]]\<rparr>\<rparr>\<rparr>,
          \<lparr>node_key = ''content/b.txt'' @ [NUL], node_value = \<lparr>fi_path = ''content/b.txt'', fi_peers = None\<rparr>\<rparr>]]\<rparr>,
      nd_sockets_map = hashmap_new, nd_peers = peer_table_init, nd_rate_limit = 0\<rparr>"

definition sample_env :: api_env where
  "sample_env =
     \<lparr>ae_date = ''Sat, 11 Feb 2023 00:03:43 GMT'', ae_last_modified = ''now'', ae_files = Map.empty,
      ae_node_conf = True, ae_html_writable = True, ae_resolves = (\<lambda>_. True), ae_uuid_junk = None,
      ae_type_junk = [], ae_config_junk = global_config_init\<rparr>"

lemma sample_env_ok: "env_ok sample_env"
  by (simp add: env_ok_def header_text_def sample_env_def)

lemma sample_result:
  "map found_file (search_result ''ogg'' (nd_filepaths sample_node)) =
    [JObject [(''content'', JString ''content/a.ogg''), (''peers'', JArray [JString ''n1''])]]"
proof -
  have "sublist ''ogg'' ''content/a.ogg''" "\<not> sublist ''ogg'' ''content/b.txt''"
    by (simp_all add: sublist_code)
  then show ?thesis
    by (simp add: search_result_def sample_node_def ht_nodes_def found_file_def node_path_def c_str_def
        node_holders_def)
qed

lemma length_print_string: "length (print_string_ptr s) \<le> 6 * length s + 2"
proof -
  have "length (escape_char c) \<le> 6" for c by (simp add: escape_char_def)
  then have "length (concat (map escape_char s)) \<le> 6 * length s"
    by (induction s) (auto simp: add_le_mono)
  then show ?thesis by (simp add: print_string_ptr_def)
qed

lemma search_lists_matching_files_witness:
  "\<exists>acts s. process_peer_path sample_env ''/peer/search/ogg'' 5 [] sample_node = Some (Answer sample_node acts) \<and>
    http_body (sent 5 (tcp_of acts)) = Some (s @ crlf) \<and>
    cJSON_Parse s = Some (JArray
      [JObject [(''content'', JString ''content/a.ogg''), (''peers'', JArray [JString ''n1''])]])"
proof -
  have f: "files_searchable (nd_filepaths sample_node)"
    by (simp add: files_searchable_def sample_node_def ht_nodes_def node_path_def c_str_def)
  have w: "ae_html_writable sample_env" by (simp add: sample_env_def)
  have l: "length ''ogg'' < 128" by simp
  have "(case cJSON_Print (JArray
      [JObject [(''content'', JString ''content/a.ogg''), (''peers'', JArray [JString ''n1''])]]) of
        None \<Rightarrow> True | Some s \<Rightarrow> length s < 261900)"
    using length_print_string [of "''content''"] length_print_string [of "''content/a.ogg''"]
      length_print_string [of "''peers''"] length_print_string [of "''n1''"]
    by (simp add: cJSON_Print_def)
  then have "\<forall>s. cJSON_Print (JArray (map found_file (search_result ''ogg'' (nd_filepaths sample_node)))) = Some s \<longrightarrow>
      length s < 261900"
    unfolding sample_result by auto
  from search_lists_matching_files [OF f sample_env_ok w l this, of 5 "[]"]
  show ?thesis unfolding sample_result by auto
qed

end
