(* ===== verification/Blocks.thy ===== *)
theory Blocks
  imports FileTransfer
begin

text \<open>
  The transfer of one file in blocks: the protocol that the two programs of hw4 and the node
  and the \<open>peerserver\<close> of hw2 have in common. A download is the path and the bytes of a file,
  the browser's connection and the range it asks for; its blocks are the pieces of 1024 bytes.
  The locale \<open>block_transfer\<close> states what one datagram makes the receiving program do; from that
  alone follow what a download delivers, that it ends and that it is defined. The theories
  \<open>Session\<close> and \<open>Streaming\<close> interpret it on the two pairs of programs.
\<close>

subsection \<open>A download\<close>

text \<open>
  What a download is about: the path and the bytes of the file, the descriptor of the client
  and the range asked for. The bytes to deliver are those from the start of the range to its
  end, both included; the last byte of the file is the end of a range without an end (\<open>-1\<close>), of
  one that ends behind the file and of a request without a range. A range that ends at byte 0 is
  left out of \<open>dl_ok\<close>: the programs take its end for a missing one and deliver the whole file
  (\<open>range_zero_sends_all\<close> in \<open>Session\<close>).
\<close>

record download =
  dl_path :: string
  dl_content :: string
  dl_fd :: int
  dl_range :: "(nat \<times> int) option"

definition dl_size :: "download \<Rightarrow> int" where
  "dl_size d = int (length (dl_content d))"

definition dl_start :: "download \<Rightarrow> nat" where
  "dl_start d = (case dl_range d of None \<Rightarrow> 0 | Some (s, e) \<Rightarrow> s)"

definition dl_asked_end :: "download \<Rightarrow> int" where
  "dl_asked_end d = (case dl_range d of None \<Rightarrow> -1 | Some (s, e) \<Rightarrow> e)"

definition dl_end :: "download \<Rightarrow> int" where
  "dl_end d = (if dl_asked_end d = -1 \<or> dl_size d \<le> dl_asked_end d then dl_size d - 1 else dl_asked_end d)"

definition dl_body :: "download \<Rightarrow> string" where
  "dl_body d = take (nat (dl_end d + 1) - dl_start d) (drop (dl_start d) (dl_content d))"

definition dl_ok :: "download \<Rightarrow> bool" where
  "dl_ok d \<longleftrightarrow> is_i32 (dl_fd d) \<and> length (show_int (dl_fd d) @ '' '' @ dl_path d) < ID_SIZE \<and>
     dl_content d \<noteq> [] \<and> dl_size d < 2 ^ 31 - 2048 \<and> int (dl_start d) \<le> dl_end d \<and>
     dl_asked_end d \<noteq> 0"

text \<open>
  The header depends on what the extension reads as when the frame of \<open>parse_http_uri\<close> is gone:
  \<open>frame\<close> is that reading, the identity when the bytes are still there. Nothing is sent
  (\<open>None\<close>) when it is no extension of the table.
\<close>

definition dl_type :: "(string \<Rightarrow> string) \<Rightarrow> download \<Rightarrow> string option" where
  "dl_type frame d = do {
     (filename, filetype) \<leftarrow> parse_http_uri (dl_path d);
     (content_type, _) \<leftarrow> content_type_lookup (map_option frame filetype);
     Some content_type }"

definition dl_header :: "(string \<Rightarrow> string) \<Rightarrow> string \<Rightarrow> download \<Rightarrow> tcp_action list option" where
  "dl_header frame date d = do {
     content_type \<leftarrow> dl_type frame d;
     if dl_range d = None then send_http_200_no_range date (dl_fd d) content_type (dl_size d)
     else send_http_206_partial_content date (dl_fd d) content_type (dl_size d)
       (int (dl_start d)) (dl_end d) }"

definition dl_request :: "download \<Rightarrow> packet option" where
  "dl_request d = request_packet (show_int (dl_fd d) @ '' '' @ dl_path d) (dl_path d)
     (map_option (\<lambda>(s, e). (int s, e)) (dl_range d))"

subsection \<open>The packets of a download\<close>

definition dl_chunk :: "download \<Rightarrow> nat \<Rightarrow> string" where
  "dl_chunk d k = take PACKET_DATA_SIZE (drop (PACKET_DATA_SIZE * k) (dl_body d))"

definition dl_id :: "download \<Rightarrow> nat \<Rightarrow> string" where
  "dl_id d k = (if k = 0 then show_int (dl_fd d) @ '' '' @ dl_path d else show_int (dl_fd d))"

definition packet_for :: "download \<Rightarrow> nat \<Rightarrow> packet \<Rightarrow> bool" where
  "packet_for d k p \<longleftrightarrow>
     pk_ack_number p = int k \<and> pk_packet_number p = int k \<and> pk_file_path p = dl_path d \<and>
     pk_start_byte p = int (dl_start d + PACKET_DATA_SIZE * k) \<and>
     pk_orig_has_range p = (dl_range d \<noteq> None) \<and> pk_connection_id p = dl_id d k"

definition ack_for :: "download \<Rightarrow> nat \<Rightarrow> packet \<Rightarrow> bool" where
  "ack_for d k p \<longleftrightarrow> packet_for d k p \<and> pk_packet_type p = ''ack'' \<and>
     pk_end_byte p = (if k = 0 then dl_asked_end d else dl_end d)"

text \<open>A packet with a block; its type is not fixed here.\<close>

definition block_packet :: "download \<Rightarrow> nat \<Rightarrow> packet \<Rightarrow> bool" where
  "block_packet d k p \<longleftrightarrow> packet_for d k p \<and>
     pk_end_byte p = dl_end d \<and> (k = 0 \<longrightarrow> pk_content_length p = dl_size d) \<and>
     pk_data_size p = int (length (dl_chunk d k)) \<and> length (pk_data p) = PACKET_DATA_SIZE \<and>
     prefix (dl_chunk d k) (pk_data p)"

lemma dl_size_pos: "dl_ok d \<Longrightarrow> 0 < dl_size d \<and> dl_size d < 2 ^ 31 - 2048"
  by (simp add: dl_ok_def dl_size_def)

lemma i32_between: "- 2147483648 \<le> x \<Longrightarrow> x < 2147483648 \<Longrightarrow> i32 x = x"
  by (rule i32_id) (simp add: is_i32_def INT_MAX_def INT_MIN_def)

lemma dl_end_bound:
  assumes "dl_ok d"
  shows "0 \<le> dl_end d \<and> dl_end d < dl_size d \<and> int (dl_start d) \<le> dl_end d"
  using dl_size_pos [OF assms] assms by (auto simp: dl_ok_def dl_end_def split: if_splits)

text \<open>The serving programs correct the end they were asked for to the end of the download.\<close>

lemma fix_end_byte_dl_end:
  assumes "dl_ok d"
  shows "fix_end_byte (dl_size d) (dl_asked_end d) = dl_end d"
proof -
  have "i32 (dl_size d - 1) = dl_size d - 1"
    using dl_size_pos [OF assms] by (intro i32_between) auto
  then show ?thesis using assms by (auto simp: fix_end_byte_def dl_end_def dl_ok_def)
qed

lemma length_dl_body:
  assumes "dl_ok d"
  shows "int (length (dl_body d)) = dl_end d + 1 - int (dl_start d)"
  using dl_end_bound [OF assms] by (auto simp: dl_body_def dl_size_def)

lemma dl_chunk_content:
  assumes "dl_ok d" "PACKET_DATA_SIZE * k \<le> length (dl_body d)"
  shows "dl_chunk d k = take (nat (min (int PACKET_DATA_SIZE) (dl_end d - int (dl_start d + PACKET_DATA_SIZE * k) + 1)))
    (drop (dl_start d + PACKET_DATA_SIZE * k) (dl_content d))"
proof -
  let ?n = "nat (dl_end d + 1) - dl_start d"
  have n: "?n = length (dl_body d)" using length_dl_body [OF assms(1)] dl_end_bound [OF assms(1)] by linarith
  have "dl_chunk d k = take (min PACKET_DATA_SIZE (?n - PACKET_DATA_SIZE * k))
      (drop (PACKET_DATA_SIZE * k + dl_start d) (dl_content d))"
    by (simp add: dl_chunk_def dl_body_def drop_take)
  moreover have "min PACKET_DATA_SIZE (?n - PACKET_DATA_SIZE * k) =
      nat (min (int PACKET_DATA_SIZE) (dl_end d - int (dl_start d + PACKET_DATA_SIZE * k) + 1))"
    using assms(2) n length_dl_body [OF assms(1)] by linarith
  ultimately show ?thesis by (simp add: add.commute)
qed

lemma length_dl_chunk: "length (dl_chunk d k) = min PACKET_DATA_SIZE (length (dl_body d) - PACKET_DATA_SIZE * k)"
  by (simp add: dl_chunk_def)

lemma fread_block_small:
  assumes "0 \<le> n" "n \<le> int PACKET_DATA_SIZE" "length buf = PACKET_DATA_SIZE"
  shows "\<exists>data. fread_block buf n rest = Some (length (take (nat n) rest), data) \<and>
    length data = PACKET_DATA_SIZE \<and> prefix (take (nat n) rest) data"
proof -
  have u: "u64 n = n" using assms(1,2) by (simp add: u64_id PACKET_DATA_SIZE_def)
  let ?c = "min (nat n) (length rest)"
  have "nat (min (u64 n) (int (length rest))) = ?c" using assms(1) u by linarith
  moreover have "?c \<le> PACKET_DATA_SIZE" using assms(2) by linarith
  ultimately have "fread_block buf n rest = Some (?c, take ?c rest @ drop ?c buf)"
    unfolding fread_block_def Let_def by (simp only: not_less [symmetric] if_False) 
  moreover have "take ?c rest = take (nat n) rest" by (metis min.commute take_all take_take nle_le)
  moreover have "?c \<le> length buf" using \<open>?c \<le> PACKET_DATA_SIZE\<close> assms(3) by simp
  ultimately show ?thesis using assms(3) by (auto simp: min_def)
qed

subsection \<open>Steps that the programs share\<close>

lemma dl_id_short: "dl_ok d \<Longrightarrow> length (dl_id d k) < ID_SIZE"
  by (auto simp: dl_id_def dl_ok_def)

lemma dl_path_short: "dl_ok d \<Longrightarrow> length (dl_path d) < PATH_SIZE"
  by (auto simp: dl_ok_def)

lemma duplicate_packet_of:
  assumes "dl_ok d" "packet_for d k p" "length (pk_packet_type p) < TYPE_SIZE"
  shows "\<exists>q. duplicate_packet r p = Some q \<and> packet_for d k q \<and> pk_data q = pk_data r \<and>
    pk_packet_type q = pk_packet_type p \<and> pk_end_byte q = pk_end_byte p \<and>
    pk_content_length q = pk_content_length p"
  using assms dl_id_short [OF assms(1), of k] dl_path_short [OF assms(1)]
  by (auto simp: duplicate_packet_def packet_for_def)

lemma need_bytes:
  assumes "dl_ok d" "PACKET_DATA_SIZE * k \<le> length (dl_body d)"
  defines "need \<equiv> (if dl_range d \<noteq> None
    then cmin (int PACKET_DATA_SIZE) (i32 (dl_end d - int (dl_start d + PACKET_DATA_SIZE * k) + 1))
    else int PACKET_DATA_SIZE)"
  shows "0 \<le> need \<and> need \<le> int PACKET_DATA_SIZE \<and>
    take (nat need) (drop (dl_start d + PACKET_DATA_SIZE * k) (dl_content d)) = dl_chunk d k"
proof (cases "dl_range d = None")
  case False
  let ?x = "dl_end d - int (dl_start d + PACKET_DATA_SIZE * k) + 1"
  have "0 \<le> ?x" using assms(2) length_dl_body [OF assms(1)] by linarith
  moreover have "dl_size d < 2147483648" using dl_size_pos [OF assms(1)] by simp
  then have "?x < 2147483648"
    using dl_end_bound [OF assms(1)] of_nat_0_le_iff [of "dl_start d + PACKET_DATA_SIZE * k", where ?'a = int]
    by linarith
  ultimately have "i32 ?x = ?x" by (intro i32_between) auto
  then have "need = min (int PACKET_DATA_SIZE) ?x"
    unfolding need_def using False by (simp only: cmin_def min_def) auto
  with \<open>0 \<le> ?x\<close> show ?thesis
    unfolding dl_chunk_content [OF assms(1,2)] by (auto simp: PACKET_DATA_SIZE_def)
next
  case True
  then have s: "dl_start d = 0" and e: "dl_end d = dl_size d - 1"
    using dl_size_pos [OF assms(1)]
    by (auto simp: dl_start_def dl_end_def dl_asked_end_def)
  have "dl_body d = dl_content d"
    using dl_size_pos [OF assms(1)] by (simp add: dl_body_def s e dl_size_def)
  with True s show ?thesis by (simp add: need_def dl_chunk_def)
qed

lemma show_int_no_space: "CHR '' '' \<notin> set (show_int x)"
  using show_int_chars [of "CHR '' ''" x] by (auto simp: isdigit_def uchar_def)

lemma client_socket_of:
  assumes "dl_ok d" "pk_connection_id q = dl_id d k"
  shows "client_socket q = Some (dl_fd d, q\<lparr>pk_connection_id := show_int (dl_fd d)\<rparr>)"
proof -
  let ?t = "show_int (dl_fd d)"
  have "\<exists>r. strtok_r '' '' (dl_id d k) = (Some ?t, r)"
    using strtok_r_split [of ?t "'' ''" "CHR '' ''" "dl_path d"] strtok_r_whole [of ?t "'' ''"]
      show_int_no_space [of "dl_fd d"]
    by (simp add: dl_id_def)
  moreover have "takeWhile (\<lambda>c. c = CHR '' '') (dl_id d k) = []"
    using show_int_no_space [of "dl_fd d"] by (cases ?t) (auto simp: dl_id_def)
  moreover have "sscanf [ConvInt] ?t = [AInt (dl_fd d)]"
    using sscanf_int_show [of "[]" "dl_fd d" "[]"] assms(1) by (simp add: no_digit_def dl_ok_def)
  ultimately show ?thesis
    using assms(2) by (auto simp: client_socket_def Let_def simp del: sscanf.simps)
qed

lemma full_chunk:
  assumes "dl_ok d" "length (dl_chunk d k) = PACKET_DATA_SIZE"
  shows "PACKET_DATA_SIZE * Suc k \<le> length (dl_body d)" "int k < 2097152"
    "int (dl_start d + PACKET_DATA_SIZE * k) < 2147481600"
proof -
  have l: "PACKET_DATA_SIZE \<le> length (dl_body d) - PACKET_DATA_SIZE * k"
    using assms(2) unfolding length_dl_chunk by linarith
  then show b: "PACKET_DATA_SIZE * Suc k \<le> length (dl_body d)"
    by (simp add: PACKET_DATA_SIZE_def)
  have "int (length (dl_body d)) + int (dl_start d) \<le> dl_size d"
    using length_dl_body [OF assms(1)] dl_end_bound [OF assms(1)] by linarith
  moreover have "dl_size d < 2147481600" using dl_size_pos [OF assms(1)] by simp
  ultimately show "int k < 2097152" "int (dl_start d + PACKET_DATA_SIZE * k) < 2147481600"
    using b by (simp_all add: PACKET_DATA_SIZE_def)
qed

lemma dl_header_fits:
  assumes "dl_ok d" "dl_type frame d = Some ct" "length date = 29"
  shows "\<exists>m. dl_header frame date d = Some [Send (dl_fd d) m]"
proof -
  obtain t v where t: "content_type_lookup t = Some (ct, v)"
    using assms(2) by (auto simp: dl_type_def bind_Some_iff)
  show ?thesis
  proof (cases "dl_range d = None")
    case True
    with send_http_200_no_range_fits [OF t assms(3)] assms(2) show ?thesis
      by (auto simp: dl_header_def)
  next
    case False
    then have "(dl_range d = None) = False" by simp
    let ?e = "fix_range_end (dl_size d) (int (dl_start d)) (dl_end d)"
    have ld: "length (show_int (ld_of_int x)) \<le> 11" for x
      using ld_of_int_range [of x] length_show_int_bound [of 10 "ld_of_int x"] by simp
    have "length (show_int (dl_size d)) \<le> 11"
      using dl_size_pos [OF assms(1)] length_show_int_bound [of 10 "dl_size d"] by simp
    with \<open>(dl_range d = None) = False\<close> assms ld [of "int (dl_start d)"] ld [of ?e]
      content_type_length [OF t] show ?thesis
      by (simp del: not_None_eq add: dl_header_def send_http_206_partial_content_def generate_timestamp_def)
  qed
qed

lemma dl_request_ack:
  assumes "dl_ok d"
  shows "\<exists>p. dl_request d = Some p \<and> ack_for d 0 p"
proof -
  have l: "length (show_int (dl_fd d) @ '' '' @ dl_path d) < ID_SIZE" "length (dl_path d) < PATH_SIZE"
    "length (dl_path d) < PACKET_DATA_SIZE"
    using assms by (auto simp: dl_ok_def PACKET_DATA_SIZE_def)
  then show ?thesis
    by (cases "dl_range d")
      (auto simp: dl_request_def request_packet_def ack_for_def packet_for_def dl_id_def dl_start_def
        dl_asked_end_def empty_packet_def)
qed

text \<open>The acknowledgement of a block, and what forwarding a block does.\<close>

definition next_ack :: "string option \<Rightarrow> int \<Rightarrow> packet \<Rightarrow> packet" where
  "next_ack ty fd q = (empty_packet ''ack'')\<lparr>pk_connection_id := show_int fd,
     pk_packet_type := (case ty of None \<Rightarrow> pk_packet_type q | Some t \<Rightarrow> t),
     pk_ack_number := i32 (pk_ack_number q + 1), pk_file_path := pk_file_path q,
     pk_start_byte := i32 (pk_start_byte q + int PACKET_DATA_SIZE), pk_end_byte := pk_end_byte q,
     pk_packet_number := i32 (pk_packet_number q + 1), pk_data_size := pk_data_size q,
     pk_orig_has_range := pk_orig_has_range q, pk_content_length := pk_content_length q\<rparr>"

lemma next_ack_for:
  assumes "dl_ok d" "block_packet d k q" "length (dl_chunk d k) = PACKET_DATA_SIZE"
    and "(case ty of None \<Rightarrow> pk_packet_type q | Some t \<Rightarrow> t) = ''ack''"
  shows "ack_for d (Suc k) (next_ack ty (dl_fd d) q)"
proof -
  note small = full_chunk [OF assms(1,3)]
  have q: "packet_for d k q" "pk_end_byte q = dl_end d" using assms(2) by (simp_all add: block_packet_def)
  have "i32 (int k + 1) = int k + 1" using small(2) by (intro i32_between) auto
  moreover have "i32 (int (dl_start d + PACKET_DATA_SIZE * k) + int PACKET_DATA_SIZE) =
      int (dl_start d + PACKET_DATA_SIZE * k) + int PACKET_DATA_SIZE"
    using small(3) by (intro i32_between) (auto simp: PACKET_DATA_SIZE_def)
  ultimately show ?thesis
    using q assms(4) by (simp add: ack_for_def packet_for_def next_ack_def dl_id_def algebra_simps)
qed

lemma forward_block_of:
  assumes "dl_ok d" "block_packet d k q" "dl_fd d \<in> set conns" "\<not> ue_data_sent env < 0"
    and "length (pk_packet_type q) < TYPE_SIZE"
  shows "forward_block env ty (q\<lparr>pk_connection_id := show_int (dl_fd d)\<rparr>) (dl_fd d) conns =
    Some (Tcp (Send (dl_fd d) (pk_data q)) #
      (if length (dl_chunk d k) < PACKET_DATA_SIZE then [Tcp (CloseFd (dl_fd d))]
       else [UdpPacket (next_ack ty (dl_fd d) q)]), conns)"
proof -
  have q: "pk_data_size q = int (length (dl_chunk d k))" "packet_for d k q"
    using assms(2) by (simp_all add: block_packet_def)
  have len: "length (show_int (dl_fd d)) < ID_SIZE" "length (dl_path d) < PATH_SIZE"
    using assms(1) by (auto simp: dl_ok_def)
  show ?thesis
  proof (cases "length (dl_chunk d k) < PACKET_DATA_SIZE")
    case True
    with assms(3,4) q show ?thesis by (simp add: forward_block_def is_socket_in_array_set)
  next
    case False
    with assms(3-5) q len show ?thesis
      by (cases ty)
        (simp_all add: forward_block_def is_socket_in_array_set duplicate_packet_def packet_for_def
          next_ack_def Let_def)
  qed
qed

subsection \<open>Datagrams under way\<close>

text \<open>
  The state of a transfer: the datagrams under way in their order, what was done to the
  browser's connection, and the state of the programs. A step receives the first datagram;
  \<open>None\<close> as the next state is undefined behaviour or the end of a process.
\<close>

record ('p, 'n) xfer =
  xf_wire :: "'p list"
  xf_out :: "tcp_action list"
  xf_node :: 'n

inductive wire_step :: "('p \<Rightarrow> 'n \<Rightarrow> ('p list \<times> tcp_action list \<times> 'n) option \<Rightarrow> bool) \<Rightarrow>
    ('p, 'n) xfer \<Rightarrow> ('p, 'n) xfer option \<Rightarrow> bool"
  for handles where
  receive: "xf_wire s = p # ps \<Longrightarrow> handles p (xf_node s) r \<Longrightarrow>
    wire_step handles s (map_option (\<lambda>(qs, acts, n).
      s\<lparr>xf_wire := ps @ qs, xf_out := xf_out s @ acts, xf_node := n\<rparr>) r)"

inductive_cases wire_stepE: "wire_step handles s r"

text \<open>Runs with the number of their steps.\<close>

inductive wire_run :: "('p \<Rightarrow> 'n \<Rightarrow> ('p list \<times> tcp_action list \<times> 'n) option \<Rightarrow> bool) \<Rightarrow>
    ('p, 'n) xfer \<Rightarrow> nat \<Rightarrow> ('p, 'n) xfer \<Rightarrow> bool"
  for handles s0 where
  start: "wire_run handles s0 0 s0"
| step: "wire_run handles s0 n s \<Longrightarrow> wire_step handles s (Some s') \<Longrightarrow> wire_run handles s0 (Suc n) s'"

definition wire_init :: "'p \<Rightarrow> 'n \<Rightarrow> ('p, 'n) xfer" where
  "wire_init p n = \<lparr>xf_wire = [p], xf_out = [], xf_node = n\<rparr>"

subsection \<open>The blocks that were forwarded\<close>

definition blocks_ok :: "download \<Rightarrow> string list \<Rightarrow> bool" where
  "blocks_ok d bs \<longleftrightarrow>
     (\<forall>i < length bs. length (bs ! i) = PACKET_DATA_SIZE \<and> prefix (dl_chunk d i) (bs ! i))"

text \<open>\<open>hs\<close> are the headers that the readings of the frame give, \<open>None\<close> for a reading without one.\<close>

definition delivered :: "download \<Rightarrow> tcp_action list option set \<Rightarrow> string list \<Rightarrow> tcp_action list \<Rightarrow> bool" where
  "delivered d hs bs out \<longleftrightarrow> (\<exists>hdr. (bs \<noteq> [] \<longrightarrow> Some hdr \<in> hs) \<and>
     out = (if bs = [] then [] else hdr) @ map (Send (dl_fd d)) bs)"

lemma delivered_Nil: "delivered d hs [] []"
  by (simp add: delivered_def)

lemma delivered_snoc:
  "delivered d hs bs out \<Longrightarrow> (bs = [] \<Longrightarrow> Some hdr \<in> hs) \<Longrightarrow>
    delivered d hs (bs @ [b]) (out @ (if bs = [] then hdr else []) @ [Send (dl_fd d) b])"
  by (auto simp: delivered_def)

lemma dl_chunk_empty: "PACKET_DATA_SIZE * k \<le> length (dl_body d) \<Longrightarrow>
    dl_chunk d k = [] \<longleftrightarrow> PACKET_DATA_SIZE * k = length (dl_body d)"
  by (auto simp: dl_chunk_def PACKET_DATA_SIZE_def)

lemma concat_full_blocks:
  "blocks_ok d bs \<Longrightarrow> PACKET_DATA_SIZE * length bs \<le> length (dl_body d) \<Longrightarrow>
    concat bs = take (PACKET_DATA_SIZE * length bs) (dl_body d)"
proof (induction bs rule: rev_induct)
  case Nil
  then show ?case by simp
next
  case (snoc b bs)
  have b: "length b = PACKET_DATA_SIZE" "prefix (dl_chunk d (length bs)) b"
    using snoc.prems(1) by (auto simp: blocks_ok_def)
  have "length (dl_chunk d (length bs)) = PACKET_DATA_SIZE"
    unfolding length_dl_chunk using snoc.prems(2) by simp
  with b have "b = dl_chunk d (length bs)" by (metis prefix_def append_eq_append_conv append_Nil2)
  moreover have "concat bs = take (PACKET_DATA_SIZE * length bs) (dl_body d)"
    using snoc by (simp add: blocks_ok_def nth_append less_Suc_eq)
  ultimately show ?case by (simp add: dl_chunk_def add.commute [of PACKET_DATA_SIZE] take_add)
qed

lemma blocks_ok_butlast: "blocks_ok d (bs @ [b]) \<Longrightarrow> blocks_ok d bs \<and> prefix (dl_chunk d (length bs)) b"
  by (auto simp: blocks_ok_def nth_append less_Suc_eq)

lemma length_blocks: "blocks_ok d bs \<Longrightarrow> length (concat bs) = PACKET_DATA_SIZE * length bs"
  by (induction bs rule: rev_induct) (auto simp: blocks_ok_def nth_append less_Suc_eq)

text \<open>After \<open>n\<close> steps with the blocks \<open>bs\<close> forwarded: an acknowledgement is under way, or a
block is, or the server had nothing left to answer, or the connection was closed.\<close>

inductive xfer_inv :: "download \<Rightarrow> tcp_action list option set \<Rightarrow> (nat \<Rightarrow> 'p \<Rightarrow> bool) \<Rightarrow> (nat \<Rightarrow> 'p \<Rightarrow> bool) \<Rightarrow>
    nat \<Rightarrow> 'p list \<Rightarrow> tcp_action list \<Rightarrow> bool"
  for d hs is_ack is_block where
  ack: "blocks_ok d bs \<Longrightarrow> PACKET_DATA_SIZE * length bs \<le> length (dl_body d) \<Longrightarrow> is_ack (length bs) p \<Longrightarrow>
    delivered d hs bs out \<Longrightarrow> xfer_inv d hs is_ack is_block (2 * length bs) [p] out"
| block: "blocks_ok d bs \<Longrightarrow> PACKET_DATA_SIZE * length bs < length (dl_body d) \<Longrightarrow> is_block (length bs) q \<Longrightarrow>
    delivered d hs bs out \<Longrightarrow> xfer_inv d hs is_ack is_block (Suc (2 * length bs)) [q] out"
| stalled: "blocks_ok d bs \<Longrightarrow> PACKET_DATA_SIZE * length bs = length (dl_body d) \<Longrightarrow>
    delivered d hs bs out \<Longrightarrow> xfer_inv d hs is_ack is_block (Suc (2 * length bs)) [] out"
| closed: "blocks_ok d (bs @ [b]) \<Longrightarrow> PACKET_DATA_SIZE * length bs < length (dl_body d) \<Longrightarrow>
    length (dl_body d) < PACKET_DATA_SIZE * Suc (length bs) \<Longrightarrow> delivered d hs (bs @ [b]) out \<Longrightarrow>
    xfer_inv d hs is_ack is_block (2 * Suc (length bs)) [] (out @ [CloseFd (dl_fd d)])"

text \<open>What the client has got when no datagram is under way any more.\<close>

lemma xfer_inv_final:
  assumes "xfer_inv d hs is_ack is_block n [] out" "dl_ok d"
  shows "\<exists>hdr bs. Some hdr \<in> hs \<and> out = hdr @ map (Send (dl_fd d)) bs @
      (if PACKET_DATA_SIZE dvd length (dl_body d) then [] else [CloseFd (dl_fd d)]) \<and>
    length (concat bs) = PACKET_DATA_SIZE * ((length (dl_body d) + PACKET_DATA_SIZE - 1) div PACKET_DATA_SIZE) \<and>
    prefix (dl_body d) (concat bs)"
  using assms(1)
proof cases
  case (stalled bs)
  have "0 < length (dl_body d)"
    using length_dl_body [OF assms(2)] dl_end_bound [OF assms(2)] by linarith
  then have "bs \<noteq> []" using stalled(3) by auto
  then obtain hdr where "Some hdr \<in> hs" "out = hdr @ map (Send (dl_fd d)) bs"
    using stalled(4) by (auto simp: delivered_def)
  moreover have "concat bs = dl_body d" using concat_full_blocks [OF stalled(2)] stalled(3) by simp
  moreover have "PACKET_DATA_SIZE dvd length (dl_body d)" using stalled(3) by (metis dvd_triv_left)
  moreover have "(length (dl_body d) + PACKET_DATA_SIZE - 1) div PACKET_DATA_SIZE = length bs"
    by (simp add: stalled(3) [symmetric] PACKET_DATA_SIZE_def)
  ultimately show ?thesis
    using length_blocks [OF stalled(2)] by (intro exI [of _ hdr] exI [of _ bs]) simp
next
  case (closed bs b out0)
  note bs = blocks_ok_butlast [OF closed(3)]
  then have c: "concat bs = take (PACKET_DATA_SIZE * length bs) (dl_body d)"
    using concat_full_blocks closed(4) by simp
  have "dl_chunk d (length bs) = drop (PACKET_DATA_SIZE * length bs) (dl_body d)"
    using closed(5) by (simp add: dl_chunk_def)
  with bs c have p: "prefix (dl_body d) (concat (bs @ [b]))"
    by (auto simp: prefix_def) (metis append.assoc append_take_drop_id)
  have nd: "\<not> PACKET_DATA_SIZE dvd length (dl_body d)"
    using closed(4,5) by (auto elim!: dvdE simp: PACKET_DATA_SIZE_def)
  have "(length (dl_body d) + PACKET_DATA_SIZE - 1) div PACKET_DATA_SIZE = Suc (length bs)"
    using closed(4,5) by (simp add: PACKET_DATA_SIZE_def)
  then have "length (concat (bs @ [b])) =
      PACKET_DATA_SIZE * ((length (dl_body d) + PACKET_DATA_SIZE - 1) div PACKET_DATA_SIZE)"
    using length_blocks [OF closed(3)] by simp
  moreover obtain hdr where "Some hdr \<in> hs" "out0 = hdr @ map (Send (dl_fd d)) (bs @ [b])"
    using closed(6) by (auto simp: delivered_def)
  ultimately show ?thesis
    using closed(2) nd p by (intro exI [of _ hdr] exI [of _ "bs @ [b]"]) auto
qed

lemma xfer_inv_bound:
  assumes "xfer_inv d hs is_ack is_block n ps out"
  shows "n \<le> 2 * (length (dl_body d) div PACKET_DATA_SIZE) + 2"
  using assms by cases (auto simp: PACKET_DATA_SIZE_def)

lemma xfer_inv_open:
  assumes "xfer_inv d hs is_ack is_block n ps out" "PACKET_DATA_SIZE dvd length (dl_body d)"
    and "\<And>hdr fd. Some hdr \<in> hs \<Longrightarrow> CloseFd fd \<notin> set hdr"
  shows "CloseFd fd \<notin> set out"
  using assms(1)
proof cases
  case (closed bs b out0)
  with assms(2) show ?thesis by (auto elim!: dvdE simp: PACKET_DATA_SIZE_def)
qed (use assms(3) in \<open>auto simp: delivered_def split: if_splits\<close>)

text \<open>After two steps for each full block the acknowledgement of the last of them is under way.\<close>

lemma xfer_inv_last:
  assumes "xfer_inv d hs is_ack is_block n ps out" "n = 2 * (length (dl_body d) div PACKET_DATA_SIZE)"
    "PACKET_DATA_SIZE dvd length (dl_body d)"
  shows "\<exists>p. ps = [p] \<and> is_ack (length (dl_body d) div PACKET_DATA_SIZE) p"
  using assms(1)
proof cases
  case (closed bs b out0)
  with assms(3) show ?thesis by (auto elim!: dvdE simp: PACKET_DATA_SIZE_def)
next
  case (ack bs p)
  with assms(2) show ?thesis by simp
qed (use assms(2) in \<open>simp_all add: double_not_eq_Suc_double\<close>)

subsection \<open>The contract of the programs\<close>

text \<open>
  \<open>handles c p n r\<close>: in the context \<open>c\<close> the program that gets the datagram \<open>p\<close> may do \<open>r\<close>: the
  datagrams it sends, what it does to the browser's connection and the new state. \<open>good\<close> says
  that the context can serve the download, \<open>headers\<close> which headers the first block may be sent
  with (\<open>None\<close> among them when the program may fail there), \<open>node_ok\<close> what the steps keep.
\<close>

locale block_transfer =
  fixes handles :: "'c \<Rightarrow> 'p \<Rightarrow> 'n \<Rightarrow> ('p list \<times> tcp_action list \<times> 'n) option \<Rightarrow> bool"
    and good :: "'c \<Rightarrow> download \<Rightarrow> bool"
    and headers :: "'c \<Rightarrow> download \<Rightarrow> tcp_action list option set"
    and is_ack :: "download \<Rightarrow> nat \<Rightarrow> 'p \<Rightarrow> bool"
    and is_block :: "download \<Rightarrow> nat \<Rightarrow> 'p \<Rightarrow> bool"
    and data_of :: "'p \<Rightarrow> string"
    and node_ok :: "'c \<Rightarrow> download \<Rightarrow> 'n \<Rightarrow> bool"
  assumes good_ok: "good c d \<Longrightarrow> dl_ok d"
    and serve: "good c d \<Longrightarrow> node_ok c d n \<Longrightarrow> is_ack d k p \<Longrightarrow>
      PACKET_DATA_SIZE * k \<le> length (dl_body d) \<Longrightarrow> handles c p n r \<Longrightarrow>
      \<exists>q n'. node_ok c d n' \<and> (dl_chunk d k \<noteq> [] \<longrightarrow> is_block d k q) \<and>
        r = Some (if dl_chunk d k = [] then [] else [q], [], n')"
    and forward: "good c d \<Longrightarrow> node_ok c d n \<Longrightarrow> is_block d k q \<Longrightarrow> handles c q n r \<Longrightarrow>
      k = 0 \<and> None \<in> headers c d \<and> r = None \<or>
      (\<exists>hdr p n'. (k = 0 \<longrightarrow> Some hdr \<in> headers c d) \<and>
        node_ok c d n' \<and> (length (dl_chunk d k) = PACKET_DATA_SIZE \<longrightarrow> is_ack d (Suc k) p) \<and>
        r = Some (if length (dl_chunk d k) < PACKET_DATA_SIZE then [] else [p],
          (if k = 0 then hdr else []) @ Send (dl_fd d) (data_of q) #
            (if length (dl_chunk d k) < PACKET_DATA_SIZE then [CloseFd (dl_fd d)] else []), n'))"
    and block_data: "is_block d k q \<Longrightarrow> length (data_of q) = PACKET_DATA_SIZE \<and> prefix (dl_chunk d k) (data_of q)"
    and responds: "good c d \<Longrightarrow> node_ok c d n \<Longrightarrow> headers c d \<noteq> {} \<Longrightarrow> \<exists>r. handles c p n r"
    and every_header: "good c d \<Longrightarrow> node_ok c d n \<Longrightarrow> is_block d 0 q \<Longrightarrow> h \<in> headers c d \<Longrightarrow>
      \<exists>r. handles c q n r \<and> (r = None \<longleftrightarrow> h = None)"
begin

lemma blocks_ok_snoc:
  "blocks_ok d bs \<Longrightarrow> is_block d (length bs) q \<Longrightarrow> blocks_ok d (bs @ [data_of q])"
  using block_data [of d "length bs" q] by (auto simp: blocks_ok_def nth_append less_Suc_eq)

abbreviation inv :: "'c \<Rightarrow> download \<Rightarrow> nat \<Rightarrow> ('p, 'n) xfer \<Rightarrow> bool" where
  "inv c d n s \<equiv> xfer_inv d (headers c d) (is_ack d) (is_block d) n (xf_wire s) (xf_out s) \<and> node_ok c d (xf_node s)"

text \<open>Every step keeps the invariant, but the second, which may fail at the header.\<close>

lemma inv_step:
  assumes "inv c d n s" "wire_step (handles c) s r" and g: "good c d"
  shows "(n = 1 \<and> None \<in> headers c d \<and> r = None) \<or> (\<exists>s'. r = Some s' \<and> inv c d (Suc n) s')"
proof -
  obtain p ps r' where p: "xf_wire s = p # ps" "handles c p (xf_node s) r'"
    "r = map_option (\<lambda>(qs, acts, n). s\<lparr>xf_wire := ps @ qs, xf_out := xf_out s @ acts, xf_node := n\<rparr>) r'"
    using assms(2) by (auto elim: wire_stepE)
  note ok = good_ok [OF g]
  have i: "xfer_inv d (headers c d) (is_ack d) (is_block d) n (xf_wire s) (xf_out s)" and nd: "node_ok c d (xf_node s)"
    using assms(1) by simp_all
  show ?thesis using i
  proof cases
    case (ack bs p')
    then have "is_ack d (length bs) p" "ps = []" using p(1) by simp_all
    then obtain q n' where q: "node_ok c d n'" "dl_chunk d (length bs) \<noteq> [] \<longrightarrow> is_block d (length bs) q"
      "r' = Some (if dl_chunk d (length bs) = [] then [] else [q], [], n')"
      using serve [OF g nd _ ack(4) p(2)] by blast
    show ?thesis
    proof (cases "dl_chunk d (length bs) = []")
      case True
      with dl_chunk_empty [OF ack(4)] ack p q \<open>ps = []\<close> show ?thesis
        by (auto intro: xfer_inv.stalled)
    next
      case False
      then have "PACKET_DATA_SIZE * length bs < length (dl_body d)"
        using dl_chunk_empty [OF ack(4)] ack(4) by auto
      with False ack p q \<open>ps = []\<close> show ?thesis by (auto intro: xfer_inv.block)
    qed
  next
    case (block bs q')
    then have q: "is_block d (length bs) p" "ps = []" using p(1) by simp_all
    let ?k = "length bs"
    show ?thesis
    proof (cases "r' = None")
      case True
      then have "?k = 0" "None \<in> headers c d" using forward [OF g nd q(1) p(2)] by auto
      with True p(3) block(1) show ?thesis by simp
    next
      case False
      then obtain hdr a n' where a: "?k = 0 \<longrightarrow> Some hdr \<in> headers c d" "node_ok c d n'"
        "length (dl_chunk d ?k) = PACKET_DATA_SIZE \<longrightarrow> is_ack d (Suc ?k) a"
        "r' = Some (if length (dl_chunk d ?k) < PACKET_DATA_SIZE then [] else [a],
            (if ?k = 0 then hdr else []) @ Send (dl_fd d) (data_of p) #
              (if length (dl_chunk d ?k) < PACKET_DATA_SIZE then [CloseFd (dl_fd d)] else []), n')"
        using forward [OF g nd q(1) p(2)] by blast
      note bs' = blocks_ok_snoc [OF block(3) q(1)]
      have out: "delivered d (headers c d) (bs @ [data_of p])
          (xf_out s @ (if bs = [] then hdr else []) @ [Send (dl_fd d) (data_of p)])"
        using delivered_snoc [OF block(6), of hdr "data_of p"] a(1) by simp
      show ?thesis
      proof (cases "length (dl_chunk d ?k) < PACKET_DATA_SIZE")
        case True
        then have "length (dl_body d) < PACKET_DATA_SIZE * Suc ?k"
          unfolding length_dl_chunk using block(4) by (auto simp: min_def split: if_splits)
        from xfer_inv.closed [OF bs' block(4) this out, of "is_ack d" "is_block d"] True block(1) p a q(2)
        show ?thesis by simp
      next
        case False
        then have full: "length (dl_chunk d ?k) = PACKET_DATA_SIZE"
          unfolding length_dl_chunk by linarith
        have "PACKET_DATA_SIZE * length (bs @ [data_of p]) \<le> length (dl_body d)"
          using full_chunk(1) [OF ok full] by simp
        moreover have "is_ack d (length (bs @ [data_of p])) a" using a(3) full by simp
        ultimately show ?thesis
          using xfer_inv.ack [OF bs' _ _ out, of "is_ack d" a "is_block d"] full block(1) p a q(2) by simp
      qed
    qed
  qed (use p(1) in simp_all)
qed

lemma inv_run:
  assumes "wire_run (handles c) (wire_init p n0) n s" "is_ack d 0 p" "good c d" "node_ok c d n0"
  shows "inv c d n s"
  using assms(1)
proof induction
  case start
  show ?case
    using xfer_inv.ack [of d "[]" "is_ack d" p "headers c d" "[]" "is_block d"] assms(2,4)
    by (simp add: wire_init_def blocks_ok_def delivered_Nil)
next
  case (step n s s')
  with inv_step [OF _ step.hyps(2) assms(3)] show ?case by blast
qed

text \<open>What the browser has got when no datagram is under way any more.\<close>

lemma delivers:
  assumes "wire_run (handles c) (wire_init p n0) n s" "xf_wire s = []" "is_ack d 0 p" "good c d" "node_ok c d n0"
  shows "\<exists>hdr bs. Some hdr \<in> headers c d \<and> xf_out s = hdr @ map (Send (dl_fd d)) bs @
      (if PACKET_DATA_SIZE dvd length (dl_body d) then [] else [CloseFd (dl_fd d)]) \<and>
    length (concat bs) = PACKET_DATA_SIZE * ((length (dl_body d) + PACKET_DATA_SIZE - 1) div PACKET_DATA_SIZE) \<and>
    prefix (dl_body d) (concat bs)"
  using inv_run [OF assms(1,3-5)] assms(2) xfer_inv_final [OF _ good_ok [OF assms(4)]] by metis

lemma first_block:
  assumes "inv c d 1 s" "good c d" "h \<in> headers c d"
  shows "\<exists>r. wire_step (handles c) s r \<and> (r = None \<longleftrightarrow> h = None)"
proof -
  have "0 < length (dl_body d)"
    using length_dl_body dl_end_bound good_ok [OF assms(2)] by force
  moreover have "xfer_inv d (headers c d) (is_ack d) (is_block d) 1 (xf_wire s) (xf_out s)" using assms(1) by simp
  ultimately obtain q where q: "xf_wire s = [q]" "is_block d 0 q" by (auto elim!: xfer_inv.cases)
  then obtain r where r: "handles c q (xf_node s) r" "r = None \<longleftrightarrow> h = None"
    using every_header assms by blast
  from wire_step.receive [where handles = "handles c", OF q(1) r(1)] r(2) show ?thesis by auto
qed

text \<open>
  Only the second step can fail, at the header; a run can go on until no datagram is under way,
  and none has more than a bounded number of steps.
\<close>

lemma ends:
  assumes "wire_run (handles c) (wire_init p n0) n s" "is_ack d 0 p" "good c d" "node_ok c d n0"
    and "Some hdr \<in> headers c d"
  shows "n \<le> 2 * (length (dl_body d) div PACKET_DATA_SIZE) + 2 \<and>
    (xf_wire s \<noteq> [] \<longrightarrow> (\<exists>s'. wire_step (handles c) s (Some s'))) \<and>
    (wire_step (handles c) s None \<longleftrightarrow> n = 1 \<and> None \<in> headers c d)"
proof -
  have i: "inv c d n s" using inv_run [OF assms(1-4)] .
  have failing: "n = 1 \<and> None \<in> headers c d" if "wire_step (handles c) s None"
    using inv_step [OF i that assms(3)] by blast
  have "\<exists>s'. wire_step (handles c) s (Some s')" if ne: "xf_wire s \<noteq> []"
  proof -
    obtain q qs where q: "xf_wire s = q # qs" using ne by (cases "xf_wire s") auto
    obtain r where "handles c q (xf_node s) r" using responds assms(3,5) i by blast
    then have "\<exists>r. wire_step (handles c) s r" using q by (blast intro: wire_step.receive)
    with failing first_block [OF _ assms(3,5)] i show ?thesis by (metis not_Some_eq)
  qed
  moreover have "wire_step (handles c) s None" if "n = 1" "None \<in> headers c d"
    using first_block [OF _ assms(3) that(2)] i that(1) by auto
  ultimately show ?thesis using failing xfer_inv_bound i by blast
qed

lemma stays_open:
  assumes "wire_run (handles c) (wire_init p n0) n s" "is_ack d 0 p" "good c d" "node_ok c d n0"
    and "PACKET_DATA_SIZE dvd length (dl_body d)" "\<And>hdr fd. Some hdr \<in> headers c d \<Longrightarrow> CloseFd fd \<notin> set hdr"
  shows "CloseFd fd \<notin> set (xf_out s)"
  using xfer_inv_open [OF _ assms(5,6)] inv_run [OF assms(1-4)] by blast

text \<open>The acknowledgement of a last full block asks for a block that is not there; it is not answered.\<close>

lemma last_unanswered:
  assumes "wire_run (handles c) (wire_init p n0) (2 * (length (dl_body d) div PACKET_DATA_SIZE)) s"
    and "is_ack d 0 p" "good c d" "node_ok c d n0" "PACKET_DATA_SIZE dvd length (dl_body d)"
  shows "\<exists>a. xf_wire s = [a] \<and> is_ack d (length (dl_body d) div PACKET_DATA_SIZE) a \<and>
    (\<forall>r. wire_step (handles c) s r \<longrightarrow> (\<exists>n. r = Some (s\<lparr>xf_wire := [], xf_node := n\<rparr>)))"
proof -
  let ?k = "length (dl_body d) div PACKET_DATA_SIZE"
  have i: "inv c d (2 * ?k) s" by (rule inv_run [OF assms(1-4)])
  then obtain a where a: "xf_wire s = [a]" "is_ack d ?k a"
    using xfer_inv_last [OF _ refl assms(5)] by blast
  have k: "PACKET_DATA_SIZE * ?k = length (dl_body d)" using assms(5) by simp
  then have e: "dl_chunk d ?k = []" using dl_chunk_empty [of ?k d] by simp
  have "\<exists>n. r = Some (s\<lparr>xf_wire := [], xf_node := n\<rparr>)" if st: "wire_step (handles c) s r" for r
  proof -
    obtain r' where r': "handles c a (xf_node s) r'"
      "r = map_option (\<lambda>(qs, acts, n). s\<lparr>xf_wire := qs, xf_out := xf_out s @ acts, xf_node := n\<rparr>) r'"
      using st a(1) by (auto elim!: wire_stepE)
    obtain n where "r' = Some ([], [], n)"
      using serve [OF assms(3) _ a(2) _ r'(1)] i k e by auto
    with r'(2) show ?thesis by (cases s) auto
  qed
  with a show ?thesis by blast
qed

end

end
