(* ===== verification/Session.thy ===== *)
theory Session
  imports Blocks
begin

text \<open>
  The transfer of one file between two nodes of hw4, as the runs of \<open>multiplex_udp\<close> on both of
  them over a network that loses nothing and keeps the order. The state of the programs is the
  list of open connections of the node that asked. The environment is chosen anew in every step:
  what the stack of the serving node holds is arbitrary, and \<open>frames\<close> are the readings that the
  frame of \<open>parse_http_uri\<close> may have when it is gone: every function for what the language leaves
  open, the identity alone for a frame that stays intact.
\<close>

subsection \<open>The steps\<close>

text \<open>The client's socket accepts data.\<close>

definition transfer_env :: "(string \<Rightarrow> string) set \<Rightarrow> (string \<Rightarrow> string option) \<Rightarrow> string \<Rightarrow> udp_env \<Rightarrow> bool" where
  "transfer_env frames files date env \<longleftrightarrow>
     ue_files env = files \<and> ue_date env = date \<and> length (pk_data (ue_junk env)) = PACKET_DATA_SIZE \<and>
     ue_dead env \<in> frames \<and> 0 \<le> ue_header_sent env \<and> 0 \<le> ue_data_sent env"

definition udp_handles :: "(string \<Rightarrow> string) set \<Rightarrow> (string \<Rightarrow> string option) \<Rightarrow> string \<Rightarrow> packet \<Rightarrow> int list \<Rightarrow>
    (packet list \<times> tcp_action list \<times> int list) option \<Rightarrow> bool" where
  "udp_handles frames files date p conns r \<longleftrightarrow> (\<exists>env n. transfer_env frames files date env \<and> n \<noteq> 0 \<and> n \<noteq> -1 \<and>
     r = map_option (\<lambda>(acts, conns). (packets_of acts, tcp_of acts, conns)) (multiplex_udp env n p conns))"

abbreviation xfer_step :: "(string \<Rightarrow> string) set \<Rightarrow> (string \<Rightarrow> string option) \<Rightarrow> string \<Rightarrow> (packet, int list) xfer \<Rightarrow>
    (packet, int list) xfer option \<Rightarrow> bool" where
  "xfer_step frames files date \<equiv> wire_step (udp_handles frames files date)"

abbreviation xfer_run :: "(string \<Rightarrow> string) set \<Rightarrow> (string \<Rightarrow> string option) \<Rightarrow> string \<Rightarrow> (packet, int list) xfer \<Rightarrow>
    nat \<Rightarrow> (packet, int list) xfer \<Rightarrow> bool" where
  "xfer_run frames files date \<equiv> wire_run (udp_handles frames files date)"

definition dl_init :: "download \<Rightarrow> packet \<Rightarrow> int list \<Rightarrow> (packet, int list) xfer" where
  "dl_init d p conns = wire_init p conns"

definition block_for :: "download \<Rightarrow> nat \<Rightarrow> packet \<Rightarrow> bool" where
  "block_for d k p \<longleftrightarrow> block_packet d k p \<and> pk_packet_type p = ''synack''"

lemma strncmp_types [simp]:
  "strncmp_eq ''ack'' ''ack''" "\<not> strncmp_eq ''synack'' ''ack''" "\<not> strncmp_eq ''synack'' ''fin''"
  "strncmp_eq ''synack'' ''synack''"
  by (simp_all add: strncmp_eq_def)

subsection \<open>One step of each side\<close>

lemma serve_block:
  assumes "dl_ok d" "files (dl_path d) = Some (dl_content d)" "transfer_env frames files date env"
    and "ack_for d k p" "PACKET_DATA_SIZE * k \<le> length (dl_body d)"
  shows "\<exists>q. block_for d k q \<and>
    multiplex_ack env p = Some (if dl_chunk d k = [] then [] else [UdpPacket q])"
proof -
  have p: "packet_for d k p" "pk_packet_type p = ''ack''"
    "pk_end_byte p = (if k = 0 then dl_asked_end d else dl_end d)"
    using assms(4) by (auto simp: ack_for_def)
  have env: "ue_files env = files" "length (pk_data (ue_junk env)) = PACKET_DATA_SIZE"
    using assms(3) by (auto simp: transfer_env_def)
  obtain q where q: "duplicate_packet (ue_junk env) p = Some q" "packet_for d k q"
    "pk_data q = pk_data (ue_junk env)" "pk_end_byte q = pk_end_byte p"
    using duplicate_packet_of [OF assms(1) p(1), of "ue_junk env"] p(2) by auto
  define q1 where "q1 = (if pk_ack_number p = 0
    then set_content_length q (dl_size d) else q)"
  have sz: "i32 (dl_size d) = dl_size d"
    using dl_size_pos [OF assms(1)] by (intro i32_between) auto
  have q1: "packet_for d k q1" "pk_data q1 = pk_data (ue_junk env)" "pk_end_byte q1 = dl_end d"
    "k = 0 \<longrightarrow> pk_content_length q1 = dl_size d"
    using p q by (auto simp: q1_def packet_for_def set_content_length_def sz fix_end_byte_dl_end [OF assms(1)])
  define need where "need = need_to_read_bytes q1"
  have "pk_orig_has_range q1 = (dl_range d \<noteq> None)"
    "pk_start_byte q1 = int (dl_start d + PACKET_DATA_SIZE * k)"
    using q1(1) by (simp_all only: packet_for_def)
  then have need: "need = (if dl_range d \<noteq> None
    then cmin (int PACKET_DATA_SIZE) (i32 (dl_end d - int (dl_start d + PACKET_DATA_SIZE * k) + 1))
    else int PACKET_DATA_SIZE)"
    by (simp only: need_def need_to_read_bytes_def q1(3))
  have n: "0 \<le> need" "need \<le> int PACKET_DATA_SIZE"
    "take (nat need) (drop (dl_start d + PACKET_DATA_SIZE * k) (dl_content d)) = dl_chunk d k"
    using need_bytes [OF assms(1,5)] by (simp_all only: need)
  obtain data where data: "fread_block (pk_data q1) need (drop (dl_start d + PACKET_DATA_SIZE * k) (dl_content d)) =
      Some (length (dl_chunk d k), data)" "length data = PACKET_DATA_SIZE" "prefix (dl_chunk d k) data"
    using fread_block_small [OF n(1,2), of "pk_data q1"] n(3) env(2) q1(2) by metis
  let ?q = "q1\<lparr>pk_data := data, pk_packet_number := pk_ack_number p,
    pk_data_size := int (length (dl_chunk d k)), pk_packet_type := ''synack''\<rparr>"
  have "block_for d k ?q"
    using p(1) q1 data by (simp add: block_for_def block_packet_def packet_for_def)
  moreover have "multiplex_ack env p = Some (if dl_chunk d k = [] then [] else [UdpPacket ?q])"
  proof -
    have st: "pk_start_byte p = int (dl_start d + PACKET_DATA_SIZE * k)" "pk_file_path p = dl_path d"
      using p(1) by (auto simp: packet_for_def)
    have "\<not> pk_start_byte p < 0" "nat (pk_start_byte p) = dl_start d + PACKET_DATA_SIZE * k"
      unfolding st by (simp_all only: of_nat_less_0_iff nat_int not_False_eq_True)
    moreover have "length (dl_path d) < PATH_SIZE" by (rule dl_path_short [OF assms(1)])
    moreover have "ue_files env (pk_file_path p) = Some (dl_content d)" using st(2) env(1) assms(2) by simp
    moreover have "(if pk_ack_number p = 0 then set_content_length q (int (length (dl_content d))) else q) = q1"
      by (simp only: q1_def dl_size_def)
    ultimately show ?thesis
      using st(2) q(1) data(1)
      by (cases "dl_chunk d k = []")
        (simp_all add: multiplex_ack_def need_def [symmetric] split del: if_split)
  qed
  ultimately show ?thesis by blast
qed

lemma send_headers_of:
  assumes "transfer_env frames files date env" "block_packet d k q"
  shows "send_headers env q (dl_fd d) =
    map_option (\<lambda>h. (h, True)) (if k = 0 then dl_header (ue_dead env) date d else Some [])"
proof (cases "k = 0")
  case True
  have q: "pk_packet_number q = 0" "pk_file_path q = dl_path d" "pk_content_length q = dl_size d"
    "pk_end_byte q = dl_end d" "pk_start_byte q = int (dl_start d)" "pk_orig_has_range q = (dl_range d \<noteq> None)"
    using assms(2) True by (auto simp: block_packet_def packet_for_def)
  have e: "ue_date env = date" "0 \<le> ue_header_sent env" using assms(1) by (auto simp: transfer_env_def)
  show ?thesis
    unfolding send_headers_def dl_header_def dl_type_def q e(1) using e(2) True
    by (cases "parse_http_uri (dl_path d)"; cases "dl_range d = None")
      (auto split: Option.bind_split option.splits prod.splits)
next
  case False
  with assms(2) show ?thesis by (simp add: send_headers_def block_packet_def packet_for_def)
qed

lemma forward_one:
  assumes "dl_ok d" "transfer_env frames files date env" "block_for d k q" "dl_fd d \<in> set conns"
  shows "multiplex_synack env q conns =
      map_option (\<lambda>h. (map Tcp h @ Tcp (Send (dl_fd d) (pk_data q)) #
        (if length (dl_chunk d k) < PACKET_DATA_SIZE then [Tcp (CloseFd (dl_fd d))]
         else [UdpPacket (next_ack (Some ''ack'') (dl_fd d) q)]), conns))
      (if k = 0 then dl_header (ue_dead env) date d else Some [])"
proof -
  let ?q = "q\<lparr>pk_connection_id := show_int (dl_fd d)\<rparr>"
  have q: "block_packet d k q" "pk_connection_id q = dl_id d k" "length (pk_packet_type q) < TYPE_SIZE"
    using assms(3) by (simp_all add: block_for_def block_packet_def packet_for_def)
  have h: "send_headers env ?q (dl_fd d) = send_headers env q (dl_fd d)"
    by (simp add: send_headers_def Let_def cong: if_cong)
  have "\<not> ue_data_sent env < 0" using assms(2) by (simp add: transfer_env_def)
  from forward_block_of [OF assms(1) q(1) assms(4) this q(3), of "Some ''ack''"] show ?thesis
    using client_socket_of [OF assms(1) q(2)] h send_headers_of [OF assms(2) q(1)]
    by (cases "if k = 0 then dl_header (ue_dead env) date d else Some []") (simp_all add: multiplex_synack_def)
qed

subsection \<open>The contract\<close>

type_synonym udp_context = "(string \<Rightarrow> string) set \<times> (string \<Rightarrow> string option) \<times> string \<times> int list"

text \<open>The readings of the frame, the files of the serving node, the date, and the connections of the node that asked.\<close>

fun can_serve :: "udp_context \<Rightarrow> download \<Rightarrow> bool" where
  "can_serve (frames, files, date, conns) d \<longleftrightarrow> dl_ok d \<and> files (dl_path d) = Some (dl_content d) \<and>
     dl_fd d \<in> set conns"

fun served_headers :: "udp_context \<Rightarrow> download \<Rightarrow> tcp_action list option set" where
  "served_headers (frames, files, date, conns) d = (\<lambda>frame. dl_header frame date d) ` frames"

fun context_handles :: "udp_context \<Rightarrow> packet \<Rightarrow> int list \<Rightarrow>
    (packet list \<times> tcp_action list \<times> int list) option \<Rightarrow> bool" where
  "context_handles (frames, files, date, conns) = udp_handles frames files date"

fun same_connections :: "udp_context \<Rightarrow> download \<Rightarrow> int list \<Rightarrow> bool" where
  "same_connections (frames, files, date, conns) d n \<longleftrightarrow> n = conns"

lemma transfer_env_exists: "frame \<in> frames \<Longrightarrow> \<exists>env. transfer_env frames files date env \<and> ue_dead env = frame"
  by (rule exI [of _ "\<lparr>ue_files = files, ue_junk = empty_packet [], ue_date = date, ue_dead = frame,
    ue_header_sent = 0, ue_data_sent = 0\<rparr>"]) (simp add: transfer_env_def empty_packet_def)

lemma udp_handlesI: "transfer_env frames files date env \<Longrightarrow> udp_handles frames files date p conns
    (map_option (\<lambda>(acts, conns). (packets_of acts, tcp_of acts, conns)) (multiplex_udp env 1 p conns))"
  unfolding udp_handles_def by (intro exI [of _ env] exI [of _ 1]) simp

interpretation hw4: block_transfer context_handles can_serve served_headers ack_for block_for pk_data same_connections
proof unfold_locales
  fix c :: udp_context and d n p k r
  obtain frames files date conns where c: "c = (frames, files, date, conns)" by (cases c)
  {
    assume g: "can_serve c d" and n: "same_connections c d n" and a: "ack_for d k p"
      and k: "PACKET_DATA_SIZE * k \<le> length (dl_body d)" and h: "context_handles c p n r"
    from h c n obtain env m where env: "transfer_env frames files date env" "m \<noteq> 0" "m \<noteq> -1"
      "r = map_option (\<lambda>(acts, conns). (packets_of acts, tcp_of acts, conns)) (multiplex_udp env m p conns)"
      by (auto simp: udp_handles_def)
    obtain q where q: "block_for d k q" "multiplex_ack env p = Some (if dl_chunk d k = [] then [] else [UdpPacket q])"
      using serve_block [OF _ _ env(1) a k] g c by auto
    have "multiplex_udp env m p conns = Some (if dl_chunk d k = [] then [] else [UdpPacket q], conns)"
      using env(2,3) q(2) a by (simp add: multiplex_udp_def ack_for_def)
    with env(4) q(1) n c show "\<exists>q n'. same_connections c d n' \<and> (dl_chunk d k \<noteq> [] \<longrightarrow> block_for d k q) \<and>
        r = Some (if dl_chunk d k = [] then [] else [q], [], n')"
      by (intro exI [of _ q] exI [of _ conns]) simp
  }
  {
    assume g: "can_serve c d" and n: "same_connections c d n" and b: "block_for d k p"
      and h: "context_handles c p n r"
    from h c n obtain env m where env: "transfer_env frames files date env" "m \<noteq> 0" "m \<noteq> -1"
      "r = map_option (\<lambda>(acts, conns). (packets_of acts, tcp_of acts, conns)) (multiplex_udp env m p conns)"
      by (auto simp: udp_handles_def)
    have mu: "multiplex_udp env m p conns = multiplex_synack env p conns"
      using env(2,3) b by (simp add: multiplex_udp_def block_for_def)
    have nx: "length (dl_chunk d k) = PACKET_DATA_SIZE \<longrightarrow>
        ack_for d (Suc k) (next_ack (Some ''ack'') (dl_fd d) p)"
      using next_ack_for [of d k p "Some ''ack''"] g c b by (simp add: block_for_def)
    have "ue_dead env \<in> frames" using env(1) by (simp add: transfer_env_def)
    note fw = forward_one [OF _ env(1) b, of conns]
    show "k = 0 \<and> None \<in> served_headers c d \<and> r = None \<or>
      (\<exists>hdr a n'. (k = 0 \<longrightarrow> Some hdr \<in> served_headers c d) \<and>
        same_connections c d n' \<and> (length (dl_chunk d k) = PACKET_DATA_SIZE \<longrightarrow> ack_for d (Suc k) a) \<and>
        r = Some (if length (dl_chunk d k) < PACKET_DATA_SIZE then [] else [a],
          (if k = 0 then hdr else []) @ Send (dl_fd d) (pk_data p) #
            (if length (dl_chunk d k) < PACKET_DATA_SIZE then [CloseFd (dl_fd d)] else []), n'))"
    proof (cases "if k = 0 then dl_header (ue_dead env) date d else Some []")
      case None
      then have "k = 0" "None \<in> served_headers c d"
        using \<open>ue_dead env \<in> frames\<close> c by (auto split: if_splits intro: rev_image_eqI)
      with None env(4) g c mu fw show ?thesis by simp
    next
      case (Some h)
      then have "k = 0 \<longrightarrow> Some h \<in> served_headers c d"
        using \<open>ue_dead env \<in> frames\<close> c by (auto intro: rev_image_eqI)
      moreover have "(if k = 0 then h else []) = h" using Some by auto
      ultimately show ?thesis
        using Some env(4) g c n mu fw nx
        by (intro disjI2 exI [of _ h] exI [of _ "next_ack (Some ''ack'') (dl_fd d) p"] exI [of _ conns]) simp
    qed
  }
  {
    assume "served_headers c d \<noteq> {}" and n: "same_connections c d n"
    then obtain frame where "frame \<in> frames" using c by auto
    then obtain env where env: "transfer_env frames files date env" using transfer_env_exists by blast
    show "\<exists>r. context_handles c p n r" using udp_handlesI [OF env, of p conns] c n by auto
  }
  {
    fix h
    assume g: "can_serve c d" and n: "same_connections c d n" and b: "block_for d 0 p"
      and h: "h \<in> served_headers c d"
    then obtain frame where f: "frame \<in> frames" "dl_header frame date d = h" using c by auto
    then obtain env where env: "transfer_env frames files date env" "ue_dead env = frame"
      using transfer_env_exists by blast
    have "multiplex_udp env 1 p conns = None \<longleftrightarrow> h = None"
      using forward_one [OF _ env(1) b, of conns] g c f env(2) b
      by (simp add: multiplex_udp_def block_for_def)
    then show "\<exists>r. context_handles c p n r \<and> (r = None \<longleftrightarrow> h = None)"
      using udp_handlesI [OF env(1), of p conns] c n by (auto simp del: not_None_eq)
  }
qed (auto simp: block_for_def block_packet_def)

text \<open>A header is one message to the client.\<close>

lemma dl_header_message:
  assumes "dl_ok d" "length date = 29" "dl_header frame date d = Some hdr"
  shows "\<exists>m. hdr = [Send (dl_fd d) m]"
proof -
  obtain ct where "dl_type frame d = Some ct" using assms(3) by (auto simp: dl_header_def bind_Some_iff)
  with dl_header_fits [OF assms(1) this assms(2)] assms(3) show ?thesis by auto
qed


subsection \<open>Properties\<close>

text \<open>
  C22. When no datagram of a download is under way any more, the TCP client has received one
  header and the asked bytes of the file in order, padded to a multiple of 1024 bytes with
  what the serving node's stack held, and the connection has been closed unless the number of
  asked bytes is a multiple of 1024. The header is the one of 200 or 206 for the size and the
  range, with the content type of what the extension reads as in the dead stack frame of
  parse_http_uri. The file is not empty and smaller than 2^31 - 2048 bytes, the range begins in
  it and its end is neither before its start nor 0, and the network loses and reorders nothing.
\<close>

theorem download_delivers:
  assumes "dl_ok d" "length date = 29" "files (dl_path d) = Some (dl_content d)" "dl_fd d \<in> set conns"
  shows "\<exists>p. dl_request d = Some p \<and>
    (\<forall>n s. xfer_run frames files date (dl_init d p conns) n s \<and> xf_wire s = [] \<longrightarrow>
      (\<exists>frame m bs. frame \<in> frames \<and> dl_header frame date d = Some [Send (dl_fd d) m] \<and>
        xf_out s = Send (dl_fd d) m # map (Send (dl_fd d)) bs @
          (if PACKET_DATA_SIZE dvd length (dl_body d) then [] else [CloseFd (dl_fd d)]) \<and>
        length (concat bs) =
          PACKET_DATA_SIZE * ((length (dl_body d) + PACKET_DATA_SIZE - 1) div PACKET_DATA_SIZE) \<and>
        prefix (dl_body d) (concat bs)))"
proof -
  obtain p where p: "dl_request d = Some p" "ack_for d 0 p" using dl_request_ack [OF assms(1)] by blast
  have g: "can_serve (frames, files, date, conns) d" using assms by simp
  have "\<exists>frame m bs. frame \<in> frames \<and> dl_header frame date d = Some [Send (dl_fd d) m] \<and>
        xf_out s = Send (dl_fd d) m # map (Send (dl_fd d)) bs @
          (if PACKET_DATA_SIZE dvd length (dl_body d) then [] else [CloseFd (dl_fd d)]) \<and>
        length (concat bs) =
          PACKET_DATA_SIZE * ((length (dl_body d) + PACKET_DATA_SIZE - 1) div PACKET_DATA_SIZE) \<and>
        prefix (dl_body d) (concat bs)"
    if run: "xfer_run frames files date (dl_init d p conns) n s" "xf_wire s = []" for n s
  proof -
    obtain hdr bs where h: "Some hdr \<in> served_headers (frames, files, date, conns) d"
      "xf_out s = hdr @ map (Send (dl_fd d)) bs @
        (if PACKET_DATA_SIZE dvd length (dl_body d) then [] else [CloseFd (dl_fd d)])"
      "length (concat bs) = PACKET_DATA_SIZE * ((length (dl_body d) + PACKET_DATA_SIZE - 1) div PACKET_DATA_SIZE)"
      "prefix (dl_body d) (concat bs)"
      using hw4.delivers [OF _ run(2) p(2) g, of conns n] run(1) by (auto simp: dl_init_def)
    then obtain frame where f: "frame \<in> frames" "dl_header frame date d = Some hdr" by auto
    then obtain m where "hdr = [Send (dl_fd d) m]" using dl_header_message [OF assms(1,2)] by blast
    with h f show ?thesis by (intro exI [of _ frame] exI [of _ m] exI [of _ bs]) simp
  qed
  with p(1) show ?thesis by blast
qed


text \<open>
  C24. When the number of asked bytes is a multiple of 1024 the connection of the client is never
  closed: after two steps for each block the acknowledgement of the last one is under way. It
  asks for a block behind the asked bytes, and the server does not answer it: the next step
  leaves nothing under way and does nothing to the client's connection.
\<close>

theorem download_never_closed:
  assumes "dl_ok d" "length date = 29" "files (dl_path d) = Some (dl_content d)" "dl_fd d \<in> set conns"
    and "PACKET_DATA_SIZE dvd length (dl_body d)"
  shows "\<exists>p. dl_request d = Some p \<and>
    (\<forall>n s fd. xfer_run frames files date (dl_init d p conns) n s \<longrightarrow> CloseFd fd \<notin> set (xf_out s)) \<and>
    (\<forall>s. xfer_run frames files date (dl_init d p conns) (2 * (length (dl_body d) div PACKET_DATA_SIZE)) s \<longrightarrow>
      (\<exists>a. xf_wire s = [a] \<and> pk_start_byte a = int (dl_start d + length (dl_body d))) \<and>
      (\<forall>r. xfer_step frames files date s r \<longrightarrow>
        (\<exists>s'. r = Some s' \<and> xf_wire s' = [] \<and> xf_out s' = xf_out s)))"
proof -
  obtain p where p: "dl_request d = Some p" "ack_for d 0 p" using dl_request_ack [OF assms(1)] by blast
  have g: "can_serve (frames, files, date, conns) d" using assms by simp
  have same: "same_connections (frames, files, date, conns) d conns" by simp
  have closes: "CloseFd fd \<notin> set hdr" if h: "Some hdr \<in> served_headers (frames, files, date, conns) d" for hdr fd
  proof -
    obtain frame where "dl_header frame date d = Some hdr" using h by auto
    then obtain m where "hdr = [Send (dl_fd d) m]" using dl_header_message [OF assms(1,2)] by blast
    then show ?thesis by simp
  qed
  have k: "PACKET_DATA_SIZE * (length (dl_body d) div PACKET_DATA_SIZE) = length (dl_body d)" using assms(5) by simp
  have "(\<exists>a. xf_wire s = [a] \<and> pk_start_byte a = int (dl_start d + length (dl_body d))) \<and>
      (\<forall>r. xfer_step frames files date s r \<longrightarrow> (\<exists>s'. r = Some s' \<and> xf_wire s' = [] \<and> xf_out s' = xf_out s))"
    if run: "xfer_run frames files date (dl_init d p conns) (2 * (length (dl_body d) div PACKET_DATA_SIZE)) s" for s
  proof -
    have run': "wire_run (context_handles (frames, files, date, conns)) (wire_init p conns)
        (2 * (length (dl_body d) div PACKET_DATA_SIZE)) s" using run by (simp add: dl_init_def)
    obtain a where a: "xf_wire s = [a]" "ack_for d (length (dl_body d) div PACKET_DATA_SIZE) a"
      "\<forall>r. wire_step (udp_handles frames files date) s r \<longrightarrow> (\<exists>n. r = Some (s\<lparr>xf_wire := [], xf_node := n\<rparr>))"
      using hw4.last_unanswered [OF run' p(2) g same assms(5)] by auto
    then have "pk_start_byte a = int (dl_start d + length (dl_body d))"
      by (simp add: ack_for_def packet_for_def k)
    with a show ?thesis by fastforce
  qed
  moreover have "CloseFd fd \<notin> set (xf_out s)" if "xfer_run frames files date (dl_init d p conns) n s" for n s fd
    using hw4.stays_open [OF _ p(2) g same assms(5) closes] that by (simp add: dl_init_def)
  ultimately show ?thesis using p(1) by blast
qed

definition sample_download :: "string \<Rightarrow> download" where
  "sample_download content =
     \<lparr>dl_path = ''content/a.ogg'', dl_content = content, dl_fd = 5, dl_range = None\<rparr>"

lemma sample_download_facts:
  assumes "content \<noteq> []" "length content < 100000"
  shows "dl_ok (sample_download content)" "dl_type id (sample_download content) = Some ''video/ogg''"
    "dl_body (sample_download content) = content" "dl_fd (sample_download content) = 5"
    "dl_path (sample_download content) = ''content/a.ogg''"
    "dl_content (sample_download content) = content"
proof -
  let ?d = "sample_download content"
  have n: "show_int 5 = ''5''" by code_simp
  have e: "dl_end ?d = int (length content) - 1"
    by (simp add: dl_end_def dl_asked_end_def dl_size_def sample_download_def)
  have "dl_start ?d = 0" by (simp add: dl_start_def sample_download_def)
  with e assms show "dl_ok ?d" "dl_body ?d = content"
    by (cases content; simp add: dl_ok_def dl_body_def dl_size_def n sample_download_def is_i32_def INT_MIN_def
        INT_MAX_def dl_asked_end_def)+
  show "dl_type id ?d = Some ''video/ogg''"
    using parse_http_uri_extension [of "''content/''" "''a.ogg''" "''a''" "''ogg''" "[]"]
    by (simp add: dl_type_def sample_download_def URI_BUF_def content_type_lookup_def)
qed (simp_all add: sample_download_def)

lemma download_delivers_witness:
  "\<exists>p. dl_request (sample_download ''hello'') = Some p \<and>
    (\<forall>n s. xfer_run UNIV [''content/a.ogg'' \<mapsto> ''hello''] ''Sat, 11 Feb 2023 00:03:43 GMT''
        (dl_init (sample_download ''hello'') p [4, 5]) n s \<and> xf_wire s = [] \<longrightarrow>
      (\<exists>m bs. xf_out s = Send 5 m # map (Send 5) bs @ [CloseFd 5] \<and> length (concat bs) = 1024 \<and>
        prefix ''hello'' (concat bs)))"
proof -
  have c: "''hello'' \<noteq> []" "length ''hello'' < 100000" by simp_all
  note f = sample_download_facts [OF c]
  show ?thesis
    using download_delivers [OF f(1), of "''Sat, 11 Feb 2023 00:03:43 GMT''"
        "[''content/a.ogg'' \<mapsto> ''hello'']" "[4, 5]" UNIV]
    by (simp add: f PACKET_DATA_SIZE_def nat_dvd_not_less) blast
qed


lemma download_never_closed_witness:
  "\<exists>p. dl_request (sample_download (replicate 1024 CHR ''x'')) = Some p \<and>
    (\<forall>n s fd. xfer_run UNIV [''content/a.ogg'' \<mapsto> replicate 1024 CHR ''x''] ''Sat, 11 Feb 2023 00:03:43 GMT''
        (dl_init (sample_download (replicate 1024 CHR ''x'')) p [4, 5]) n s \<longrightarrow> CloseFd fd \<notin> set (xf_out s))"
proof -
  have c: "replicate 1024 CHR ''x'' \<noteq> []" "length (replicate 1024 CHR ''x'') < 100000" by simp_all
  note f = sample_download_facts [OF c]
  show ?thesis
    using download_never_closed [OF f(1), of "''Sat, 11 Feb 2023 00:03:43 GMT''"
        "[''content/a.ogg'' \<mapsto> replicate 1024 CHR ''x'']" "[4, 5]" UNIV]
    by (simp add: f PACKET_DATA_SIZE_def) blast
qed

text \<open>
  C30. A request for the first byte of a file alone (\<open>bytes=0-0\<close>) is answered like one for the whole
  file: 0 is taken for a missing end, and the serving node answers with the first 1024 bytes and
  the last byte of the file as the end of the range.
\<close>

theorem range_zero_sends_all:
  assumes "dl_range d = Some (0, 0)" "dl_content d \<noteq> []" "dl_size d < 2 ^ 31"
    and "length (show_int (dl_fd d) @ '' '' @ dl_path d) < ID_SIZE"
    and "files (dl_path d) = Some (dl_content d)" "transfer_env frames files date env"
  shows "\<exists>p q. dl_request d = Some p \<and> multiplex_udp env 1 p conns = Some ([UdpPacket q], conns) \<and>
    pk_end_byte q = dl_size d - 1 \<and> pk_data_size q = min 1024 (dl_size d) \<and>
    prefix (take PACKET_DATA_SIZE (dl_content d)) (pk_data q)"
proof -
  have l: "length (dl_path d) < PATH_SIZE" "length (dl_path d) < PACKET_DATA_SIZE"
    using assms(4) by (auto simp: PACKET_DATA_SIZE_def)
  obtain p where p: "dl_request d = Some p" "pk_packet_type p = ''ack''" "pk_ack_number p = 0"
    "pk_file_path p = dl_path d" "pk_start_byte p = 0" "pk_end_byte p = 0" "pk_orig_has_range p"
    "length (pk_connection_id p) < ID_SIZE"
    using assms(1,4) l by (auto simp: dl_request_def request_packet_def empty_packet_def)
  obtain q where q: "duplicate_packet (ue_junk env) p = Some q" "pk_end_byte q = 0" "pk_start_byte q = 0"
    "pk_orig_has_range q" "pk_data q = pk_data (ue_junk env)"
    using p l by (auto simp: duplicate_packet_def)
  have sz: "0 < dl_size d" using assms(2) by (simp add: dl_size_def)
  then have i: "i32 (dl_size d - 1) = dl_size d - 1" "i32 (dl_size d) = dl_size d"
    using assms(3) by (auto intro!: i32_between)
  let ?q = "set_content_length q (dl_size d)"
  have e: "pk_end_byte ?q = dl_size d - 1" "pk_data ?q = pk_data (ue_junk env)"
    using q i by (simp_all add: set_content_length_def fix_end_byte_def)
  have n: "need_to_read_bytes ?q = min 1024 (dl_size d)"
    using q i sz by (simp add: need_to_read_bytes_def set_content_length_def fix_end_byte_def cmin_def
        PACKET_DATA_SIZE_def)
  have j: "length (pk_data (ue_junk env)) = PACKET_DATA_SIZE" "ue_files env = files"
    using assms(6) by (simp_all add: transfer_env_def)
  have t: "take (nat (min 1024 (dl_size d))) (dl_content d) = take PACKET_DATA_SIZE (dl_content d)"
    by (auto simp: PACKET_DATA_SIZE_def dl_size_def min_def)
  obtain data where data: "fread_block (pk_data ?q) (min 1024 (dl_size d)) (dl_content d) =
      Some (length (take PACKET_DATA_SIZE (dl_content d)), data)" "prefix (take PACKET_DATA_SIZE (dl_content d)) data"
    using fread_block_small [of "min 1024 (dl_size d)" "pk_data ?q" "dl_content d"] sz e j
    unfolding t by (auto simp: PACKET_DATA_SIZE_def)
  have len: "int (length (take PACKET_DATA_SIZE (dl_content d))) = min 1024 (dl_size d)"
    by (auto simp: PACKET_DATA_SIZE_def dl_size_def)
  moreover have "0 < length (take PACKET_DATA_SIZE (dl_content d))"
    using assms(2) by (simp add: PACKET_DATA_SIZE_def)
  moreover have "ue_files env (dl_path d) = Some (dl_content d)" using j assms(5) by simp
  ultimately have "multiplex_ack env p = Some [UdpPacket (?q\<lparr>pk_data := data, pk_packet_number := 0,
      pk_data_size := min 1024 (dl_size d), pk_packet_type := ''synack''\<rparr>)]"
    using p q(1) l n data(1)
    by (simp add: multiplex_ack_def dl_size_def [symmetric] del: length_take)
  with p e data(2) show ?thesis
    by (intro exI [of _ p] exI) (auto simp: multiplex_udp_def)
qed

lemma range_zero_sends_all_witness:
  "\<exists>p q. dl_request \<lparr>dl_path = ''content/a.ogg'', dl_content = ''hello'', dl_fd = 5,
      dl_range = Some (0, 0)\<rparr> = Some p \<and>
    multiplex_udp \<lparr>ue_files = [''content/a.ogg'' \<mapsto> ''hello''], ue_junk = empty_packet [],
      ue_date = [], ue_dead = id, ue_header_sent = 0, ue_data_sent = 0\<rparr> 1 p [5] = Some ([UdpPacket q], [5]) \<and>
    pk_end_byte q = 4 \<and> pk_data_size q = 5 \<and> prefix ''hello'' (pk_data q)"
proof -
  let ?d = "\<lparr>dl_path = ''content/a.ogg'', dl_content = ''hello'', dl_fd = 5, dl_range = Some (0, 0)\<rparr> :: download"
  have n: "show_int 5 = ''5''" by code_simp
  have size: "dl_size ?d = 5" by (simp add: dl_size_def)
  have "\<exists>p q. dl_request ?d = Some p \<and>
    multiplex_udp \<lparr>ue_files = [''content/a.ogg'' \<mapsto> ''hello''], ue_junk = empty_packet [],
      ue_date = [], ue_dead = id, ue_header_sent = 0, ue_data_sent = 0\<rparr> 1 p [5] = Some ([UdpPacket q], [5]) \<and>
    pk_end_byte q = dl_size ?d - 1 \<and> pk_data_size q = min 1024 (dl_size ?d) \<and>
    prefix (take PACKET_DATA_SIZE (dl_content ?d)) (pk_data q)"
    by (rule range_zero_sends_all [where files = "[''content/a.ogg'' \<mapsto> ''hello'']"
          and date = "[]" and frames = UNIV])
      (simp_all add: dl_size_def transfer_env_def empty_packet_def n)
  then show ?thesis unfolding size by (simp add: PACKET_DATA_SIZE_def)
qed

text \<open>
  C25. A range whose end is more than one byte before its start is not rejected (the end is not
  0, which the node takes for a missing end): the number of bytes to read is negative, is
  converted to a huge unsigned number, and the serving node writes the rest of the file past
  the 1024 bytes of the packet (undefined behaviour) when it is longer.
\<close>

theorem range_end_before_start_overflows:
  assumes "dl_range d = Some (s, e)" "0 < e" "e + 1 < int s" "s + PACKET_DATA_SIZE < length (dl_content d)"
    and "dl_size d < 2 ^ 31" "length (show_int (dl_fd d) @ '' '' @ dl_path d) < ID_SIZE"
    and "files (dl_path d) = Some (dl_content d)" "transfer_env frames files date env"
  shows "\<exists>p. dl_request d = Some p \<and> multiplex_udp env 1 p conns = None"
proof -
  have l: "length (dl_path d) < PATH_SIZE" "length (dl_path d) < PACKET_DATA_SIZE"
    using assms(6) by (auto simp: PACKET_DATA_SIZE_def)
  obtain p where p: "dl_request d = Some p" "pk_packet_type p = ''ack''" "pk_ack_number p = 0"
    "pk_file_path p = dl_path d" "pk_start_byte p = int s" "pk_end_byte p = e" "pk_orig_has_range p"
    "length (pk_connection_id p) < ID_SIZE"
    using assms(1,6) l by (auto simp: dl_request_def request_packet_def empty_packet_def)
  obtain q where q: "duplicate_packet (ue_junk env) p = Some q" "pk_end_byte q = e" "pk_start_byte q = int s"
    "pk_orig_has_range q"
    using p l by (auto simp: duplicate_packet_def)
  let ?q = "set_content_length q (int (length (dl_content d)))"
  have s: "int s < 2 ^ 31 - 1024" using assms(4,5) by (simp add: dl_size_def PACKET_DATA_SIZE_def)
  have "fix_end_byte (int (length (dl_content d))) e = e"
    using assms(2-4) by (simp add: fix_end_byte_def)
  moreover have "i32 (e - int s + 1) = e - int s + 1" using assms(2,3) s by (intro i32_between) auto
  ultimately have need: "need_to_read_bytes ?q = e - int s + 1"
    using q assms(3) by (simp add: need_to_read_bytes_def set_content_length_def cmin_def PACKET_DATA_SIZE_def)
  have "u64 (e - int s + 1) = 2 ^ 64 + (e - int s + 1)"
    using assms(2,3) s by (intro u64_neg) auto
  then have "nat (min (u64 (e - int s + 1)) (int (length (drop s (dl_content d))))) = length (dl_content d) - s"
    using assms(2,4,5) s by (simp add: dl_size_def min_def)
  then have "fread_block (pk_data ?q) (need_to_read_bytes ?q) (drop s (dl_content d)) = None"
    unfolding need fread_block_def Let_def using assms(4) by simp
  moreover have "ue_files env = files" using assms(8) by (simp add: transfer_env_def)
  ultimately have "multiplex_ack env p = None"
    using p q(1) l assms(7) by (simp add: multiplex_ack_def)
  with p show ?thesis by (simp add: multiplex_udp_def)
qed

lemma range_end_before_start_overflows_witness:
  "\<exists>p. dl_request \<lparr>dl_path = ''content/a.ogg'', dl_content = replicate 3000 CHR ''x'', dl_fd = 5,
      dl_range = Some (500, 100)\<rparr> = Some p \<and>
    multiplex_udp \<lparr>ue_files = [''content/a.ogg'' \<mapsto> replicate 3000 CHR ''x''], ue_junk = empty_packet [],
      ue_date = [], ue_dead = id, ue_header_sent = 0, ue_data_sent = 0\<rparr> 1 p [5] = None"
proof -
  have "show_int 5 = ''5''" by code_simp
  then show ?thesis
    by (intro range_end_before_start_overflows [where files = "[''content/a.ogg'' \<mapsto> replicate 3000 CHR ''x'']"
          and s = 500 and e = 100 and date = "[]" and frames = UNIV])
      (simp_all add: PACKET_DATA_SIZE_def dl_size_def transfer_env_def empty_packet_def)
qed

end
