(* ===== verification/PeerProps.thy ===== *)
theory PeerProps
  imports PeerApi Session
begin

text \<open>
  Properties of the requests \<open>/peer/...\<close>: the reply with the neighbours always fits its
  buffer, what \<open>/peer/addneighbor\<close> does to the state, and where \<open>/peer/view\<close> asks for a file.
\<close>

subsection \<open>The size of the reply with the neighbours\<close>

lemma length_print_elems:
  assumes "\<forall>v\<in>set vs. \<forall>s. print_value fmt d v = Some s \<longrightarrow> length s \<le> n"
    and "print_elems fmt d vs = Some s"
  shows "length s \<le> length vs * (n + 2)"
  using assms
proof (induction vs arbitrary: s)
  case Nil
  then show ?case by simp
next
  case (Cons v vs)
  then obtain a b where ab: "print_value fmt d v = Some a" "print_elems fmt d vs = Some b"
    "s = a @ (if vs = [] then [] else if fmt then '', '' else '','') @ b"
    by (auto simp: bind_Some_iff)
  then have "length a \<le> n" "length b \<le> length vs * (n + 2)" using Cons by auto
  with ab(3) show ?case by (auto split: if_splits)
qed

lemma length_print_field: "field_ok n s \<Longrightarrow> length (print_string_ptr s) + 4 \<le> 6 * n"
  using length_print_string [of s] by (auto simp: field_ok_def)

lemma length_peer_obj:
  assumes "peer_ok p" "print_value False d (peer_obj p) = Some s"
  shows "length s \<le> 4300"
proof -
  have i: "length (show_int (pi_frontend_port p)) \<le> 11" "length (show_int (pi_backend_port p)) \<le> 11"
    "length (show_int (pi_weight p)) \<le> 11"
    using assms(1) unfolding peer_ok_def by (blast intro: length_show_int)+
  have f: "length (print_string_ptr (pi_uuid p)) + 4 \<le> 6 * UUID_SIZE"
    "length (print_string_ptr (pi_last_seen p)) + 4 \<le> 6 * UUID_SIZE"
    "length (print_string_ptr (pi_name p)) + 4 \<le> 6 * NAME_SIZE"
    "length (print_string_ptr (pi_host p)) + 4 \<le> 6 * NAME_SIZE"
    using assms(1) unfolding peer_ok_def by (blast intro: length_print_field)+
  have n: "num_int (of_int x) = x" if "is_i32 x" for x
    using that by (rule num_int_of_int)
  show ?thesis
    using assms i f length_print_string [of "''uuid''"] length_print_string [of "''last_seen''"]
      length_print_string [of "''name''"] length_print_string [of "''host''"]
      length_print_string [of "''frontend_port''"] length_print_string [of "''backend_port''"]
      length_print_string [of "''weight''"]
    by (auto simp: peer_obj_members print_number_def peer_ok_def n)
qed

definition neighbors_json :: "node_config \<Rightarrow> cJSON" where
  "neighbors_json c = JObject [(''peers'', JArray (map peer_obj (live_peers c)))]"

lemma neighbors_value:
  assumes "config_ok c"
  shows "get_config_value_by_key_json c ''peers'' False = map_option Some (cJSON_PrintUnformatted (neighbors_json c))"
  using assms by (simp add: get_config_value_by_key_json_def peers_read_ok foldl_add_array json_build neighbors_json_def)

lemma neighbors_text:
  assumes "config_ok c"
  shows "\<exists>s. get_config_value_by_key_json c ''peers'' False = Some (Some s) \<and> length s < 261900 \<and>
    cJSON_Parse s = Some (neighbors_json c)"
proof -
  let ?vs = "map peer_obj (live_peers c)"
  have v: "\<forall>v\<in>set ?vs. json_ok v \<and> json_depth v \<le> 1"
    using live_peers_ok [OF assms] peer_obj_ok by auto
  then have "json_ok (neighbors_json c)" by (auto simp: neighbors_json_def)
  moreover have "json_depth (JArray ?vs) \<le> Suc 1"
    by (rule json_depth_le_array) (use v in auto)
  then have "json_depth (neighbors_json c) \<le> 1000"
    unfolding neighbors_json_def json_depth.simps(2) by (simp del: json_depth.simps)
  ultimately obtain s where s: "cJSON_PrintUnformatted (neighbors_json c) = Some s"
    "cJSON_Parse s = Some (neighbors_json c)"
    using print_and_parse unfolding cJSON_PrintUnformatted_def by blast
  obtain b where b: "print_elems False 2 ?vs = Some b"
    "s = CHR 0x7B # print_string_ptr ''peers'' @ '':'' @ (''['' @ b @ '']'') @ [CHR 0x7D]"
    using s(1) by (auto simp: cJSON_PrintUnformatted_def neighbors_json_def bind_Some_iff numeral_2_eq_2)
  have "length b \<le> length ?vs * (4300 + 2)"
    using live_peers_ok [OF assms] length_peer_obj by (intro length_print_elems [OF _ b(1)]) auto
  moreover have "length ?vs \<le> 50" using live_peers_sub [OF assms] by (simp add: MAX_PEERS_def)
  then have "length ?vs * (4300 + 2) \<le> 50 * (4300 + 2)" by (rule mult_le_mono1)
  ultimately have "length b \<le> 50 * (4300 + 2)" by (rule le_trans)
  then have "length s < 261900" using b(2) length_print_string [of "''peers''"] by simp
  with s neighbors_value [OF assms] show ?thesis by auto
qed

lemma api_neighbors_reply:
  assumes "config_ok (nd_config nd)" "env_ok env"
  shows "\<exists>m s. api_neighbors env fd nd = Some (Answer nd [Tcp (Send fd m), Tcp (CloseFd fd)]) \<and>
    http_body m = Some (s @ crlf) \<and> cJSON_Parse s = Some (neighbors_json (nd_config nd))"
proof -
  obtain s where s: "get_config_value_by_key_json (nd_config nd) ''peers'' False = Some (Some s)"
    "length s < 261900" "cJSON_Parse s = Some (neighbors_json (nd_config nd))"
    using neighbors_text [OF assms(1)] by blast
  obtain m where "send_json_str (ae_date env) fd (Some s) = Some [Send fd m, CloseFd fd]"
    "http_body m = Some (s @ crlf)"
    using send_json_str_ok [of "ae_date env" s fd] assms(2) s(2) by (auto simp: env_ok_def)
  with s show ?thesis by (simp add: api_neighbors_def send_json_def answer_def)
qed

lemma command_paths [simplified]:
  "strtok_r ''/'' (''/peer/neighbors'' @ []) = (Some ''peer'', ''neighbors'')"
  "strtok_r ''/?'' ''neighbors'' = (Some ''neighbors'', [])"
  "strtok_r ''/'' (''/peer/addneighbor'' @ r) = (Some ''peer'', ''addneighbor'' @ r)"
  "strtok_r ''/?'' (''addneighbor?'' @ r) = (Some ''addneighbor'', r)"
  "strtok_r ''/'' (''/peer/view'' @ r) = (Some ''peer'', ''view'' @ r)"
  "strtok_r ''/?'' (''view/'' @ r) = (Some ''view'', r)"
  using peer_command(1) [of "''neighbors''" "[]"] peer_command(3) [of "''neighbors''"]
    peer_command(1) [of "''addneighbor''" r] peer_command(2) [of "''addneighbor''" "CHR ''?''" r]
    peer_command(1) [of "''view''" r] peer_command(2) [of "''view''" "CHR ''/''" r]
  by simp_all

text \<open>
  C36. For every well-formed configuration, full peer list included, \<open>/peer/neighbors\<close> is
  answered without an overflow of the 262144 bytes of the reply, changes nothing, and the body
  reads as the object with the list of exactly the live peers.
\<close>

theorem neighbors_reply:
  assumes "config_ok (nd_config nd)" "env_ok env"
  shows "\<exists>m s. process_peer_path env ''/peer/neighbors'' fd req nd =
      Some (Answer nd [Tcp (Send fd m), Tcp (CloseFd fd)]) \<and>
    http_body m = Some (s @ crlf) \<and> cJSON_Parse s = Some (neighbors_json (nd_config nd))"
  using api_neighbors_reply [OF assms, of fd] by (simp add: process_peer_path_def command_paths)

lemma neighbors_reply_witness:
  "\<exists>m s. process_peer_path sample_env ''/peer/neighbors'' 5 [] sample_node =
      Some (Answer sample_node [Tcp (Send 5 m), Tcp (CloseFd 5)]) \<and>
    http_body m = Some (s @ crlf) \<and> cJSON_Parse s = Some (JObject [(''peers'', JArray [])])"
  using neighbors_reply [of sample_node sample_env 5 "[]"] global_config_init_ok sample_env_ok
  by (simp add: sample_node_def neighbors_json_def live_peers_def global_config_init_def)

subsection \<open>Adding a neighbour\<close>

definition new_peer :: "string \<Rightarrow> string \<Rightarrow> int \<Rightarrow> int \<Rightarrow> int \<Rightarrow> peer_info" where
  "new_peer u h f b w = \<lparr>pi_uuid = u, pi_last_seen = [], pi_name = [], pi_host = h, pi_frontend_port = f,
     pi_backend_port = b, pi_weight = w, pi_is_online = False\<rparr>"

definition with_peer :: "node_config \<Rightarrow> peer_info \<Rightarrow> node_config" where
  "with_peer c p = c\<lparr>nc_peers := (nc_peers c)[nat (nc_peer_count c) := p],
     nc_peer_count := nc_peer_count c + 1\<rparr>"

lemma with_peer_live:
  assumes "config_ok c" "nc_peer_count c < int MAX_PEERS" "peer_ok p"
  shows "config_ok (with_peer c p) \<and> live_peers (with_peer c p) = live_peers c @ [p]"
proof -
  have "length (nc_peers c) = MAX_PEERS" "0 \<le> nc_peer_count c" using config_okD(1,2) [OF assms(1)] .
  with assms show ?thesis
    by (auto simp: with_peer_def config_ok_def live_peers_def nat_add_distrib take_Suc_conv_app_nth
        dest!: subsetD [OF set_update_subset_insert])
qed

definition addneighbor_request :: "string \<Rightarrow> string \<Rightarrow> bool" where
  "addneighbor_request query req \<longleftrightarrow> (\<exists>r. req = ''GET '' @ query @ '' HTTP'' @ r)"

lemma addneighbor_query_of:
  assumes "addneighbor_request query req" "CHR '' '' \<notin> set query" "length query < 256"
  shows "addneighbor_query req = Some (Some query)"
proof -
  obtain r where r: "req = ''GET '' @ query @ '' HTTP'' @ r" using assms(1) by (auto simp: addneighbor_request_def)
  have "strstr (query @ '' HTTP'' @ r) '' HTTP'' = Some ('' HTTP'' @ r)"
    using assms(2) by (simp add: strstr_skip starts_with_def)
  then show ?thesis using assms(3) by (simp add: r addneighbor_query_def starts_with_def)
qed

definition after_addneighbor ::
  "node_config \<Rightarrow> node \<Rightarrow> string \<Rightarrow> string \<Rightarrow> int \<Rightarrow> int \<Rightarrow> int \<Rightarrow> node" where
  "after_addneighbor junk nd u h f b w =
     (if nc_peer_count (nd_config nd) = int MAX_PEERS \<or> u \<in> set (peer_uuids (nd_config nd)) then nd
      else nd\<lparr>nd_config := with_peer (nd_config nd) (new_peer u h f b w),
        nd_network_map := update_network_map (nd_network_map nd) u
          (Other (junk\<lparr>nc_uuid := u, nc_name := [], nc_frontend_port := f, nc_backend_port := b\<rparr>))\<rparr>)"

text \<open>The body of the answer: the new list as JSON, or the page with the error.\<close>

definition addneighbor_answer :: "node_config \<Rightarrow> string \<Rightarrow> peer_info \<Rightarrow> string \<Rightarrow> bool" where
  "addneighbor_answer c u p m \<longleftrightarrow>
     (if nc_peer_count c = int MAX_PEERS
      then http_body m = Some (''<html><body>Error: add_peer_from_string error</body></html>'' @ crlf)
      else if u \<in> set (peer_uuids c)
      then http_body m = Some (''<html><body>Error: Peer with UUID already exists</body></html>'' @ crlf)
      else \<exists>s. http_body m = Some (s @ crlf) \<and> cJSON_Parse s = Some (neighbors_json (with_peer c p)))"

lemma addneighbor_reply:
  assumes "config_ok (nd_config nd)" "env_ok env"
    and "query_field 36 u" "cstring u" "query_field 255 h" "cstring h" "is_i32 f" "is_i32 b" "is_i32 w"
    and "CHR '' '' \<notin> set u" "CHR '' '' \<notin> set h" "length (peer_query u h f b w) < 256"
    and "addneighbor_request (peer_query u h f b w) req"
  shows "\<exists>m. process_peer_path env (peer_query u h f b w) fd req nd =
    Some (Answer
      (after_addneighbor (ae_config_junk env) nd u h f b w)
      [Tcp (Send fd m), Tcp (CloseFd fd)]) \<and>
    addneighbor_answer (nd_config nd) u (new_peer u h f b w) m"
proof -
  let ?q = "peer_query u h f b w"
  have "CHR '' '' \<notin> set ?q"
    using assms(10,11) show_int_no_space by (auto simp: peer_query_def)
  note q = addneighbor_query_of [OF assms(13) this assms(12)]
  note add = add_peer_from_query [OF assms(1,3,5,7-9)]
  have "?q = ''/peer/addneighbor'' @ (''?uuid='' @ u @ ''&host='' @ h @ ''&frontend='' @ show_int f @
      ''&backend='' @ show_int b @ ''&metric='' @ show_int w)"
    by (simp add: peer_query_def)
  then have path: "process_peer_path env ?q fd req nd = api_addneighbor env fd nd req"
    by (simp add: process_peer_path_def command_paths)
  have err: "\<exists>m. send_str (ae_date env) fd (Some t) = Some [Send fd m, CloseFd fd] \<and>
      http_body m = Some (''<html><body>'' @ t @ ''</body></html>'' @ crlf)" if "length t < 261900" for t
    using send_str_ok [of "ae_date env" t fd] assms(2) that by (auto simp: env_ok_def)
  obtain m1 where m1: "send_str (ae_date env) fd (Some ''Error: add_peer_from_string error'') = Some [Send fd m1, CloseFd fd]"
    "http_body m1 = Some (''<html><body>Error: add_peer_from_string error</body></html>'' @ crlf)"
    using err [of "''Error: add_peer_from_string error''"] by auto
  obtain m2 where m2: "send_str (ae_date env) fd (Some ''Error: Peer with UUID already exists'') = Some [Send fd m2, CloseFd fd]"
    "http_body m2 = Some (''<html><body>Error: Peer with UUID already exists</body></html>'' @ crlf)"
    using err [of "''Error: Peer with UUID already exists''"] by auto
  show ?thesis
  proof (cases "nc_peer_count (nd_config nd) = int MAX_PEERS \<or> u \<in> set (peer_uuids (nd_config nd))")
    case True
    with q add m1 m2 path show ?thesis
      by (auto simp: api_addneighbor_def answer_def after_addneighbor_def addneighbor_answer_def)
  next
    case False
    let ?c = "with_peer (nd_config nd) (new_peer u h f b w)"
    let ?nd = "nd\<lparr>nd_config := ?c, nd_network_map := update_network_map (nd_network_map nd) u
      (Other ((ae_config_junk env)\<lparr>nc_uuid := u, nc_name := [], nc_frontend_port := f, nc_backend_port := b\<rparr>))\<rparr>"
    have "peer_ok (new_peer u h f b w)"
      using assms(3-9) by (auto simp: peer_ok_def new_peer_def field_ok_def query_field_def)
    with False with_peer_live [OF assms(1), of "new_peer u h f b w"] config_okD(3) [OF assms(1)]
    have c: "config_ok (nd_config ?nd)" by simp
    obtain m s where m: "api_neighbors env fd ?nd = Some (Answer ?nd [Tcp (Send fd m), Tcp (CloseFd fd)])"
      "http_body m = Some (s @ crlf)" "cJSON_Parse s = Some (neighbors_json ?c)"
      using api_neighbors_reply [OF c assms(2), of fd] by auto
    have a: "add_peer_from_string (nd_config nd) ?q = Some (0, ?c)"
      using False add by (simp add: with_peer_def new_peer_def)
    have "process_peer_path env ?q fd req nd = api_neighbors env fd ?nd"
      using q a url_path_to_config_query [OF assms(3-9), of "ae_config_junk env"]
      by (simp add: path api_addneighbor_def)
    with m False show ?thesis by (auto simp: after_addneighbor_def addneighbor_answer_def)
  qed
qed

text \<open>
  C37. A request that names a new peer appends it to the peer list, makes the network map refer
  to a new configuration for it (which keeps uuid and ports but not the host, the weight or
  the peers of the request) and answers with a body that reads as the object with the new list;
  nothing else of the state changes. A full list or a known uuid is answered with its error page
  and leaves the state alone.
\<close>

theorem addneighbor_request_effect:
  assumes "config_ok (nd_config nd)" "env_ok env"
    and "query_field 36 u" "cstring u" "query_field 255 h" "cstring h" "is_i32 f" "is_i32 b" "is_i32 w"
    and "CHR '' '' \<notin> set u" "CHR '' '' \<notin> set h" "length (peer_query u h f b w) < 256"
    and "addneighbor_request (peer_query u h f b w) req"
  shows "\<exists>m. process_peer_path env (peer_query u h f b w) fd req nd =
    Some (Answer
      (if nc_peer_count (nd_config nd) = int MAX_PEERS \<or> u \<in> set (peer_uuids (nd_config nd)) then nd
       else nd\<lparr>nd_config := with_peer (nd_config nd) (new_peer u h f b w),
         nd_network_map := update_network_map (nd_network_map nd) u
           (Other ((ae_config_junk env)\<lparr>nc_uuid := u, nc_name := [], nc_frontend_port := f,
             nc_backend_port := b\<rparr>))\<rparr>)
      [Tcp (Send fd m), Tcp (CloseFd fd)]) \<and>
    (if nc_peer_count (nd_config nd) = int MAX_PEERS
     then http_body m = Some (''<html><body>Error: add_peer_from_string error</body></html>'' @ crlf)
     else if u \<in> set (peer_uuids (nd_config nd))
     then http_body m = Some (''<html><body>Error: Peer with UUID already exists</body></html>'' @ crlf)
     else \<exists>s. http_body m = Some (s @ crlf) \<and>
       cJSON_Parse s = Some (neighbors_json (with_peer (nd_config nd) (new_peer u h f b w))))"
  unfolding after_addneighbor_def [symmetric] addneighbor_answer_def [symmetric] by (rule addneighbor_reply [OF assms])

lemma addneighbor_request_effect_witness:
  "\<exists>m. process_peer_path sample_env (peer_query ''n2'' ''remote'' 1 2 30) 5
      (''GET '' @ peer_query ''n2'' ''remote'' 1 2 30 @ '' HTTP'' @ ''/1.1'') sample_node =
    Some (Answer (sample_node\<lparr>nd_config := with_peer global_config_init (new_peer ''n2'' ''remote'' 1 2 30),
         nd_network_map := update_network_map (hash_table_create 100) ''n2''
           (Other (global_config_init\<lparr>nc_uuid := ''n2'', nc_name := [], nc_frontend_port := 1,
             nc_backend_port := 2\<rparr>))\<rparr>)
      [Tcp (Send 5 m), Tcp (CloseFd 5)]) \<and>
    (\<exists>s. http_body m = Some (s @ crlf) \<and>
      cJSON_Parse s = Some (neighbors_json (with_peer global_config_init (new_peer ''n2'' ''remote'' 1 2 30))))"
proof -
  have n: "show_int 1 = ''1''" "show_int 2 = ''2''" "show_int 30 = ''30''" by code_simp+
  have q: "addneighbor_request (peer_query ''n2'' ''remote'' 1 2 30)
      (''GET '' @ peer_query ''n2'' ''remote'' 1 2 30 @ '' HTTP'' @ ''/1.1'')"
    unfolding addneighbor_request_def by (rule exI) (rule refl)
  have c: "config_ok (nd_config sample_node)" using global_config_init_ok by (simp add: sample_node_def)
  have l: "length (peer_query ''n2'' ''remote'' 1 2 30) < 256" by (simp add: peer_query_def n)
  show ?thesis
    using addneighbor_request_effect [OF c sample_env_ok _ _ _ _ _ _ _ _ _ l q, of 5]
    by (simp add: query_field_def is_i32_def INT_MAX_def INT_MIN_def sample_node_def sample_env_def
        global_config_init_def live_peers_def MAX_PEERS_def)
qed

subsection \<open>Viewing a file\<close>

definition holders_terminated :: "unit hash_table \<Rightarrow> bool" where
  "holders_terminated peers \<longleftrightarrow> length (ht_buckets peers) = ht_size peers \<and>
     (\<forall>m\<in>set (ht_nodes peers). NUL \<in> set (node_key m))"

lemma last_holder_fold:
  "\<forall>m\<in>set (concat css). NUL \<in> set (node_key m) \<Longrightarrow> r \<noteq> None \<Longrightarrow>
    \<exists>y. foldl bucket_holder r css = Some y \<and>
      (if concat css = [] then r = Some y else (\<exists>m\<in>set (concat css). y = Some (node_path m)))"
proof (induction css arbitrary: r)
  case Nil
  then show ?case by auto
next
  case (Cons chain css)
  show ?case
  proof (cases chain)
    case Nil
    have "concat (chain # css) = concat css" by (simp add: Nil)
    with Cons.IH [of r] Cons.prems Nil show ?thesis
      by (simp only: foldl_Cons bucket_holder.simps simp_thms)
  next
    case (Cons m ms)
    with Cons.prems have k: "key_cstr (node_key m) = Some (node_path m)"
      by (simp add: key_cstr_def node_path_def)
    with Cons Cons.IH [of "Some (Some (node_path m))"] Cons.prems show ?thesis
      by (auto split: if_splits)
  qed
qed

lemma last_holder_of:
  assumes "holders_terminated peers"
  shows "if ht_nodes peers = [] then last_holder junk peers = Some junk
    else \<exists>m\<in>set (ht_nodes peers). last_holder junk peers = Some (Some (node_path m))"
proof -
  have m: "map (\<lambda>j. ht_buckets peers ! j) [0..<ht_size peers] = ht_buckets peers"
    using assms by (simp add: holders_terminated_def map_nth flip: assms [unfolded holders_terminated_def, THEN conjunct1])
  show ?thesis
    using last_holder_fold [of "ht_buckets peers" "Some junk"] assms
    unfolding last_holder_def m by (auto simp: holders_terminated_def ht_nodes_def split: if_splits)
qed

text \<open>
  C38. \<open>/peer/view\<close> of a file that only other nodes hold sends one packet, to the host and port
  of a holder: the request of the download of that file to this connection with the range of
  the HTTP request. The configuration and the tables of the node stay as they are. The stored
  uuids of the holders end within their keys, and each holder is another node that is known and
  resolves.
\<close>

theorem view_requests_download:
  assumes "path \<noteq> []" "length (show_int fd @ '' '' @ path) < ID_SIZE"
    and "hash_table_get (nd_filepaths nd) (key_mem path) (length path) = Some info"
    and "fi_peers info = Some peers" "holders_terminated peers" "ht_nodes peers \<noteq> []"
    and "\<forall>m\<in>set (ht_nodes peers). \<exists>c.
      hash_table_get (nd_network_map nd) (key_mem (node_path m)) (length (node_path m)) = Some (Other c) \<and>
      nc_uuid c \<noteq> nc_uuid (nd_config nd) \<and> nc_host c \<noteq> ''::1'' \<and> ae_resolves env (nc_host c)"
    and "parse_http_range_header req = map_option (\<lambda>(s, e). (int s, e)) rng"
  shows "\<exists>m\<in>set (ht_nodes peers). \<exists>c p sockets.
    hash_table_get (nd_network_map nd) (key_mem (node_path m)) (length (node_path m)) = Some (Other c) \<and>
    dl_request \<lparr>dl_path = path, dl_content = content, dl_fd = fd, dl_range = rng\<rparr> = Some p \<and>
    process_peer_path env (''/peer/view/'' @ path) fd req nd =
      Some (Answer (nd\<lparr>nd_sockets_map := sockets\<rparr>) [UdpTo (nc_host c) (nc_backend_port c) p])"
proof -
  obtain m where m: "m \<in> set (ht_nodes peers)"
    "last_holder (ae_uuid_junk env) peers = Some (Some (node_path m))"
    using last_holder_of [OF assms(5), of "ae_uuid_junk env"] assms(6) by auto
  then obtain c where c: "hash_table_get (nd_network_map nd) (key_mem (node_path m)) (length (node_path m)) = Some (Other c)"
    "nc_uuid c \<noteq> nc_uuid (nd_config nd)" "nc_host c \<noteq> ''::1''" "ae_resolves env (nc_host c)"
    using assms(7) by blast
  let ?id = "show_int fd @ '' '' @ path"
  let ?d = "\<lparr>dl_path = path, dl_content = content, dl_fd = fd, dl_range = rng\<rparr>"
  have l: "length path < PATH_SIZE" "length path < PACKET_DATA_SIZE"
    using assms(2) by (auto simp: PACKET_DATA_SIZE_def)
  then obtain p where p: "dl_request ?d = Some p"
    using assms(2) by (cases rng) (auto simp: dl_request_def request_packet_def)
  then have req: "request_packet ?id path (parse_http_range_header req) = Some p"
    using assms(8) by (simp add: dl_request_def)
  let ?s = "if hashmap_get (nd_sockets_map nd) ?id = None then hashmap_put (nd_sockets_map nd) ?id ?id
    else nd_sockets_map nd"
  have "view_found env fd nd req path (node_path m) (Other c) =
      Some (Answer (nd\<lparr>nd_sockets_map := ?s\<rparr>) [UdpTo (nc_host c) (nc_backend_port c) p])"
    using assms(2) req c(2-4) by (auto simp: view_found_def Let_def)
  moreover have "strtok_r [] path = (Some path, [])"
    using assms(1) strtok_r_whole [of path "[]"] by simp
  ultimately have "process_peer_path env (''/peer/view/'' @ path) fd req nd =
      Some (Answer (nd\<lparr>nd_sockets_map := ?s\<rparr>) [UdpTo (nc_host c) (nc_backend_port c) p])"
    using assms(3,4) m(2) c(1) by (simp add: process_peer_path_def command_paths api_view_def)
  with m(1) c(1) p show ?thesis by blast
qed

definition view_node :: "node_ref \<Rightarrow> node" where
  "view_node r = sample_node\<lparr>nd_network_map := update_network_map (hash_table_create 100) ''n1'' r,
     nd_filepaths := hash_table_put (hash_table_create 100) (key_mem ''a/b.ogg'')
       \<lparr>fi_path = ''a/b.ogg'', fi_peers = Some \<lparr>ht_size = 1, ht_buckets =
         [[\<lparr>node_key = key_mem ''n1'', node_value = ()\<rparr>]]\<rparr>\<rparr> (length ''a/b.ogg'')\<rparr>"

lemma view_node_facts:
  "hash_table_get (nd_filepaths (view_node r)) (key_mem ''a/b.ogg'') (length ''a/b.ogg'') =
    Some \<lparr>fi_path = ''a/b.ogg'', fi_peers = Some \<lparr>ht_size = 1, ht_buckets =
         [[\<lparr>node_key = key_mem ''n1'', node_value = ()\<rparr>]]\<rparr>\<rparr>"
  "hash_table_get (nd_network_map (view_node r)) (key_mem ''n1'') (length ''n1'') = Some r"
proof -
  have k: "table_key {''a/b.ogg''} ''a/b.ogg''" "table_key {''n1''} ''n1''"
    by (simp_all add: table_key_def prefix_free_def)
  show "hash_table_get (nd_filepaths (view_node r)) (key_mem ''a/b.ogg'') (length ''a/b.ogg'') =
    Some \<lparr>fi_path = ''a/b.ogg'', fi_peers = Some \<lparr>ht_size = 1, ht_buckets =
         [[\<lparr>node_key = key_mem ''n1'', node_value = ()\<rparr>]]\<rparr>\<rparr>"
    using ht.get_put [OF ht.inv_empty k(1) k(1)] by (simp add: view_node_def MAX_HASHTABLE_SIZE_def)
  show "hash_table_get (nd_network_map (view_node r)) (key_mem ''n1'') (length ''n1'') = Some r"
    by (simp add: view_node_def update_network_map_def ht.get_put [OF ht.inv_empty k(2) k(2), simplified MAX_HASHTABLE_SIZE_def, simplified]
        ht.get_empty [OF k(2), simplified MAX_HASHTABLE_SIZE_def, simplified])
qed

lemma view_requests_download_witness:
  "\<exists>p sockets. dl_request \<lparr>dl_path = ''a/b.ogg'', dl_content = [], dl_fd = 5, dl_range = None\<rparr> = Some p \<and>
    process_peer_path sample_env ''/peer/view/a/b.ogg'' 5 [] (view_node (Other (global_config_init\<lparr>nc_uuid := ''n1'', nc_host := ''h''\<rparr>))) =
      Some (Answer ((view_node (Other (global_config_init\<lparr>nc_uuid := ''n1'', nc_host := ''h''\<rparr>)))\<lparr>nd_sockets_map := sockets\<rparr>)
        [UdpTo ''h'' 8081 p])"
proof -
  let ?c = "global_config_init\<lparr>nc_uuid := ''n1'', nc_host := ''h''\<rparr>"
  let ?peers = "\<lparr>ht_size = 1, ht_buckets = [[\<lparr>node_key = key_mem ''n1'', node_value = ()\<rparr>]]\<rparr>"
  have n: "show_int 5 = ''5''" by code_simp
  have h: "holders_terminated ?peers" "ht_nodes ?peers = [\<lparr>node_key = key_mem ''n1'', node_value = ()\<rparr>]"
    by (simp_all add: holders_terminated_def ht_nodes_def key_mem_def)
  have p: "node_path \<lparr>node_key = key_mem ''n1'', node_value = ()\<rparr> = ''n1''"
    by (simp add: node_path_def key_mem_def c_str_def numeral_eq_Suc)
  have o: "\<forall>m\<in>set (ht_nodes ?peers). \<exists>c. hash_table_get (nd_network_map (view_node (Other ?c)))
      (key_mem (node_path m)) (length (node_path m)) = Some (Other c) \<and>
      nc_uuid c \<noteq> nc_uuid (nd_config (view_node (Other ?c))) \<and> nc_host c \<noteq> ''::1'' \<and> ae_resolves sample_env (nc_host c)"
    unfolding h(2) using view_node_facts(2) [of "Other ?c"]
    by (auto simp: p view_node_def sample_node_def sample_env_def global_config_init_def)
  have r: "parse_http_range_header [] = map_option (\<lambda>(s, e). (int s, e)) None"
    by (simp add: parse_http_range_header_def)
  show ?thesis
    using view_requests_download [OF _ _ view_node_facts(1) _ h(1) _ o r, of 5 "[]"] h(2)
      view_node_facts(2) [of "Other ?c"]
    by (auto simp: n p global_config_init_def)
qed

text \<open>
  \<open>/peer/view\<close> of a file of the node itself whose name has an extension copies its content
  type from an uninitialised pointer: the extension is read with its dot, and the table of
  content types knows it only without.
\<close>

theorem view_own_file_undefined:
  assumes "path = a @ ''.'' @ b" "a \<noteq> []" "CHR ''.'' \<notin> set a" "ae_files env path \<noteq> None"
    and "hash_table_get (nd_filepaths nd) (key_mem path) (length path) = Some info"
    and "fi_peers info = Some peers" "holders_terminated peers" "ht_nodes peers \<noteq> []"
    and "\<forall>m\<in>set (ht_nodes peers).
      hash_table_get (nd_network_map nd) (key_mem (node_path m)) (length (node_path m)) = Some Self"
    and "nc_host (nd_config nd) \<noteq> ''::1''" "ae_resolves env (nc_host (nd_config nd))"
  shows "process_peer_path env (''/peer/view/'' @ path) fd req nd = None"
proof -
  obtain m where m: "m \<in> set (ht_nodes peers)"
    "last_holder (ae_uuid_junk env) peers = Some (Some (node_path m))"
    using last_holder_of [OF assms(7), of "ae_uuid_junk env"] assms(8) by auto
  have s: "set_token (\<lambda>c. c \<noteq> CHR ''.'') None path = a"
    using assms(3) by (auto simp: assms(1) set_token_def intro: takeWhile_stop)
  let ?t = "takeWhile (\<lambda>c. \<not> isspace c) (''.'' @ b)"
  have t: "?t = CHR ''.'' # takeWhile (\<lambda>c. \<not> isspace c) b" by (simp add: isspace_def)
  have "sscanf [SkipSet (\<lambda>c. c \<noteq> CHR ''.''), ConvStr] path = [AStr ?t]"
    using assms(2) s by (simp add: assms(1) isspace_def)
  then have "local_file_type path = map_option Some (strcpy_buf 10 ?t)"
    by (simp add: local_file_type_def del: sscanf.simps)
  moreover have "content_type_lookup (Some ?t) = None"
    unfolding t by (simp add: content_type_lookup_def)
  ultimately have l: "view_local env fd nd' req path = None" for nd'
    using assms(4) by (auto simp: view_local_def strcpy_buf_def)
  have "view_found env fd nd req path (node_path m) Self = None"
    using assms(10,11) l by (auto simp: view_found_def Let_def bind_eq_None_conv)
  moreover have "strtok_r [] path = (Some path, [])"
    using assms(1,2) strtok_r_whole [of path "[]"] by simp
  ultimately show ?thesis
    using assms(5,6,9) m by (simp add: process_peer_path_def command_paths api_view_def)
qed

lemma view_own_file_undefined_witness:
  "process_peer_path (sample_env\<lparr>ae_files := [''a/b.ogg'' \<mapsto> ''x'']\<rparr>) ''/peer/view/a/b.ogg'' 5 [] (view_node Self) = None"
proof -
  let ?peers = "\<lparr>ht_size = 1, ht_buckets = [[\<lparr>node_key = key_mem ''n1'', node_value = ()\<rparr>]]\<rparr>"
  have h: "holders_terminated ?peers" "ht_nodes ?peers = [\<lparr>node_key = key_mem ''n1'', node_value = ()\<rparr>]"
    by (simp_all add: holders_terminated_def ht_nodes_def key_mem_def)
  have p: "node_path \<lparr>node_key = key_mem ''n1'', node_value = ()\<rparr> = ''n1''"
    by (simp add: node_path_def key_mem_def c_str_def numeral_eq_Suc)
  have o: "\<forall>m\<in>set (ht_nodes ?peers). hash_table_get (nd_network_map (view_node Self))
      (key_mem (node_path m)) (length (node_path m)) = Some Self"
    unfolding h(2) using view_node_facts(2) [of Self] by (simp add: p)
  have e: "''a/b.ogg'' = ''a/b'' @ ''.'' @ ''ogg''" by simp
  show ?thesis
    using view_own_file_undefined [OF e _ _ _ view_node_facts(1) _ h(1) _ o,
        of "sample_env\<lparr>ae_files := [''a/b.ogg'' \<mapsto> ''x'']\<rparr>" 5 "[]"] h(2)
    by (simp add: view_node_def sample_node_def sample_env_def global_config_init_def)
qed

end
