(* ===== verification/CStack.thy ===== *)
theory CStack
  imports Prelude
begin

text \<open>
  \<open>stack.c\<close>: the stack of directories that \<open>list_files\<close> still has to visit: a counter and
  a linked list of nodes, the top first.
\<close>

record 'a cstack =
  st_size :: int
  st_top :: "'a list"

definition stack_create :: "'a cstack" where
  "stack_create = \<lparr>st_size = 0, st_top = []\<rparr>"

definition stack_is_empty :: "'a cstack \<Rightarrow> bool" where
  "stack_is_empty s \<longleftrightarrow> st_size s = 0"

definition stack_push :: "'a cstack \<Rightarrow> 'a \<Rightarrow> 'a cstack" where
  "stack_push s d = s\<lparr>st_top := d # st_top s, st_size := i32 (st_size s + 1)\<rparr>"

text \<open>\<open>stack_push_str\<close> calls \<open>create_node\<close> and not \<open>create_node_str\<close>: it stores the
  pointer, like \<open>stack_push\<close>.\<close>

definition stack_push_str :: "'a cstack \<Rightarrow> 'a \<Rightarrow> 'a cstack" where
  "stack_push_str s d = s\<lparr>st_top := d # st_top s, st_size := i32 (st_size s + 1)\<rparr>"

text \<open>\<open>stack_pop\<close>: the inner option is the pointer returned (\<open>NULL\<close> for an empty stack);
  the outer \<open>None\<close> is the dereference of a \<open>NULL\<close> top under a nonzero counter.\<close>

definition stack_pop :: "'a cstack \<Rightarrow> ('a option \<times> 'a cstack) option" where
  "stack_pop s =
     (if stack_is_empty s then Some (None, s)
      else case st_top s of
             [] \<Rightarrow> None
           | d # ds \<Rightarrow> Some (Some d, s\<lparr>st_top := ds, st_size := i32 (st_size s - 1)\<rparr>))"

definition stack_size :: "'a cstack \<Rightarrow> int" where
  "stack_size s = st_size s"

text \<open>\<open>stack_destroy\<close> pops until the stack is empty; the result is what it popped.\<close>

partial_function (option) stack_destroy :: "'a cstack \<Rightarrow> 'a list option" where
  "stack_destroy s =
     (if stack_is_empty s then Some []
      else case stack_pop s of
             None \<Rightarrow> None
           | Some (None, s') \<Rightarrow> stack_destroy s'
           | Some (Some d, s') \<Rightarrow> Option.bind (stack_destroy s') (\<lambda>ds. Some (d # ds)))"

definition stack_inv :: "'a cstack \<Rightarrow> bool" where
  "stack_inv s \<longleftrightarrow> st_size s = int (length (st_top s)) \<and> length (st_top s) < 2 ^ 31"

text \<open>The contract of a stack, over the list of its elements.\<close>

locale lifo =
  fixes empty :: "'s"
    and is_empty :: "'s \<Rightarrow> bool"
    and push :: "'s \<Rightarrow> 'a \<Rightarrow> 's"
    and pop :: "'s \<Rightarrow> ('a option \<times> 's) option"
    and elems :: "'s \<Rightarrow> 'a list"
    and inv :: "'s \<Rightarrow> bool"
    and limit :: nat
  assumes inv_empty: "inv empty"
    and elems_empty: "elems empty = []"
    and is_empty_iff: "inv s \<Longrightarrow> is_empty s \<longleftrightarrow> elems s = []"
    and inv_push: "inv s \<Longrightarrow> length (elems s) < limit \<Longrightarrow> inv (push s d)"
    and elems_push: "elems (push s d) = d # elems s"
    and pop_ne: "inv s \<Longrightarrow> elems s = d # ds \<Longrightarrow>
      \<exists>s'. pop s = Some (Some d, s') \<and> elems s' = ds \<and> inv s'"
    and pop_empty: "inv s \<Longrightarrow> elems s = [] \<Longrightarrow> pop s = Some (None, s)"
begin

lemma pop_push:
  assumes "inv s" "length (elems s) < limit"
  shows "\<exists>s'. pop (push s d) = Some (Some d, s') \<and> elems s' = elems s \<and> inv s'"
  using pop_ne [OF inv_push [OF assms] elems_push] by blast

lemma pop_total: "inv s \<Longrightarrow> pop s \<noteq> None"
  using pop_ne pop_empty by (cases "elems s") fastforce+

lemma push_all:
  "inv s \<Longrightarrow> length (elems s) + length ds \<le> limit \<Longrightarrow>
    inv (foldl push s ds) \<and> elems (foldl push s ds) = rev ds @ elems s"
  by (induction ds arbitrary: s) (auto simp: inv_push elems_push)

end

lemma is_i32_nat: "n < 2 ^ 31 \<Longrightarrow> is_i32 (int n)"
  by (simp add: is_i32_def INT_MAX_def INT_MIN_def)

interpretation stk: lifo stack_create stack_is_empty stack_push stack_pop st_top stack_inv
    "2 ^ 31 - 1"
proof
  show "stack_inv stack_create" "st_top stack_create = []"
    by (simp_all add: stack_inv_def stack_create_def)
next
  fix s :: "'a cstack" and d ds
  show "stack_inv s \<Longrightarrow> stack_is_empty s \<longleftrightarrow> st_top s = []"
    by (auto simp: stack_inv_def stack_is_empty_def)
  show "st_top (stack_push s d) = d # st_top s"
    by (simp add: stack_push_def)
  show "stack_inv (stack_push s d)" if "stack_inv s" "length (st_top s) < 2 ^ 31 - 1"
  proof -
    from that(2) have "Suc (length (st_top s)) < 2 ^ 31" by simp
    then have "i32 (int (length (st_top s)) + 1) = int (length (st_top s)) + 1"
      using i32_id [OF is_i32_nat, of "Suc (length (st_top s))"] by (simp add: add.commute)
    with that show ?thesis by (simp add: stack_inv_def stack_push_def)
  qed
  show "\<exists>s'. stack_pop s = Some (Some d, s') \<and> st_top s' = ds \<and> stack_inv s'"
    if "stack_inv s" "st_top s = d # ds"
  proof -
    from that have l: "length ds < 2 ^ 31" "st_size s = int (length ds) + 1"
      by (auto simp: stack_inv_def)
    then have "i32 (st_size s - 1) = int (length ds)"
      using i32_id [OF is_i32_nat [OF l(1)]] by simp
    with that l show ?thesis
      by (simp add: stack_pop_def stack_is_empty_def stack_inv_def)
  qed
  show "stack_pop s = Some (None, s)" if "stack_inv s" "st_top s = []"
    using that by (simp add: stack_pop_def stack_is_empty_def stack_inv_def)
qed

lemma stack_destroy_elems: "stack_inv s \<Longrightarrow> stack_destroy s = Some (st_top s)"
proof (induction "st_top s" arbitrary: s)
  case Nil
  then show ?case by (simp add: stack_destroy.simps [of s] stk.is_empty_iff)
next
  case (Cons d ds)
  from stk.pop_ne [OF Cons.prems Cons.hyps(2) [symmetric]] obtain s' where
    s': "stack_pop s = Some (Some d, s')" "st_top s' = ds" "stack_inv s'" by blast
  from Cons.hyps(1) [of s'] s' have "stack_destroy s' = Some ds" by simp
  moreover have "\<not> stack_is_empty s"
    using Cons.hyps(2) Cons.prems stk.is_empty_iff by (metis list.distinct(1))
  ultimately show ?case
    using s' Cons.hyps(2) by (simp add: stack_destroy.simps [of s])
qed

text \<open>
  The stack is last-in first-out: whatever is pushed (within the range of the counter)
  comes back in reverse order when the stack is emptied, and emptying it terminates.
\<close>

theorem stack_destroy_push_all:
  assumes "length ds \<le> 2 ^ 31 - 1"
  shows "stack_destroy (foldl stack_push stack_create ds) = Some (rev ds)"
  using stk.push_all [OF stk.inv_empty, of ds] assms
  by (simp add: stack_destroy_elems stk.elems_empty)

theorem stack_destroy_push_all_witness:
  "stack_destroy (foldl stack_push stack_create [1, 2, 3 :: nat]) = Some [3, 2, 1]"
  using stack_destroy_push_all [of "[1, 2, 3 :: nat]"] by simp

end
