(* ===== verification/FileScan.thy ===== *)
theory FileScan
  imports CStack LinkState Http "HOL-Library.Multiset"
begin

text \<open>
  \<open>main.c\<close>: \<open>folder_monitor\<close> and \<open>list_files\<close>, which walk the content directory every ten
  seconds with a stack of directories and enter new files in the table of known files.
  A file system is what \<open>opendir\<close> and \<open>readdir\<close> return: for a path that is a directory the
  list of its entries (whether the entry is a directory, and its name), \<open>None\<close> when
  \<open>opendir\<close> fails. \<open>block p\<close> is what the memory held that \<open>malloc\<close> returned for the key \<open>p\<close>.
\<close>

type_synonym dir_entry = "bool \<times> string"
type_synonym file_system = "string \<Rightarrow> dir_entry list option"

text \<open>The body of the loop over the entries of one directory.\<close>

definition full_path :: "string \<Rightarrow> string \<Rightarrow> string" where
  "full_path current_path d_name = current_path @ ''/'' @ d_name"

definition new_file :: "string \<Rightarrow> string \<Rightarrow> file_info" where
  "new_file uuid path =
     \<lparr>fi_path = path, fi_peers = Some (add_holder uuid (hash_table_create MAX_HASHTABLE_SIZE))\<rparr>"

fun scan_entry :: "(string \<Rightarrow> string) \<Rightarrow> string \<Rightarrow> string \<Rightarrow> dir_entry \<Rightarrow>
  string cstack \<Rightarrow> file_info hash_table \<Rightarrow> (string cstack \<times> file_info hash_table) option" where
  "scan_entry block uuid current_path (is_dir, d_name) dir_stack files =
     (if is_dir then
        (if d_name = ''.'' \<or> d_name = ''..'' \<or> d_name = ''.DS_Store'' then Some (dir_stack, files)
         else do {
           fp1 \<leftarrow> sprintf_buf 256 (full_path current_path d_name);
           Some (stack_push dir_stack fp1, files)
         })
      else if d_name = ''.DS_Store'' then Some (dir_stack, files)
      else do {
        fp2 \<leftarrow> sprintf_buf 256 (full_path current_path d_name);
        case hash_table_get files (key_mem fp2) (length fp2) of
          Some _ \<Rightarrow> Some (dir_stack, files)
        | None \<Rightarrow> do {
            f_path \<leftarrow> sprintf_buf 256 fp2;
            files' \<leftarrow> hash_table_put_str files (key_mem f_path) (new_file uuid f_path)
              (length f_path) (block f_path);
            Some (dir_stack, files')
          }
      })"

fun scan_dir :: "(string \<Rightarrow> string) \<Rightarrow> string \<Rightarrow> string \<Rightarrow> dir_entry list \<Rightarrow>
  string cstack \<Rightarrow> file_info hash_table \<Rightarrow> (string cstack \<times> file_info hash_table) option" where
  "scan_dir block uuid current_path [] dir_stack files = Some (dir_stack, files)"
| "scan_dir block uuid current_path (e # es) dir_stack files = do {
     (dir_stack, files) \<leftarrow> scan_entry block uuid current_path e dir_stack files;
     scan_dir block uuid current_path es dir_stack files
   }"

text \<open>The program exits when a directory cannot be opened.\<close>

datatype scan_result = Scanned "file_info hash_table" | Exit_Failure

text \<open>
  The loop over the stack. It ends for every file system, also for one whose directories form
  a cycle: each path pushed is longer than the one popped, and none may reach 256 characters.
\<close>

lemma scan_entry_stack:
  assumes "scan_entry block uuid cur e st files = Some (st', files')"
  shows "\<exists>ps. st_top st' = ps @ st_top st \<and> (\<forall>p\<in>set ps. length cur < length p \<and> length p < 256)"
proof -
  obtain b n where "e = (b, n)" by fastforce
  with assms show ?thesis
    by (auto simp: bind_Some_iff stack_push_def full_path_def split: if_splits option.splits
      intro: exI [of _ "[]"] exI [of _ "[full_path cur n]"])
qed

lemma scan_dir_stack:
  "scan_dir block uuid cur es st files = Some (st', files') \<Longrightarrow>
    \<exists>ps. st_top st' = ps @ st_top st \<and> (\<forall>p\<in>set ps. length cur < length p \<and> length p < 256)"
proof (induction es arbitrary: st files)
  case (Cons e es)
  then obtain st1 files1 where 1: "scan_entry block uuid cur e st files = Some (st1, files1)"
    "scan_dir block uuid cur es st1 files1 = Some (st', files')"
    by (auto simp: bind_Some_iff)
  from scan_entry_stack [OF 1(1)] Cons.IH [OF 1(2)] show ?case
    by (metis Un_iff append.assoc set_append)
qed simp

definition stack_weight :: "string cstack \<Rightarrow> nat multiset" where
  "stack_weight st = image_mset (\<lambda>p. 256 - length p) (mset (st_top st))"

lemma stack_weight_less:
  assumes "stack_pop st = Some (Some cur, st1)" "scan_dir block uuid cur es st1 files = Some (st2, files2)"
  shows "(stack_weight st2, stack_weight st) \<in> mult less_than"
proof -
  from assms(1) have st: "st_top st = cur # st_top st1"
    by (auto simp: stack_pop_def split: if_splits list.splits)
  obtain ps where ps: "st_top st2 = ps @ st_top st1" "\<forall>p\<in>set ps. length cur < length p \<and> length p < 256"
    using scan_dir_stack [OF assms(2)] by blast
  let ?I = "stack_weight st1" and ?J = "{#256 - length cur#}"
    and ?K = "image_mset (\<lambda>p. 256 - length p) (mset ps)"
  have "\<forall>k\<in>#?K. \<exists>j\<in>#?J. (k, j) \<in> less_than" using ps(2) by auto
  then have "(?I + ?K, ?I + ?J) \<in> mult less_than" by (intro one_step_implies_mult) simp_all
  then show ?thesis by (simp add: stack_weight_def st ps(1) add.commute)
qed

function list_files_loop :: "file_system \<Rightarrow> (string \<Rightarrow> string) \<Rightarrow> string \<Rightarrow>
  string cstack \<Rightarrow> file_info hash_table \<Rightarrow> scan_result option" where
  "list_files_loop dirs block uuid dir_stack files =
     (if stack_is_empty dir_stack then Some (Scanned files)
      else case stack_pop dir_stack of
        Some (Some current_path, dir_stack') \<Rightarrow>
          (case dirs current_path of
             None \<Rightarrow> Some Exit_Failure
           | Some entries \<Rightarrow>
               (case scan_dir block uuid current_path entries dir_stack' files of
                  None \<Rightarrow> None
                | Some (dir_stack'', files') \<Rightarrow>
                    list_files_loop dirs block uuid dir_stack'' files'))
      | _ \<Rightarrow> None)"
  by pat_completeness auto
termination
  by (relation "inv_image (mult less_than) (\<lambda>(_, _, _, st, _). stack_weight st)")
    (auto intro: wf_mult stack_weight_less)

declare list_files_loop.simps [simp del]

definition list_files :: "file_system \<Rightarrow> (string \<Rightarrow> string) \<Rightarrow> string \<Rightarrow> string \<Rightarrow>
  file_info hash_table \<Rightarrow> scan_result option" where
  "list_files dirs block uuid path files =
     list_files_loop dirs block uuid (stack_push stack_create path) files"

text \<open>
  \<open>folder_monitor\<close>: one round for each state of the file system that a round finds (the
  rounds are ten seconds apart and never end; a list is any finite prefix). \<open>fds\<close> is the number
  of descriptors left to this thread: \<open>opendir\<close> fails when there is none. The first \<open>opendir\<close> of
  a round is never closed; \<open>list_files\<close> closes each directory before it opens the next, so that
  it needs one descriptor more for a moment. The result holds the table and what \<open>print_keys\<close>
  printed; \<open>None\<close> inside is the exit of the program.
\<close>

fun folder_monitor :: "nat \<Rightarrow> file_system list \<Rightarrow> (string \<Rightarrow> string) \<Rightarrow> string \<Rightarrow> file_info hash_table \<Rightarrow>
  (file_info hash_table \<times> string) option option" where
  "folder_monitor fds [] block uuid files1 = Some (Some (files1, []))"
| "folder_monitor fds (dirs # rounds) block uuid files1 =
     (if fds = 0 \<or> dirs ''content'' = None then Some None
      else do {
        let fds = fds - 1;
        scanned \<leftarrow> list_files (if fds = 0 then (\<lambda>_. None) else dirs) block uuid ''content'' files1;
        case scanned of
          Exit_Failure \<Rightarrow> Some None
        | Scanned files2 \<Rightarrow> do {
            keys \<leftarrow> print_keys files2;
            rest \<leftarrow> folder_monitor fds rounds block uuid files2;
            Some (map_option (\<lambda>(files3, out). (files3, keys @ [LF] @ out)) rest)
          }
      })"

subsection \<open>What a scan finds\<close>

text \<open>
  The tree of a directory, in the order of \<open>readdir\<close>. Directories that the scan does not enter
  (\<open>.\<close>, \<open>..\<close>, \<open>.DS_Store\<close>) are \<open>hidden\<close>.
\<close>

datatype ftree = File string | Folder string "ftree list"

definition hidden :: "string \<Rightarrow> bool" where
  "hidden n \<longleftrightarrow> n \<in> {''.'', ''..'', ''.DS_Store''}"

fun entry_of :: "ftree \<Rightarrow> dir_entry" where
  "entry_of (File n) = (False, n)"
| "entry_of (Folder n ts) = (True, n)"

fun on_disk :: "file_system \<Rightarrow> string \<Rightarrow> ftree \<Rightarrow> bool" where
  "on_disk dirs p (File n) \<longleftrightarrow> True"
| "on_disk dirs p (Folder n ts) \<longleftrightarrow> hidden n \<or>
     dirs (full_path p n) = Some (map entry_of ts) \<and> (\<forall>t\<in>set ts. on_disk dirs (full_path p n) t)"

definition mounted :: "file_system \<Rightarrow> string \<Rightarrow> ftree list \<Rightarrow> bool" where
  "mounted dirs p ts \<longleftrightarrow> dirs p = Some (map entry_of ts) \<and> (\<forall>t\<in>set ts. on_disk dirs p t)"

fun tree_files :: "string \<Rightarrow> ftree \<Rightarrow> string set" where
  "tree_files p (File n) = (if n = ''.DS_Store'' then {} else {full_path p n})"
| "tree_files p (Folder n ts) =
     (if hidden n then {} else \<Union>t\<in>set ts. tree_files (full_path p n) t)"

fun tree_fits :: "string \<Rightarrow> ftree \<Rightarrow> bool" where
  "tree_fits p (File n) \<longleftrightarrow> length (full_path p n) < 256"
| "tree_fits p (Folder n ts) \<longleftrightarrow> hidden n \<or>
     length (full_path p n) < 256 \<and> (\<forall>t\<in>set ts. tree_fits (full_path p n) t)"

fun tree_dirs :: "ftree \<Rightarrow> nat" where
  "tree_dirs (File n) = 0"
| "tree_dirs (Folder n ts) = (if hidden n then 0 else Suc (\<Sum>t\<leftarrow>ts. tree_dirs t))"

definition files_below :: "string \<Rightarrow> ftree list \<Rightarrow> string set" where
  "files_below p ts = (\<Union>t\<in>set ts. tree_files p t)"

definition dirs_below :: "ftree list \<Rightarrow> nat" where
  "dirs_below ts = (\<Sum>t\<leftarrow>ts. tree_dirs t)"

text \<open>The directories and the files directly in a directory.\<close>

fun subdirs :: "string \<Rightarrow> ftree list \<Rightarrow> (string \<times> ftree list) list" where
  "subdirs p [] = []"
| "subdirs p (File n # ts) = subdirs p ts"
| "subdirs p (Folder n us # ts) = (if hidden n then [] else [(full_path p n, us)]) @ subdirs p ts"

fun dir_files :: "string \<Rightarrow> ftree list \<Rightarrow> string set" where
  "dir_files p [] = {}"
| "dir_files p (File n # ts) = (if n = ''.DS_Store'' then {} else {full_path p n}) \<union> dir_files p ts"
| "dir_files p (Folder n us # ts) = dir_files p ts"

lemma files_below_split:
  "files_below p ts = dir_files p ts \<union> (\<Union>(q, us)\<in>set (subdirs p ts). files_below q us)"
  unfolding files_below_def by (induction p ts rule: subdirs.induct) auto

lemma dirs_below_split:
  "dirs_below ts = (\<Sum>(q, us)\<leftarrow>subdirs p ts. Suc (dirs_below us))"
  unfolding dirs_below_def by (induction p ts rule: subdirs.induct) auto

lemma mounted_subdirs:
  assumes "mounted dirs p ts" "(q, us) \<in> set (subdirs p ts)"
  shows "mounted dirs q us"
proof -
  have "\<forall>t\<in>set ts. on_disk dirs p t \<Longrightarrow> (q, us) \<in> set (subdirs p ts) \<Longrightarrow> mounted dirs q us"
    by (induction p ts rule: subdirs.induct) (auto simp: mounted_def split: if_splits)
  with assms show ?thesis by (simp add: mounted_def)
qed

lemma fits_subdirs:
  "\<forall>t\<in>set ts. tree_fits p t \<Longrightarrow> (q, us) \<in> set (subdirs p ts) \<Longrightarrow> t \<in> set us \<Longrightarrow> tree_fits q t"
  by (induction p ts rule: subdirs.induct) (auto split: if_splits)

subsection \<open>The table after a scan\<close>

definition keys_terminated :: "'v hash_table \<Rightarrow> bool" where
  "keys_terminated ht \<longleftrightarrow> (\<forall>nd\<in>set (ht_nodes ht). NUL \<in> set (node_key nd))"

lemma put_str_terminated:
  assumes "ht_inv K ht" "hash_table_get ht (key_mem k) (length k) = None" "k \<noteq> []" "cstring k"
    and "hash_table_put_str ht (key_mem k) v (length k) block = Some ht'"
  shows "keys_terminated ht' \<longleftrightarrow> keys_terminated ht \<and> NUL \<in> set (drop (length k) block)"
proof -
  let ?i = "ht_index ht (key_mem k) (length k)"
  have n: "key_size (length k) = length k" "take (length k) (key_mem k) = k"
    using assms(3) by (simp_all add: key_size_def key_mem_def)
  have "chain_update (key_mem k) (length k) (\<lambda>_. v) (ht_buckets ht ! ?i) = None"
    using assms(2,3) by (simp add: hash_table_get_def chain_get_None_iff chain_update_None_iff)
  then have ht': "ht' = ht\<lparr>ht_buckets := (ht_buckets ht)[?i :=
      \<lparr>node_key = k @ drop (length k) block, node_value = v\<rparr> # ht_buckets ht ! ?i]\<rparr>"
    using assms(5) n by (auto simp: hash_table_put_str_def Let_def split: if_splits)
  have set: "set (ht_nodes ht') =
      insert \<lparr>node_key = k @ drop (length k) block, node_value = v\<rparr> (set (ht_nodes ht))"
    unfolding ht' by (rule add_node_set) (rule ht_inv_index [OF assms(1)])
  have "NUL \<notin> set k" using assms(4) by (auto simp: cstring_def)
  then show ?thesis by (auto simp: keys_terminated_def set)
qed

lemma print_keys_defined:
  assumes "ht_inv K ht"
  shows "print_keys ht \<noteq> None \<longleftrightarrow> keys_terminated ht"
proof -
  have "concat (map (\<lambda>i. ht_buckets ht ! i) [0..<ht_size ht]) = ht_nodes ht"
    using assms map_nth [of "ht_buckets ht"] by (simp add: ht_nodes_def ht_inv_def)
  moreover have "those (map (\<lambda>nd. map_option (\<lambda>key. ''PRINT KEYS HERE: '' @ key @ [LF])
      (key_cstr (node_key nd))) ns) \<noteq> None \<longleftrightarrow> (\<forall>nd\<in>set ns. NUL \<in> set (node_key nd))"
    for ns :: "'a hash_node list"
    by (induction ns) (auto simp: key_cstr_def)
  ultimately show ?thesis
    by (simp add: print_keys_def keys_terminated_def)
qed

text \<open>New files get an entry with this node as their only holder; known files keep theirs.\<close>

definition add_files :: "string \<Rightarrow> string set \<Rightarrow> (string \<rightharpoonup> file_info) \<Rightarrow> (string \<rightharpoonup> file_info)" where
  "add_files uuid S m = (\<lambda>k. case m k of
     Some f \<Rightarrow> Some f | None \<Rightarrow> if k \<in> S then Some (new_file uuid k) else None)"

lemma add_files_simps [simp]:
  "add_files uuid {} m = m"
  "add_files uuid S (add_files uuid T m) = add_files uuid (T \<union> S) m"
  by (auto simp: add_files_def fun_eq_iff split: option.splits)

lemma add_files_one: "add_files uuid {k} m = (if m k = None then m(k \<mapsto> new_file uuid k) else m)"
  by (auto simp: add_files_def fun_eq_iff split: option.splits)

text \<open>The new keys among \<open>S\<close> whose memory holds no terminator behind them make the table unprintable.\<close>

definition new_terminated :: "(string \<Rightarrow> string) \<Rightarrow> string set \<Rightarrow> (string \<rightharpoonup> file_info) \<Rightarrow> bool" where
  "new_terminated block S m \<longleftrightarrow> (\<forall>k\<in>S. m k = None \<longrightarrow> NUL \<in> set (drop (length k) (block k)))"

lemma new_terminated_empty [simp]: "new_terminated block {} m"
  by (simp add: new_terminated_def)

lemma new_terminated_Un:
  "new_terminated block (S \<union> T) m \<longleftrightarrow> new_terminated block S m \<and> new_terminated block T (add_files u S m)"
  by (auto simp: new_terminated_def add_files_def split: option.splits)

lemma scan_file:
  assumes "n \<noteq> ''.DS_Store''" "length (full_path p n) < 256" "table_key K (full_path p n)"
    and "cstring (full_path p n)" "ht_inv K files"
  shows "\<exists>files'. scan_entry block u p (False, n) st files = Some (st, files') \<and> ht_inv K files' \<and>
    (keys_terminated files' \<longleftrightarrow>
      keys_terminated files \<and> new_terminated block {full_path p n} (table_abs K files)) \<and>
    table_abs K files' = add_files u {full_path p n} (table_abs K files)"
proof -
  let ?k = "full_path p n"
  show ?thesis
  proof (cases "hash_table_get files (key_mem ?k) (length ?k)")
    case None
    obtain files' where f: "hash_table_put_str files (key_mem ?k) (new_file u ?k) (length ?k) (block ?k) =
        Some files'" "ht_inv K files'" "table_abs K files' = (table_abs K files)(?k \<mapsto> new_file u ?k)"
      using put_str_abs [OF assms(5,3)] assms(2) by (metis less_imp_le)
    have "keys_terminated files' \<longleftrightarrow> keys_terminated files \<and> NUL \<in> set (drop (length ?k) (block ?k))"
      by (rule put_str_terminated [OF assms(5) None table_key_ne [OF assms(3)] assms(4) f(1)])
    with None f assms(1,2,3) show ?thesis
      by (auto simp: add_files_one table_abs_def new_terminated_def)
  next
    case (Some f)
    with assms show ?thesis by (auto simp: add_files_one table_abs_def new_terminated_def)
  qed
qed

lemma scan_dir_spec:
  assumes "\<forall>t\<in>set ts. tree_fits p t" "\<forall>k\<in>dir_files p ts. table_key K k \<and> cstring k"
    and "ht_inv K files" "stack_inv st"
    and "length (st_top st) + length (subdirs p ts) < 2 ^ 31"
  shows "\<exists>st' files'. scan_dir block u p (map entry_of ts) st files = Some (st', files') \<and>
    st_top st' = rev (map fst (subdirs p ts)) @ st_top st \<and> stack_inv st' \<and>
    ht_inv K files' \<and>
    (keys_terminated files' \<longleftrightarrow> keys_terminated files \<and> new_terminated block (dir_files p ts) (table_abs K files)) \<and>
    table_abs K files' = add_files u (dir_files p ts) (table_abs K files)"
  using assms
proof (induction p ts arbitrary: st files rule: subdirs.induct)
  case (1 p)
  then show ?case by simp
next
  case (2 p n ts)
  show ?case
  proof (cases "n = ''.DS_Store''")
    case True
    with 2 show ?thesis by simp
  next
    case False
    obtain files1 where 1: "scan_entry block u p (False, n) st files = Some (st, files1)" "ht_inv K files1"
      "keys_terminated files1 \<longleftrightarrow> keys_terminated files \<and> new_terminated block {full_path p n} (table_abs K files)"
      "table_abs K files1 = add_files u {full_path p n} (table_abs K files)"
      using scan_file [OF False, of p K files block u st] 2(2-) False by (auto simp del: scan_entry.simps)
    have d: "dir_files p (File n # ts) = {full_path p n} \<union> dir_files p ts" using False by simp
    from 2(1) [OF _ _ 1(2) 2(5)] 2(2,3,6) False
    obtain st' files' where "scan_dir block u p (map entry_of ts) st files1 = Some (st', files')"
      "st_top st' = rev (map fst (subdirs p ts)) @ st_top st" "stack_inv st'" "ht_inv K files'"
      "keys_terminated files' \<longleftrightarrow> keys_terminated files1 \<and> new_terminated block (dir_files p ts) (table_abs K files1)"
      "table_abs K files' = add_files u (dir_files p ts) (table_abs K files1)"
      by auto
    moreover from this 1(3,4) have "keys_terminated files' \<longleftrightarrow> keys_terminated files \<and>
        new_terminated block ({full_path p n} \<union> dir_files p ts) (table_abs K files)"
      unfolding new_terminated_Un [where u = u] by simp
    ultimately show ?thesis unfolding d using 1 by (auto simp del: scan_entry.simps)
  qed
next
  case (3 p n us ts)
  show ?case
  proof (cases "hidden n")
    case True
    with 3 show ?thesis by (simp add: hidden_def)
  next
    case False
    let ?st = "stack_push st (full_path p n)"
    have st: "stack_inv ?st" "st_top ?st = full_path p n # st_top st"
      using 3(5,6) False by (auto intro!: stk.inv_push simp: stk.elems_push)
    have "scan_entry block u p (True, n) st files = Some (?st, files)"
      using False 3(2) by (simp add: hidden_def)
    moreover have "length (st_top ?st) + length (subdirs p ts) < 2 ^ 31"
      using 3(6) False st(2) by simp
    ultimately show ?thesis
      using 3(1) [OF _ _ 3(4) st(1)] 3(2,3) st(2) False by (simp del: scan_entry.simps)
  qed
qed

text \<open>The loop over the stack, for the directories on it with their trees.\<close>

lemma list_files_loop_spec:
  assumes "(\<Sum>(p, ts)\<leftarrow>zs. Suc (dirs_below ts)) < 2 ^ 31"
    and "\<forall>(p, ts)\<in>set zs. mounted dirs p ts \<and> (\<forall>t\<in>set ts. tree_fits p t) \<and>
      (\<forall>k\<in>files_below p ts. table_key K k \<and> cstring k)"
    and "ht_inv K files" "stack_inv st" "st_top st = map fst zs"
  shows "\<exists>files'. list_files_loop dirs block u st files = Some (Scanned files') \<and>
    ht_inv K files' \<and>
    (keys_terminated files' \<longleftrightarrow> keys_terminated files \<and>
      new_terminated block (\<Union>(p, ts)\<in>set zs. files_below p ts) (table_abs K files)) \<and>
    table_abs K files' = add_files u (\<Union>(p, ts)\<in>set zs. files_below p ts) (table_abs K files)"
  using assms
proof (induction "\<Sum>(p, ts)\<leftarrow>zs. Suc (dirs_below ts)" arbitrary: zs st files rule: less_induct)
  case less
  show ?case
  proof (cases zs)
    case Nil
    with less.prems show ?thesis by (simp add: list_files_loop.simps [of _ _ _ st] stk.is_empty_iff)
  next
    case (Cons z zs')
    obtain p ts where z: "z = (p, ts)" by fastforce
    let ?zs = "rev (subdirs p ts) @ zs'"
    obtain st1 where pop: "stack_pop st = Some (Some p, st1)" "st_top st1 = map fst zs'" "stack_inv st1"
      using stk.pop_ne [OF less.prems(4), of p "map fst zs'"] less.prems(5) Cons z by auto
    have here: "mounted dirs p ts" "\<forall>t\<in>set ts. tree_fits p t" "\<forall>k\<in>files_below p ts. table_key K k \<and> cstring k"
      using less.prems(2) Cons z by auto
    have sum: "(\<Sum>(p, ts)\<leftarrow>?zs. Suc (dirs_below ts)) < (\<Sum>(p, ts)\<leftarrow>zs. Suc (dirs_below ts))"
      using Cons z dirs_below_split [of ts p] by (simp add: rev_map [symmetric] sum_list_rev)
    have len: "length ys \<le> (\<Sum>(p, ts)\<leftarrow>ys. Suc (dirs_below ts))" for ys :: "(string \<times> ftree list) list"
      by (induction ys) auto
    obtain st2 files2 where 2: "scan_dir block u p (map entry_of ts) st1 files = Some (st2, files2)"
      "st_top st2 = map fst ?zs" "stack_inv st2" "ht_inv K files2"
      "keys_terminated files2 \<longleftrightarrow> keys_terminated files \<and> new_terminated block (dir_files p ts) (table_abs K files)"
      "table_abs K files2 = add_files u (dir_files p ts) (table_abs K files)"
      using scan_dir_spec [OF here(2) _ less.prems(3) pop(3), of block u] here(3) pop(2)
        sum less.prems(1) len [of ?zs] files_below_split [of p ts] by (auto simp: rev_map)
    have step: "list_files_loop dirs block u st files = list_files_loop dirs block u st2 files2"
      using less.prems(4,5) Cons z pop(1) here(1) 2(1)
      by (simp add: list_files_loop.simps [of _ _ _ st] stk.is_empty_iff mounted_def)
    have "\<forall>(p, ts)\<in>set ?zs. mounted dirs p ts \<and> (\<forall>t\<in>set ts. tree_fits p t) \<and>
        (\<forall>k\<in>files_below p ts. table_key K k \<and> cstring k)"
      using less.prems(2) Cons here mounted_subdirs [OF here(1)] fits_subdirs [OF here(2)]
        files_below_split [of p ts] by auto
    from less.hyps [OF sum _ this 2(4,3,2)] sum less.prems(1)
    obtain files' where f: "list_files_loop dirs block u st2 files2 = Some (Scanned files')" "ht_inv K files'"
      "keys_terminated files' \<longleftrightarrow> keys_terminated files2 \<and>
        new_terminated block (\<Union>(p, ts)\<in>set ?zs. files_below p ts) (table_abs K files2)"
      "table_abs K files' = add_files u (\<Union>(p, ts)\<in>set ?zs. files_below p ts) (table_abs K files2)"
      by auto
    have un: "(\<Union>(p, ts)\<in>set zs. files_below p ts) =
        dir_files p ts \<union> (\<Union>(p, ts)\<in>set ?zs. files_below p ts)"
      using Cons z files_below_split [of p ts] by auto
    have "keys_terminated files' \<longleftrightarrow> keys_terminated files \<and>
        new_terminated block (\<Union>(p, ts)\<in>set zs. files_below p ts) (table_abs K files)"
      unfolding un new_terminated_Un [where u = u] using f(3) 2(5,6) by simp
    with f step 2(6) show ?thesis unfolding un by auto
  qed
qed

text \<open>The content directory in one round.\<close>

definition round_ok :: "string set \<Rightarrow> file_system \<Rightarrow> ftree list \<Rightarrow> bool" where
  "round_ok K dirs ts \<longleftrightarrow> mounted dirs ''content'' ts \<and> (\<forall>t\<in>set ts. tree_fits ''content'' t) \<and>
     dirs_below ts < 2 ^ 31 - 1 \<and> (\<forall>k\<in>files_below ''content'' ts. table_key K k \<and> cstring k)"

lemma list_files_spec:
  assumes "round_ok K dirs ts" "ht_inv K files"
  shows "\<exists>files'. list_files dirs block u ''content'' files = Some (Scanned files') \<and>
    ht_inv K files' \<and>
    (keys_terminated files' \<longleftrightarrow>
      keys_terminated files \<and> new_terminated block (files_below ''content'' ts) (table_abs K files)) \<and>
    table_abs K files' = add_files u (files_below ''content'' ts) (table_abs K files)"
proof -
  have "stack_inv (stack_push stack_create ''content'')"
    by (intro stk.inv_push stk.inv_empty) (simp add: stk.elems_empty)
  then show ?thesis
    using list_files_loop_spec [of "[(''content'', ts)]" dirs K files
        "stack_push stack_create ''content''" block u] assms
    by (simp add: list_files_def round_ok_def stk.elems_push stk.elems_empty)
qed

lemma opendir_fails: "list_files (\<lambda>_. None) block u ''content'' files = Some Exit_Failure"
proof -
  let ?st = "stack_push stack_create ''content''"
  have inv: "stack_inv ?st" by (intro stk.inv_push stk.inv_empty) (simp add: stk.elems_empty)
  have el: "st_top ?st = [''content'']" by (simp add: stk.elems_push stk.elems_empty)
  obtain st where "stack_pop ?st = Some (Some ''content'', st)"
    using stk.pop_ne [OF inv, of "''content''" "[]"] el by auto
  moreover have "\<not> stack_is_empty ?st" using el by (simp add: stk.is_empty_iff [OF inv])
  ultimately show ?thesis by (simp add: list_files_def list_files_loop.simps)
qed

text \<open>The files found in some round.\<close>

definition files_found :: "(file_system \<times> ftree list) list \<Rightarrow> string set" where
  "files_found rounds = (\<Union>(dirs, ts)\<in>set rounds. files_below ''content'' ts)"

lemma files_found_simps [simp]:
  "files_found [] = {}" "files_found ((dirs, ts) # rounds) = files_below ''content'' ts \<union> files_found rounds"
  by (simp_all add: files_found_def)

lemma folder_monitor_rounds:
  assumes "\<forall>(dirs, ts)\<in>set rounds. round_ok K dirs ts" "ht_inv K files"
  shows "if fds - 1 > 0 \<and> rounds \<noteq> [] \<and> \<not> (keys_terminated files \<and>
      new_terminated block (files_found (take (fds - 1) rounds)) (table_abs K files))
    then folder_monitor fds (map fst rounds) block u files = None
    else if fds - 1 < length rounds then folder_monitor fds (map fst rounds) block u files = Some None
    else \<exists>files' out. folder_monitor fds (map fst rounds) block u files = Some (Some (files', out)) \<and>
      ht_inv K files' \<and> table_abs K files' = add_files u (files_found rounds) (table_abs K files)"
  using assms
proof (induction rounds arbitrary: files fds)
  case (Cons r rounds)
  obtain dirs ts where r: "r = (dirs, ts)" by fastforce
  with Cons.prems(1) have ok: "round_ok K dirs ts" and rest: "\<forall>(dirs, ts)\<in>set rounds. round_ok K dirs ts" by auto
  have c: "dirs ''content'' \<noteq> None" using ok by (auto simp: round_ok_def mounted_def)
  consider "fds = 0" | "fds = 1" | g where "fds = Suc (Suc g)" by (metis One_nat_def not0_implies_Suc)
  then show ?case
  proof cases
    case (3 g)
    obtain files2 where 2: "list_files dirs block u ''content'' files = Some (Scanned files2)" "ht_inv K files2"
      "keys_terminated files2 \<longleftrightarrow>
        keys_terminated files \<and> new_terminated block (files_below ''content'' ts) (table_abs K files)"
      "table_abs K files2 = add_files u (files_below ''content'' ts) (table_abs K files)"
      using list_files_spec [OF ok Cons.prems(2)] by blast
    have run: "folder_monitor fds (map fst (r # rounds)) block u files = do {
        keys \<leftarrow> print_keys files2;
        rest \<leftarrow> folder_monitor (Suc g) (map fst rounds) block u files2;
        Some (map_option (\<lambda>(files3, out). (files3, keys @ [LF] @ out)) rest) }"
      using 2(1) r c by (simp add: 3 del: not_None_eq)
    have found: "new_terminated block (files_found (take (fds - 1) (r # rounds))) (table_abs K files) \<longleftrightarrow>
        new_terminated block (files_below ''content'' ts) (table_abs K files) \<and>
        new_terminated block (files_found (take g rounds)) (table_abs K files2)"
      by (simp add: 3 r 2(4) new_terminated_Un [where u = u])
    show ?thesis
    proof (cases "keys_terminated files2")
      case False
      then have "print_keys files2 = None" using print_keys_defined [OF 2(2)] by auto
      with run False found 2(3) 3 show ?thesis by auto
    next
      case True
      then obtain keys where "print_keys files2 = Some keys" using print_keys_defined [OF 2(2)] by auto
      with Cons.IH [OF rest 2(2), of "Suc g"] True run found 2(3,4) 3 r show ?thesis
        by (cases "g = 0 \<or> rounds = []") (auto split: if_splits)
    qed
  qed (use r c in \<open>simp_all add: opendir_fails\<close>)
qed simp

text \<open>
  C15. What the folder monitor does in any number of rounds, with fds descriptors left to it, on
  any contents of the directory that can be read and whose paths fit 256 bytes, none of them a
  prefix of another. A round can be made as long as two descriptors are left, and uses up one:
  the next round ends the program. The rounds before it are defined exactly when none was made
  or every key is terminated: the memory malloc returned for the key of each new file must hold
  a NUL behind the key, because the key is copied without one and print_keys reads it as a
  string. The files known then are those known before and every file that was in the content
  directory (at any depth) in some round. A file known before, also one known from an
  advertisement only, keeps its entry, so this node does not become one of its holders; each
  other file has this node as its holder, and a file that was removed stays known.
\<close>

theorem folder_monitor_files:
  assumes "\<forall>(dirs, ts)\<in>set rounds. round_ok K dirs ts" "ht_inv K files"
  shows "if fds - 1 > 0 \<and> rounds \<noteq> [] \<and> \<not> (keys_terminated files \<and>
      (\<forall>k\<in>files_found (take (fds - 1) rounds). table_abs K files k = None \<longrightarrow> NUL \<in> set (drop (length k) (block k))))
    then folder_monitor fds (map fst rounds) block u files = None
    else if fds - 1 < length rounds then folder_monitor fds (map fst rounds) block u files = Some None
    else \<exists>files' out. folder_monitor fds (map fst rounds) block u files = Some (Some (files', out)) \<and>
      ht_inv K files' \<and>
      (\<forall>k. table_abs K files' k = (case table_abs K files k of
         Some f \<Rightarrow> Some f
       | None \<Rightarrow> if k \<in> files_found rounds then Some (new_file u k) else None))"
  using folder_monitor_rounds [OF assms] unfolding new_terminated_def add_files_def fun_eq_iff .

definition sample_fs :: file_system where
  "sample_fs p =
     (if p = ''content'' then Some [(True, ''.''), (True, ''v'')]
      else if p = ''content/v'' then Some [(False, ''a.ogg'')] else None)"

lemma folder_monitor_files_witness:
  "(\<exists>files' out. folder_monitor 3 [sample_fs, sample_fs] (\<lambda>_. replicate 256 NUL) ''uuid''
      (hash_table_create MAX_HASHTABLE_SIZE) = Some (Some (files', out)) \<and>
    hash_table_get files' (key_mem ''content/v/a.ogg'') 15 = Some (new_file ''uuid'' ''content/v/a.ogg'')) \<and>
   folder_monitor 2 [sample_fs, sample_fs] (\<lambda>_. replicate 256 NUL) ''uuid''
      (hash_table_create MAX_HASHTABLE_SIZE) = Some None \<and>
   folder_monitor 3 [sample_fs, sample_fs] (\<lambda>_. replicate 256 CHR ''x'') ''uuid''
      (hash_table_create MAX_HASHTABLE_SIZE) = None"
proof -
  let ?ts = "[Folder ''.'' [], Folder ''v'' [File ''a.ogg'']]" and ?k = "''content/v/a.ogg''"
  let ?ht = "hash_table_create MAX_HASHTABLE_SIZE :: file_info hash_table"
  let ?rounds = "[(sample_fs, ?ts), (sample_fs, ?ts)]"
  have k: "table_key {?k} ?k" by (simp add: table_key_def prefix_free_def)
  have ok: "\<forall>(dirs, ts)\<in>set ?rounds. round_ok {?k} dirs ts"
    using k by (simp add: round_ok_def mounted_def sample_fs_def hidden_def full_path_def dirs_below_def
        files_below_def cstring_def)
  have t0: "keys_terminated ?ht"
    by (auto simp: keys_terminated_def ht_nodes_def hash_table_create_def)
  have f: "files_below ''content'' ?ts = {?k}" by (simp add: files_below_def hidden_def full_path_def)
  have e: "table_abs {?k} ?ht ?k = None"
    using ht.get_empty [OF k] unfolding table_abs_get [OF k] .
  have m: "map fst ?rounds = [sample_fs, sample_fs]" by simp
  have found: "files_found ?rounds = {?k}" "files_found (take (3 - 1) ?rounds) = {?k}"
    "files_found (take (2 - 1) ?rounds) = {?k}"
    by (simp_all add: f)
  have nul: "NUL \<in> set (drop (length ?k) (replicate 256 NUL))" "NUL \<notin> set (drop (length ?k) (replicate 256 CHR ''x''))"
    by simp_all
  have 3: "\<not> (0 < 3 - (1 :: nat) \<and> ?rounds \<noteq> [] \<and> \<not> (keys_terminated ?ht \<and> (\<forall>k\<in>files_found (take (3 - 1) ?rounds).
      table_abs {?k} ?ht k = None \<longrightarrow> NUL \<in> set (drop (length k) (replicate 256 NUL)))))"
    "\<not> 3 - 1 < length ?rounds"
    using t0 nul(1) unfolding found by simp_all
  obtain files' out where r: "folder_monitor 3 [sample_fs, sample_fs] (\<lambda>_. replicate 256 NUL) ''uuid'' ?ht =
      Some (Some (files', out))" "\<forall>k. table_abs {?k} files' k = (case table_abs {?k} ?ht k of
         Some f \<Rightarrow> Some f
       | None \<Rightarrow> if k \<in> files_found ?rounds then Some (new_file ''uuid'' k) else None)"
    using folder_monitor_files [OF ok ht.inv_empty, of 3 "\<lambda>_. replicate 256 NUL" "''uuid''",
        unfolded if_not_P [OF 3(1)] if_not_P [OF 3(2)] m] by blast
  then have "table_abs {?k} files' ?k = Some (new_file ''uuid'' ?k)"
    using e found(1) by simp
  moreover have "hash_table_get files' (key_mem ?k) 15 = table_abs {?k} files' ?k"
    using table_abs_get [OF k, of files'] by (simp add: numeral_eq_Suc)
  moreover have "folder_monitor 2 [sample_fs, sample_fs] (\<lambda>_. replicate 256 NUL) ''uuid'' ?ht = Some None"
  proof -
    have 2: "\<not> (0 < 2 - (1 :: nat) \<and> ?rounds \<noteq> [] \<and> \<not> (keys_terminated ?ht \<and> (\<forall>k\<in>files_found (take (2 - 1) ?rounds).
        table_abs {?k} ?ht k = None \<longrightarrow> NUL \<in> set (drop (length k) (replicate 256 NUL)))))"
      "2 - 1 < length ?rounds"
      using t0 nul(1) unfolding found by simp_all
    show ?thesis
      using folder_monitor_files [OF ok ht.inv_empty, of 2 "\<lambda>_. replicate 256 NUL" "''uuid''",
        unfolded if_not_P [OF 2(1)] if_P [OF 2(2)] m] .
  qed
  moreover have "folder_monitor 3 [sample_fs, sample_fs] (\<lambda>_. replicate 256 CHR ''x'') ''uuid'' ?ht = None"
  proof -
    have 4: "0 < 3 - (1 :: nat) \<and> ?rounds \<noteq> [] \<and> \<not> (keys_terminated ?ht \<and> (\<forall>k\<in>files_found (take (3 - 1) ?rounds).
        table_abs {?k} ?ht k = None \<longrightarrow> NUL \<in> set (drop (length k) (replicate 256 CHR ''x''))))"
      using e nul(2) unfolding found by simp
    show ?thesis
      using folder_monitor_files [OF ok ht.inv_empty, of 3 "\<lambda>_. replicate 256 CHR ''x''" "''uuid''",
        unfolded if_P [OF 4] m] .
  qed
  ultimately show ?thesis using r(1) by simp
qed

end
