(* ===== verification/Startup.thy ===== *)
theory Startup
  imports CString
begin

text \<open>
  How the servers of this repository get their listening socket: the walk over the addresses
  of \<open>getaddrinfo\<close> in \<open>main\<close> of \<open>src/hw1/src/main.c\<close>, which the
  programs of the later stages repeat. What the system calls give is a parameter. The programs
  differ in one point: hw1 and hw2 exit when \<open>setsockopt\<close>, \<open>listen\<close> or \<open>sigaction\<close> fail
  (\<open>strict\<close>), hw3 and hw4 only print a message.
\<close>

text \<open>One address: \<open>socket\<close> fails, or it gives a socket on which \<open>setsockopt\<close> and \<open>bind\<close> succeed or not.\<close>

datatype addr_outcome = SocketFails | SocketOk (reuse: bool) (binds: bool)

text \<open>\<open>Inl\<close> the exit status, or the position of the address that is bound, if any.\<close>

fun bind_first :: "bool \<Rightarrow> nat \<Rightarrow> addr_outcome list \<Rightarrow> int + nat option" where
  "bind_first strict i [] = Inr None"
| "bind_first strict i (SocketFails # p) = bind_first strict (i + 1) p"
| "bind_first strict i (SocketOk r b # p) =
     (if strict \<and> \<not> r then Inl 1
      else if \<not> b then bind_first strict (i + 1) p
      else Inr (Some i))"

record startup =
  su_getaddrinfo :: "string \<Rightarrow> addr_outcome list option"
  su_listen :: bool
  su_sigaction :: bool
  su_threads :: bool

definition port_ok :: "string \<Rightarrow> bool" where
  "port_ok port \<longleftrightarrow> (let port_int = atoi port in \<not> (port_int < 0 \<or> 65535 < port_int))"

text \<open>From \<open>getaddrinfo\<close> to \<open>sigaction\<close>: \<open>Inl\<close> the status the program ends with, or the address it listens on.\<close>

definition open_listener :: "bool \<Rightarrow> startup \<Rightarrow> string \<Rightarrow> int + nat" where
  "open_listener strict su port =
     (case su_getaddrinfo su port of
        None \<Rightarrow> Inl 1
      | Some servinfo \<Rightarrow>
          (case bind_first strict 0 servinfo of
             Inl status \<Rightarrow> Inl status
           | Inr None \<Rightarrow> Inl 2
           | Inr (Some p) \<Rightarrow>
               if strict \<and> \<not> su_listen su then Inl 1
               else if strict \<and> \<not> su_sigaction su then Inl 1
               else Inr p))"

subsection \<open>The address that is bound\<close>

text \<open>Addresses that fail before the first that binds do not matter; without one the status is 2.\<close>

definition skipped :: "bool \<Rightarrow> addr_outcome \<Rightarrow> bool" where
  "skipped strict a \<longleftrightarrow> (case a of SocketFails \<Rightarrow> True | SocketOk r b \<Rightarrow> (strict \<longrightarrow> r) \<and> \<not> b)"

lemma bind_first_skip:
  "\<forall>a\<in>set as. skipped strict a \<Longrightarrow> bind_first strict i (as @ p) = bind_first strict (i + length as) p"
  by (induction as arbitrary: i) (auto simp: skipped_def split: addr_outcome.splits)

lemma open_listener_binds:
  assumes "su_getaddrinfo su port = Some (as @ SocketOk True True # p)" "\<forall>a\<in>set as. skipped strict a"
    and "su_listen su" "su_sigaction su"
  shows "open_listener strict su port = Inr (length as)"
  using assms by (simp add: open_listener_def bind_first_skip)

lemma open_listener_none:
  assumes "su_getaddrinfo su port = Some as" "\<forall>a\<in>set as. skipped strict a"
  shows "open_listener strict su port = Inl 2"
  using assms bind_first_skip [of as strict 0 "[]"] by (simp add: open_listener_def)

text \<open>Whatever address is bound is one of those \<open>getaddrinfo\<close> gave, and every one before it failed.\<close>

lemma bind_first_Inr:
  "bind_first strict i as = Inr (Some j) \<Longrightarrow>
    i \<le> j \<and> j - i < length as \<and> binds (as ! (j - i)) \<and> (\<forall>k < j - i. skipped strict (as ! k))"
proof (induction strict i as rule: bind_first.induct)
  case (2 strict i p)
  then have h: "i + 1 \<le> j" "j - (i + 1) < length p" "binds (p ! (j - (i + 1)))"
    "\<forall>k < j - (i + 1). skipped strict (p ! k)" by auto
  then show ?case
    by (auto simp: nth_Cons skipped_def split: nat.splits) (metis Suc_diff_Suc Suc_le_eq diff_Suc_1 less_Suc_eq_0_disj)+
next
  case (3 strict i r b p)
  show ?case
  proof (cases b)
    case False
    with 3 have r: "strict \<longrightarrow> r" and h: "i + 1 \<le> j" "j - (i + 1) < length p" "binds (p ! (j - (i + 1)))"
      "\<forall>k < j - (i + 1). skipped strict (p ! k)" by (auto split: if_splits)
    with False show ?thesis
      by (auto simp: nth_Cons skipped_def split: nat.splits) (metis Suc_diff_Suc Suc_le_eq diff_Suc_1 less_Suc_eq_0_disj)+
  qed (use 3 in \<open>auto split: if_splits\<close>)
qed simp

end
