(* ===== verification/Server.thy ===== *)
theory Server
  imports PeerApi FileScan Startup
begin

text \<open>
  \<open>main.c\<close>: start-up, the dispatch of a TCP request (\<open>child_routine\<close>), the handler of
  link-state advertisements and the thread that sends them (\<open>check_peer_status\<close>). Requests are
  handled one at a time.
\<close>

subsection \<open>Start-up\<close>

text \<open>The checks of the arguments: the exit code, or \<open>None\<close> when the program goes on.\<close>

definition check_args :: "string list \<Rightarrow> int option" where
  "check_args argv =
     (if int (length argv) < 3 then Some 1
      else let port_int = atoi (argv ! 1)
           in if port_int < 0 \<or> 65535 < port_int then Some 1 else None)"

text \<open>
  The global state that \<open>main\<close> sets up before it accepts connections. What \<open>read_config_file\<close>
  returns is ignored.
\<close>

definition init_node :: "string option \<Rightarrow> node option" where
  "init_node node_conf = do {
     let ht_filepaths = hash_table_create MAX_HASHTABLE_SIZE;
     let network_map = hash_table_create MAX_HASHTABLE_SIZE;
     (_, global_config) \<leftarrow> read_config_file node_conf global_config_init;
     host \<leftarrow> strcpy_buf NAME_SIZE ''localhost'';
     let global_config = global_config\<lparr>nc_host := host\<rparr>;
     let network_map = hash_table_put network_map (key_mem (nc_uuid global_config)) Self
       (length (nc_uuid global_config));
     Some \<lparr>nd_config = global_config, nd_network_map = network_map, nd_filepaths = ht_filepaths,
       nd_sockets_map = hashmap_new, nd_peers = peer_table_init, nd_rate_limit = 0\<rparr> }"

text \<open>
  \<open>main\<close> up to its loop over \<open>accept\<close>. It ends with a status when the arguments are wrong, no
  address can be bound or a thread cannot be created; otherwise it goes on with the node and
  the address it listens on. A failure of \<open>setsockopt\<close>, \<open>listen\<close> or \<open>sigaction\<close> is only printed.
\<close>

definition node_start :: "startup \<Rightarrow> string option \<Rightarrow> string list \<Rightarrow> (int + nat \<times> node) option" where
  "node_start su node_conf argv =
     (case check_args argv of
        Some status \<Rightarrow> Some (Inl status)
      | None \<Rightarrow> do {
          nd \<leftarrow> init_node node_conf;
          Some (case open_listener False su (argv ! 1) of
              Inl status \<Rightarrow> Inl status
            | Inr p \<Rightarrow> if su_threads su then Inr (p, nd) else Inl 1) })"

lemma node_start_listens:
  assumes "check_args argv = None" "init_node node_conf = Some nd"
    and "su_getaddrinfo su (argv ! 1) = Some (as @ SocketOk r True # p)" "\<forall>a\<in>set as. skipped False a"
    and "su_threads su"
  shows "node_start su node_conf argv = Some (Inr (length as, nd))"
  using assms by (simp add: node_start_def open_listener_def bind_first_skip)

subsection \<open>Advertisements\<close>

text \<open>
  What the handler takes from outside: the environment of the API, the two strings of
  \<open>strftime\<close>, the address of \<open>getpeername\<close> (\<open>None\<close> when it fails), and what memory held: the
  configuration \<open>malloc\<close> returned, the stack where the path of a file was, the key blocks.
\<close>

record server_env =
  sv_api :: api_env
  sv_last_seen :: string
  sv_now :: string
  sv_peer_ip :: "string option"
  sv_config_junk :: node_config
  sv_dead_path :: string
  sv_ad_blocks :: "nat \<Rightarrow> string"
  sv_file_blocks :: "nat \<Rightarrow> string"

definition link_state_post :: "server_env \<Rightarrow> string \<Rightarrow> int \<Rightarrow> node \<Rightarrow> api_result option" where
  "link_state_post env body connect_fd nd = do {
     parsed \<leftarrow> json_to_node_config (sv_config_junk env) body;
     case parsed of
       None \<Rightarrow> Some (answer nd [])
     | Some peer_config \<Rightarrow> do {
         peers_files_map \<leftarrow> json_to_files_map (sv_ad_blocks env) body;
         ht_filepaths \<leftarrow> update_peer_to_files_map (sv_dead_path env) (sv_file_blocks env)
           (nd_filepaths nd) peers_files_map peer_config;
         last_seen \<leftarrow> strcpy_buf UUID_SIZE (sv_last_seen env);
         let peer_config = peer_config\<lparr>nc_last_seen := last_seen\<rparr>;
         case sv_peer_ip env of
           None \<Rightarrow> Some Killed
         | Some ip_str \<Rightarrow> do {
             host \<leftarrow> strcpy_buf NAME_SIZE ip_str;
             let peer_config = peer_config\<lparr>nc_host := host\<rparr>;
             reply \<leftarrow> node_config_to_json (nd_config nd) False None;
             acts \<leftarrow> send_str (ae_date (sv_api env)) connect_fd (Some reply);
             let uuid = nc_uuid peer_config;
             let network_map = update_network_map (nd_network_map nd) uuid (Other peer_config);
             let network_map = hash_table_update_node_config network_map uuid (Other peer_config)
               (length uuid);
             ht \<leftarrow> node_config_to_hashmap peer_config 0;
             global_config \<leftarrow> update_peer_weights_last_seen (sv_now env) (nd_config nd) ht peer_config;
             _ \<leftarrow> node_config_to_json global_config True (Some ht_filepaths);
             Some (answer (nd\<lparr>nd_config := global_config, nd_network_map := network_map,
               nd_filepaths := ht_filepaths\<rparr>) acts) } } }"

text \<open>The request that \<open>check_peer_status\<close> sends to a peer, in its buffer of 4096 bytes.\<close>

definition link_state_request :: "node_config \<Rightarrow> peer_info \<Rightarrow> file_info hash_table \<Rightarrow> string option" where
  "link_state_request config peer ht_filepaths = do {
     json_data \<leftarrow> node_config_to_json config True (Some ht_filepaths);
     sprintf_buf 4096
       (''POST /link-state HTTP/1.1'' @ crlf @
        ''Host: '' @ pi_host peer @ '':'' @ show_int (pi_frontend_port peer) @ crlf @
        ''Content-Type: application/json'' @ crlf @
        ''Content-Length: '' @ show_int (i32 (int (length json_data))) @ crlf @ crlf @ json_data) }"

text \<open>
  One round of \<open>check_peer_status\<close>: for each peer that resolves and accepts a connection the
  host, the port and the request sent. The test whether a peer is the node itself only prints.
\<close>

definition check_peer :: "(string \<Rightarrow> int \<Rightarrow> bool) \<Rightarrow> (string \<Rightarrow> int \<Rightarrow> bool) \<Rightarrow> node_config \<Rightarrow>
  file_info hash_table \<Rightarrow> int \<Rightarrow> (string \<times> int \<times> string) list option" where
  "check_peer resolves connects config ht_filepaths i = do {
     peer \<leftarrow> peer_at config i;
     if \<not> resolves (pi_host peer) (pi_frontend_port peer) then Some []
     else if \<not> connects (pi_host peer) (pi_frontend_port peer) then Some []
     else do {
       request \<leftarrow> link_state_request config peer ht_filepaths;
       Some [(pi_host peer, pi_frontend_port peer, request)] } }"

definition check_peer_status :: "(string \<Rightarrow> int \<Rightarrow> bool) \<Rightarrow> (string \<Rightarrow> int \<Rightarrow> bool) \<Rightarrow> node_config \<Rightarrow>
  file_info hash_table \<Rightarrow> (string \<times> int \<times> string) list option" where
  "check_peer_status resolves connects config ht_filepaths =
     map_option concat
       (those (map (check_peer resolves connects config ht_filepaths) [0..nc_peer_count config - 1]))"

subsection \<open>Requests\<close>

text \<open>\<open>sizeof(buffer)\<close> of \<open>child_routine\<close>: \<open>recv\<close> may fill it, and the terminator then goes past it.\<close>

definition RECV_SIZE :: nat where
  "RECV_SIZE = 16385"

definition post_request :: "server_env \<Rightarrow> string \<Rightarrow> string \<Rightarrow> int \<Rightarrow> node \<Rightarrow> api_result option" where
  "post_request env path buffer connect_fd nd =
     (case strstr buffer (crlf @ crlf) of
        None \<Rightarrow> Some (answer nd [])
      | Some body_start \<Rightarrow>
          let body = drop 4 body_start
          in if path = ''/link-state'' then link_state_post env body connect_fd nd
             else Some (answer nd []))"

text \<open>\<open>received\<close> is what \<open>recv\<close> gives, \<open>None\<close> for -1; a closed connection gives no bytes.\<close>

definition child_routine :: "server_env \<Rightarrow> string option \<Rightarrow> int \<Rightarrow> node \<Rightarrow> api_result option" where
  "child_routine env received connect_fd nd =
     (let bytes = (case received of None \<Rightarrow> [] | Some bytes \<Rightarrow> bytes) in
      if bytes = [] then Some (answer nd [CloseFd connect_fd])
      else if RECV_SIZE \<le> length bytes then None
      else let buffer = c_str bytes; (method, path, version) = process_startline buffer in
      case path of
        None \<Rightarrow> None
      | Some path \<Rightarrow> do {
          path_peer_copy \<leftarrow> strncpy_buf 100 path;
          if path = ''/'' then
            map_option (answer nd) (send_http_302 (ae_date (sv_api env)) connect_fd)
          else if 1 < length path_peer_copy \<and> method = Some ''GET'' then
            process_peer_path (sv_api env) path_peer_copy connect_fd buffer nd
          else if method = Some ''POST'' then post_request env path buffer connect_fd nd
          else Some (answer nd []) })"

subsection \<open>Accepted connections\<close>

definition MAX_THREADS :: nat where
  "MAX_THREADS = 10000"

record acceptor =
  ac_connections :: "int list"
  ac_thread_index :: nat

text \<open>
  One iteration of the loop over \<open>accept\<close>: the slot of \<open>threads\<close> that the new thread gets. The
  descriptor is entered in \<open>connections\<close> before it is checked, and the array has no bound check.
\<close>

definition accept_step :: "int \<Rightarrow> acceptor \<Rightarrow> (nat option \<times> acceptor) option" where
  "accept_step tcp_connection_fd ac =
     (if MAX_THREADS \<le> length (ac_connections ac) then None
      else let ac = ac\<lparr>ac_connections := ac_connections ac @ [tcp_connection_fd]\<rparr> in
      if tcp_connection_fd = -1 then Some (None, ac)
      else if ac_thread_index ac < MAX_THREADS then
        Some (Some (ac_thread_index ac), ac\<lparr>ac_thread_index := ac_thread_index ac + 1\<rparr>)
      else Some (Some 0, ac\<lparr>ac_thread_index := 0\<rparr>))"

subsection \<open>\<open>str_split\<close>\<close>

text \<open>
  The number of array elements that \<open>str_split\<close> allocates: one per delimiter, one for a text
  that does not end in a delimiter (the comparison of pointers holds when there is none), and
  one for the final null pointer.
\<close>

fun last_index :: "char \<Rightarrow> string \<Rightarrow> nat option" where
  "last_index d [] = None"
| "last_index d (c # s) =
     (case last_index d s of Some i \<Rightarrow> Some (Suc i) | None \<Rightarrow> if c = d then Some 0 else None)"

definition str_split_count :: "char \<Rightarrow> string \<Rightarrow> nat" where
  "str_split_count d s =
     count_list s d +
     (case last_index d s of None \<Rightarrow> 1 | Some i \<Rightarrow> if int i < int (length s) - 1 then 1 else 0) + 1"

function strtok_all :: "string \<Rightarrow> string \<Rightarrow> string list" where
  "strtok_all d s =
     (case strtok_r d s of (None, _) \<Rightarrow> [] | (Some token, rest) \<Rightarrow> token # strtok_all d rest)"
  by pat_completeness auto
termination
proof (relation "measure (\<lambda>(d, s). length s)", goal_cases)
  case (2 d s x y t)
  then have "strtok_r d s = (Some t, y)" by simp
  then show ?case using length_strtok_r [of d s t] by simp
qed simp

declare strtok_all.simps [simp del]

text \<open>\<open>None\<close> is a write behind the array.\<close>

definition str_split :: "string \<Rightarrow> char \<Rightarrow> string list option" where
  "str_split a_str a_delim =
     (let tokens = strtok_all [a_delim] a_str
      in if str_split_count a_delim a_str < length tokens + 1 then None else Some tokens)"

text \<open>
  The array is always large enough, and the tokens are the non-empty pieces between delimiters.
\<close>

fun pieces :: "char \<Rightarrow> string \<Rightarrow> string list" where
  "pieces d [] = [[]]"
| "pieces d (c # s) =
     (if c = d then [] # pieces d s else (c # hd (pieces d s)) # tl (pieces d s))"

lemma pieces_ne: "pieces d s \<noteq> []"
  by (cases s) auto

lemma pieces_split: "d \<notin> set a \<Longrightarrow> pieces d (a @ d # r) = a # pieces d r"
  by (induction a) auto

lemma pieces_whole: "d \<notin> set a \<Longrightarrow> pieces d a = [a]"
  by (induction a) auto

lemma length_pieces: "length (pieces d s) = count_list s d + 1"
  using pieces_ne by (induction s) (auto simp: Suc_pred)

lemma last_piece: "last (pieces d s) = [] \<longleftrightarrow> s = [] \<or> last s = d"
proof (induction s)
  case (Cons c s)
  then show ?case
    using pieces_ne [of d s] length_pieces [of d s] last_in_set [of s]
    by (cases "pieces d s") (auto simp: count_list_0_iff split: if_splits)
qed simp

lemma strtok_all_skip: "strtok_all [d] (d # s) = strtok_all [d] s"
  by (subst (1 2) strtok_all.simps) (simp add: strtok_r_def)

lemma strtok_all_pieces: "strtok_all [d] s = filter (\<lambda>t. t \<noteq> []) (pieces d s)"
proof (induction s rule: length_induct)
  case (1 s)
  show ?case
  proof (cases "d \<in> set s")
    case True
    then obtain a r where s: "s = a @ d # r" "d \<notin> set a" using split_list_first by fastforce
    have "strtok_all [d] s = (if a = [] then [] else [a]) @ strtok_all [d] r"
    proof (cases "a = []")
      case True
      with s(1) show ?thesis by (simp add: strtok_all_skip)
    next
      case False
      with s strtok_r_split [of a "[d]" d r] show ?thesis
        by (simp add: strtok_all.simps [of "[d]" "a @ d # r"])
    qed
    with 1 s show ?thesis by (simp add: pieces_split)
  next
    case False
    then have "strtok_all [d] s = (if s = [] then [] else [s])"
      using strtok_r_whole [of s "[d]"]
      by (simp add: strtok_all.simps [of "[d]" s] strtok_all.simps [of "[d]" "[]"] strtok_r_def [of _ "[]"])
    with False show ?thesis by (simp add: pieces_whole)
  qed
qed

lemma last_index_None: "last_index d s = None \<longleftrightarrow> d \<notin> set s"
  by (induction s) (auto split: option.splits)

lemma last_index_end: "last_index d s = Some i \<Longrightarrow> i < length s \<and> (int i < int (length s) - 1 \<longleftrightarrow> last s \<noteq> d)"
proof (induction s arbitrary: i)
  case (Cons c s)
  then show ?case
    using last_in_set [of s] by (cases "last_index d s") (auto simp: last_index_None split: if_splits)
qed simp

lemma str_split_pieces: "str_split s d = Some (filter (\<lambda>t. t \<noteq> []) (pieces d s))"
proof -
  let ?f = "filter (\<lambda>t. t \<noteq> []) (pieces d s)"
  have "length ?f \<le> count_list s d + (if s = [] \<or> last s = d then 0 else 1)"
  proof (cases "s = [] \<or> last s = d")
    case True
    then have "last (pieces d s) = []" by (simp add: last_piece)
    with append_butlast_last_id [OF pieces_ne [of d s]]
    have p: "pieces d s = butlast (pieces d s) @ [[]]" by simp
    have "length ?f \<le> length (butlast (pieces d s))"
      using length_filter_le [of "\<lambda>t. t \<noteq> []" "butlast (pieces d s)"] by (subst p) simp
    then show ?thesis using True by (simp add: length_pieces)
  next
    case False
    then show ?thesis using length_filter_le [of "\<lambda>t. t \<noteq> []" "pieces d s"] by (simp add: length_pieces)
  qed
  then have "\<not> str_split_count d s < length ?f + 1"
    using last_index_end [of d s] by (auto simp: str_split_count_def split: option.splits if_splits)
  then show ?thesis by (simp add: str_split_def strtok_all_pieces)
qed

end
