(* ===== verification/Exchange.thy ===== *)
theory Exchange
  imports PeerProps Server
begin

text \<open>
  The link-state exchange as a whole: the request that \<open>check_peer_status\<close> of one node builds,
  handled by \<open>child_routine\<close> of another, and what every request keeps of a node's state.
\<close>

subsection \<open>The advertised files\<close>

text \<open>
  \<open>hash_table_put_str\<close> copies a key without its NUL: it ends where the block happens to hold one.
\<close>

definition ends_after :: "string \<Rightarrow> string \<Rightarrow> bool" where
  "ends_after k block \<longleftrightarrow> length k < length block \<and> block ! length k = NUL"

text \<open>A table whose keys are the copied paths of a prefix-free set, with a terminator.\<close>

definition file_keys :: "string set \<Rightarrow> 'v hash_table \<Rightarrow> bool" where
  "file_keys F ht \<longleftrightarrow> ht_inv F ht \<and> (\<forall>nd\<in>set (ht_nodes ht).
     NUL \<in> set (node_key nd) \<and> table_key F (c_str (node_key nd)) \<and> length (c_str (node_key nd)) < 128)"

lemma file_keys_create: "file_keys F (hash_table_create MAX_HASHTABLE_SIZE)"
  by (auto simp: file_keys_def ht.inv_empty) (auto simp: ht_nodes_def hash_table_create_def)

text \<open>The paths that a table with such keys holds.\<close>

definition paths_of :: "'v hash_table \<Rightarrow> string list" where
  "paths_of ht = map (\<lambda>nd. c_str (node_key nd)) (ht_nodes ht)"

lemma padded_key:
  assumes "cstring k" "ends_after k block"
  shows "NUL \<in> set (k @ drop (length k) block)" "c_str (k @ drop (length k) block) = k"
proof -
  have "drop (length k) block = NUL # drop (Suc (length k)) block"
    using assms(2) by (simp add: ends_after_def Cons_nth_drop_Suc [symmetric])
  with assms(1) show "NUL \<in> set (k @ drop (length k) block)" "c_str (k @ drop (length k) block) = k"
    by simp_all
qed

lemma put_str_file_keys:
  assumes "file_keys F ht" "table_key F k" "cstring k" "length k < 128" "ends_after k block"
  shows "\<exists>ht'. hash_table_put_str ht (key_mem k) v (length k) block = Some ht' \<and>
    file_keys F ht' \<and> table_abs F ht' = (table_abs F ht)(k \<mapsto> v) \<and>
    set (paths_of ht') \<subseteq> insert k (set (paths_of ht))"
proof -
  obtain ht' where ht': "hash_table_put_str ht (key_mem k) v (length k) block = Some ht'"
    "ht_inv F ht'" "table_abs F ht' = (table_abs F ht)(k \<mapsto> v)"
    using put_str_abs [of F ht k v block] assms by (auto simp: file_keys_def)
  have sz: "key_size (length k) = length k" "take (length k) (key_mem k) = k"
    using table_key_ne [OF assms(2)] by (simp_all add: key_size_def key_mem_def)
  have "NUL \<in> set (node_key nd) \<and> table_key F (c_str (node_key nd)) \<and> length (c_str (node_key nd)) < 128"
    if "nd \<in> set (ht_nodes ht')" for nd
    using put_str_nodes [OF ht'(1) that] padded_key [OF assms(3,5)] assms(1,2,4) sz
    by (auto simp: file_keys_def)
  moreover have "c_str (node_key nd) \<in> insert k (set (paths_of ht))" if "nd \<in> set (ht_nodes ht')" for nd
    using put_str_nodes [OF ht'(1) that] padded_key [OF assms(3,5)] sz by (auto simp: paths_of_def)
  then have "set (paths_of ht') \<subseteq> insert k (set (paths_of ht))"
    by (auto simp: paths_of_def [of ht'])
  ultimately show ?thesis using ht' by (auto simp: file_keys_def)
qed

definition file_member :: "string \<Rightarrow> string option \<times> cJSON" where
  "file_member k = (Some k, JObject [(''path'', JString k)])"

lemma files_map_items_spec:
  assumes "\<forall>k\<in>set ks. table_key F k \<and> cstring k \<and> length k < 128"
    and "\<forall>i. \<forall>k\<in>set ks. ends_after k (blocks i)" "file_keys F ht"
  shows "\<exists>ht'. files_map_items blocks i (map file_member ks) ht = Some ht' \<and> file_keys F ht' \<and>
    (\<forall>k. table_abs F ht' k \<noteq> None \<longleftrightarrow> k \<in> set ks \<or> table_abs F ht k \<noteq> None) \<and>
    set (paths_of ht') \<subseteq> set ks \<union> set (paths_of ht)"
  using assms
proof (induction ks arbitrary: i ht)
  case (Cons k ks)
  then have k: "table_key F k" "cstring k" "length k < 128" "ends_after k (blocks i)" by simp_all
  obtain ht1 where 1: "hash_table_put_str ht (key_mem k) () (length k) (blocks i) = Some ht1"
    "file_keys F ht1" "table_abs F ht1 = (table_abs F ht)(k \<mapsto> ())"
    "set (paths_of ht1) \<subseteq> insert k (set (paths_of ht))"
    using put_str_file_keys [OF Cons.prems(3) k] by blast
  obtain ht2 where 2: "files_map_items blocks (Suc i) (map file_member ks) ht1 = Some ht2"
    "file_keys F ht2" "\<forall>k. table_abs F ht2 k \<noteq> None \<longleftrightarrow> k \<in> set ks \<or> table_abs F ht1 k \<noteq> None"
    "set (paths_of ht2) \<subseteq> set ks \<union> set (paths_of ht1)"
    using Cons.IH [OF _ _ 1(2), of "Suc i"] Cons.prems(1,2) by auto
  have "cJSON_GetObjectItem (JObject [(''path'', JString k)]) ''path'' = Some (JString k)"
    by (simp add: cJSON_GetObjectItem_def case_insensitive_eq_def tolower_def uchar_def)
  moreover have "key_size (length k) = length k" using table_key_ne [OF k(1)] by (simp add: key_size_def)
  ultimately have "files_map_items blocks i (map file_member (k # ks)) ht = Some ht2"
    using k(3) 1(1) 2(1) Cons.prems(2) by (simp add: file_member_def)
  then show ?case using 1(3,4) 2(2-4) by (intro exI [of _ ht2]) auto
qed auto

lemma prefix_c_str: "cstring k \<Longrightarrow> prefix k m \<Longrightarrow> prefix k (c_str m)"
  by (auto simp: prefix_def c_str_def cstring_def takeWhile_append)

lemma table_abs_paths:
  assumes "file_keys F ht" "table_abs F ht k \<noteq> None" "cstring k"
  shows "k \<in> set (paths_of ht)"
proof -
  have k: "table_key F k" using assms(2) by (auto simp: table_abs_def split: if_splits)
  then obtain v where "hash_table_get ht (key_mem k) (length k) = Some v"
    using assms(2) by (auto simp: table_abs_def)
  then obtain nd where nd: "nd \<in> set (ht_nodes ht)" "prefix k (node_key nd)"
    using get_in_nodes [of F ht "key_mem k" "length k" v] assms(1) key_eq_prefix [OF table_key_ne [OF k]]
    by (auto simp: file_keys_def)
  then have "prefix k (c_str (node_key nd))" "table_key F (c_str (node_key nd))"
    using assms(1,3) prefix_c_str by (auto simp: file_keys_def)
  then have "k = c_str (node_key nd)"
    using table_key_unique [OF k _ _ prefix_order.refl] by blast
  with nd(1) show ?thesis by (simp add: paths_of_def)
qed

text \<open>A node whose files are its own: the path stored with a file is its key.\<close>

definition own_files :: "string set \<Rightarrow> file_info hash_table \<Rightarrow> bool" where
  "own_files F files \<longleftrightarrow> file_keys F files \<and>
     (\<forall>nd\<in>set (ht_nodes files). fi_path (node_value nd) = c_str (node_key nd))"

lemma own_files_ok: "own_files F files \<Longrightarrow> files_ok files"
  by (auto simp: own_files_def file_keys_def files_ok_def)

lemma own_path: "own_files F files \<Longrightarrow> k \<in> set (paths_of files) \<Longrightarrow> table_key F k \<and> cstring k \<and> length k < 128"
  by (auto simp: own_files_def file_keys_def paths_of_def)

lemma advertisement_read:
  assumes "config_ok c" "length (nc_peers init) = MAX_PEERS" "own_files F files"
  shows "\<exists>s. node_config_to_json c fmt (Some files) = Some s \<and> cstring s \<and>
    json_to_node_config init s = Some (Some (received_config init c)) \<and>
    (\<forall>blocks. json_to_files_map blocks s = map_option Some
       (files_map_items blocks 0 (map file_member (paths_of files)) (hash_table_create MAX_HASHTABLE_SIZE)))"
proof -
  have f: "\<forall>f. Some files = Some f \<longrightarrow> files_ok f" using own_files_ok [OF assms(3)] by blast
  from node_config_sent [OF assms(1,2) f, of fmt]
  obtain s j where s: "node_config_to_json c fmt (Some files) = Some s" "cstring s" "cJSON_Parse s = Some j"
    "json_to_node_config init s = Some (Some (received_config init c))"
    "cJSON_GetObjectItem j ''file_map'' = file_map_to_json files"
    by auto
  have m: "file_map_to_json files = Some (JObject (map (\<lambda>nd. (c_str (node_key nd),
      JObject [(''path'', JString (fi_path (node_value nd)))])) (ht_nodes files)))"
    using own_files_ok [OF assms(3)] by (rule file_map_to_json_members)
  have "map (\<lambda>(k, v). (Some k, v)) (map (\<lambda>nd. (c_str (node_key nd),
      JObject [(''path'', JString (fi_path (node_value nd)))])) (ht_nodes files)) =
    map file_member (paths_of files)"
    using assms(3) by (simp add: own_files_def paths_of_def file_member_def)
  then have "json_to_files_map blocks s = map_option Some
      (files_map_items blocks 0 (map file_member (paths_of files)) (hash_table_create MAX_HASHTABLE_SIZE))" for blocks
    using s(3,5) m by (simp add: json_to_files_map_def)
  then show ?thesis using s by blast
qed

lemma advertised_files:
  assumes "own_files F files" "\<forall>i. \<forall>k\<in>set (paths_of files). ends_after k (blocks i)"
  shows "\<exists>ads. files_map_items blocks 0 (map file_member (paths_of files))
      (hash_table_create MAX_HASHTABLE_SIZE) = Some ads \<and> file_keys F ads \<and>
    set (paths_of ads) = set (paths_of files)"
proof -
  let ?ks = "paths_of files"
  have ks: "\<forall>k\<in>set ?ks. table_key F k \<and> cstring k \<and> length k < 128" using own_path [OF assms(1)] by blast
  obtain ads where ads: "files_map_items blocks 0 (map file_member ?ks)
      (hash_table_create MAX_HASHTABLE_SIZE) = Some ads" "file_keys F ads"
    "\<forall>k\<in>set ?ks. table_abs F ads k \<noteq> None"
    "set (paths_of ads) \<subseteq> set ?ks \<union> set (paths_of (hash_table_create MAX_HASHTABLE_SIZE :: unit hash_table))"
    using files_map_items_spec [OF ks assms(2) file_keys_create, of 0] by blast
  moreover have "paths_of (hash_table_create MAX_HASHTABLE_SIZE :: unit hash_table) = []"
    by (simp add: paths_of_def ht_nodes_def hash_table_create_def)
  then have "set (paths_of ads) = set ?ks"
    using ads(2-4) ks table_abs_paths [OF ads(2)] by auto
  ultimately show ?thesis by blast
qed

lemma update_file_ok:
  assumes "update_file dead block u k files = Some files'" "files_ok files" "cstring dead"
    and "cstring k" "k \<noteq> []" "ends_after k block"
  shows "files_ok files'"
  unfolding files_ok_def
proof
  fix nd assume nd: "nd \<in> set (ht_nodes files')"
  have sz: "key_size (length k) = length k" "take (length k) (key_mem k) = k"
    using assms(5) by (simp_all add: key_size_def key_mem_def)
  show "NUL \<in> set (node_key nd) \<and> cstring (fi_path (node_value nd))"
  proof (cases "Option.bind (hash_table_get files (key_mem k) (length k)) fi_peers")
    case (Some ps)
    with assms(1) nd have "nd \<in> set (ht_nodes (hash_table_modify files (key_mem k) (length k)
        (\<lambda>f. f\<lparr>fi_peers := Some (add_holder u ps)\<rparr>)))"
      by (simp add: update_file_def Let_def)
    from modify_nodes [OF this] assms(2) show ?thesis by (auto simp: files_ok_def)
  next
    case None
    let ?v = "\<lparr>fi_path = dead, fi_peers = Some (add_holder u (hash_table_create MAX_HASHTABLE_SIZE))\<rparr>"
    from None assms(1) have "hash_table_put_str files (key_mem k) ?v (length k) block = Some files'"
      by (auto simp: update_file_def Let_def bind_Some_iff)
    from put_str_nodes [OF this nd] assms(2,3) padded_key [OF assms(4,6)] sz show ?thesis
      by (auto simp: files_ok_def)
  qed
qed

lemma update_files_ok:
  "update_files dead blocks i u nds files = Some files' \<Longrightarrow> files_ok files \<Longrightarrow> cstring dead \<Longrightarrow>
    \<forall>i. \<forall>nd\<in>set nds. c_str (node_key nd) \<noteq> [] \<and> ends_after (c_str (node_key nd)) (blocks i) \<Longrightarrow>
    files_ok files'"
proof (induction nds arbitrary: i files)
  case (Cons nd nds)
  from Cons.prems(1) obtain files1 where 1: "key_cstr (node_key nd) = Some (c_str (node_key nd))"
    "update_file dead (blocks i) u (c_str (node_key nd)) files = Some files1"
    "update_files dead blocks (Suc i) u nds files1 = Some files'"
    by (auto simp: bind_Some_iff key_cstr_def split: if_splits)
  have "files_ok files1"
    using Cons.prems(2-4) by (intro update_file_ok [OF 1(2)]) simp_all
  then show ?case using Cons.IH [OF 1(3)] Cons.prems(3,4) by simp
qed simp

subsection \<open>The distances after an advertisement\<close>

lemma length_concat_update:
  "i < length xs \<Longrightarrow> length (concat (xs[i := ys])) + length (xs ! i) = length (concat xs) + length ys"
  by (induction xs arbitrary: i) (auto split: nat.splits)

lemma chain_update_length: "chain_update key n f ns = Some ns' \<Longrightarrow> length ns' = length ns"
  using chain_update_keys [of key n f ns ns'] by (metis length_map)

lemma length_nodes_update:
  "length ns \<le> Suc (length (ht_buckets ht ! i)) \<Longrightarrow>
    length (ht_nodes (ht\<lparr>ht_buckets := (ht_buckets ht)[i := ns]\<rparr>)) \<le> Suc (length (ht_nodes ht))"
  using length_concat_update [of i "ht_buckets ht" ns]
  by (cases "i < length (ht_buckets ht)") (auto simp: ht_nodes_def list_update_beyond)

lemma length_nodes_put: "length (ht_nodes (hash_table_put ht key v n)) \<le> Suc (length (ht_nodes ht))"
  unfolding hash_table_put_def Let_def
  by (rule length_nodes_update) (auto simp: chain_put_def chain_update_length split: option.splits)

lemma length_nodes_modify: "length (ht_nodes (hash_table_modify ht key n f)) \<le> Suc (length (ht_nodes ht))"
proof (cases "chain_update key n f (ht_buckets ht ! ht_index ht key n)")
  case (Some ns)
  with length_nodes_update [of ns ht "ht_index ht key n"] chain_update_length [OF Some] show ?thesis
    by (simp add: hash_table_modify_def Let_def)
qed (simp add: hash_table_modify_def Let_def)

text \<open>Every entry of a table has a property \<open>P\<close>, which new weights keep.\<close>

definition peer_nodes :: "(peer_info \<Rightarrow> bool) \<Rightarrow> peer_info hash_table \<Rightarrow> bool" where
  "peer_nodes P ht \<longleftrightarrow> (\<forall>nd\<in>set (ht_nodes ht). P (node_value nd))"

definition keeps_weights :: "(peer_info \<Rightarrow> bool) \<Rightarrow> bool" where
  "keeps_weights P \<longleftrightarrow> (\<forall>p q. P p \<longrightarrow> P q \<longrightarrow> P (p\<lparr>pi_weight := pi_weight q\<rparr>))"

lemma keeps_weights_entry: "keeps_weights entry_ok"
  by (simp add: keeps_weights_def entry_ok_def)

lemma peer_nodes_create: "peer_nodes P (hash_table_create n)"
  by (simp add: peer_nodes_def ht_nodes_def hash_table_create_def)

lemma put_peer_nodes: "peer_nodes P ht \<Longrightarrow> P p \<Longrightarrow> peer_nodes P (hash_table_put ht key p n)"
  unfolding peer_nodes_def using put_nodes [of _ ht key p n] by fastforce

lemma modify_peer_nodes:
  "keeps_weights P \<Longrightarrow> peer_nodes P ht \<Longrightarrow> P q \<Longrightarrow>
    peer_nodes P (hash_table_modify ht key n (\<lambda>p. p\<lparr>pi_weight := pi_weight q\<rparr>))"
  unfolding peer_nodes_def keeps_weights_def
  using modify_nodes [of _ ht key n "\<lambda>p. p\<lparr>pi_weight := pi_weight q\<rparr>"] by fastforce

lemma add_peer_node_ok:
  assumes "keeps_weights P" "peer_nodes P ht" "P p"
  shows "peer_nodes P (add_peer_node c ht p)"
    "length (ht_nodes (add_peer_node c ht p)) \<le> Suc (length (ht_nodes ht))"
  using assms put_peer_nodes modify_peer_nodes [OF assms]
  by (auto simp: add_peer_node_def Let_def length_nodes_put length_nodes_modify split: option.splits)

lemma add_peer_nodes_ok:
  "keeps_weights P \<Longrightarrow> peer_nodes P ht \<Longrightarrow> \<forall>p\<in>set ps. P p \<Longrightarrow>
    peer_nodes P (foldl (add_peer_node c) ht ps) \<and>
    length (ht_nodes (foldl (add_peer_node c) ht ps)) \<le> length (ht_nodes ht) + length ps"
proof (induction ps arbitrary: ht)
  case (Cons p ps)
  then show ?case using add_peer_node_ok [of P ht p c] by fastforce
qed simp

lemma neighbour_table_ok:
  assumes "read_ok c" "is_i32 w" "node_config_to_hashmap c w = Some ht"
  shows "peer_nodes entry_ok ht" "length (ht_nodes ht) \<le> Suc (length (live_peers c))"
proof -
  let ?t = "hash_table_create (nat (nc_peer_count c + 1)) :: peer_info hash_table"
  let ?ht = "hash_table_put ?t (key_mem (nc_uuid c)) (peer_of_config c w) (length (nc_uuid c))"
  have t: "ht_nodes ?t = []" by (simp add: ht_nodes_def hash_table_create_def)
  have "peer_nodes entry_ok ?t" by (rule peer_nodes_create)
  moreover have "entry_ok (peer_of_config c w)" using assms(1,2) by (rule read_okD(6))
  ultimately have "peer_nodes entry_ok ?ht" by (rule put_peer_nodes)
  moreover have "length (ht_nodes ?ht) \<le> 1" using length_nodes_put [of ?t] t by (metis One_nat_def list.size(3))
  moreover have "ht = foldl (add_peer_node c) ?ht (live_peers c)"
    using assms(3) read_okD(3) [OF assms(1)]
    by (simp add: node_config_to_hashmap_def read_okD(1) [OF assms(1)] peer_of_config_def Let_def)
  ultimately show "peer_nodes entry_ok ht" "length (ht_nodes ht) \<le> Suc (length (live_peers c))"
    using add_peer_nodes_ok [OF keeps_weights_entry, of ?ht "live_peers c" c] read_okD(5) [OF assms(1)] by auto
qed

definition own_keys :: "(string \<rightharpoonup> peer_info) \<Rightarrow> bool" where
  "own_keys m \<longleftrightarrow> (\<forall>u e. m u = Some e \<longrightarrow> pi_uuid e = u)"

lemma merge_peer_le:
  assumes "own_keys m"
  shows "own_keys (merge_peer own m p)"
    "m u = Some e \<Longrightarrow> \<exists>e'. merge_peer own m p u = Some e' \<and> pi_weight e' \<le> pi_weight e"
    "pi_uuid p \<noteq> own \<Longrightarrow> \<exists>e'. merge_peer own m p (pi_uuid p) = Some e' \<and> pi_weight e' \<le> pi_weight p"
  using assms by (auto simp: own_keys_def merge_peer_def split: option.splits)

lemma merge_peers_le:
  assumes "own_keys m"
  shows "own_keys (foldl (merge_peer own) m ps) \<and> (\<forall>p\<in>set ps. pi_uuid p \<noteq> own \<longrightarrow>
    (\<exists>e. foldl (merge_peer own) m ps (pi_uuid p) = Some e \<and> pi_weight e \<le> pi_weight p))"
proof (induction ps rule: rev_induct)
  case (snoc q ps)
  let ?m = "foldl (merge_peer own) m ps"
  have ok: "own_keys ?m" using snoc by blast
  have "\<exists>e. merge_peer own ?m q (pi_uuid p) = Some e \<and> pi_weight e \<le> pi_weight p"
    if "p \<in> set (ps @ [q])" "pi_uuid p \<noteq> own" for p
  proof (cases "p = q")
    case True
    with that(2) merge_peer_le(3) [OF ok] show ?thesis by simp
  next
    case False
    with that snoc obtain e where "?m (pi_uuid p) = Some e" "pi_weight e \<le> pi_weight p" by auto
    with merge_peer_le(2) [OF ok this(1)] show ?thesis by (meson order_trans)
  qed
  with merge_peer_le(1) [OF ok] show ?case by simp
qed (simp add: assms)

lemma relax_le:
  "m u = Some w \<Longrightarrow> \<exists>w'\<le>w. relax g own v m q u = Some w'"
  "pi_uuid q \<noteq> own \<Longrightarrow> pi_uuid q \<noteq> v \<Longrightarrow> \<exists>w'\<le>i32 (g + pi_weight q). relax g own v m q (pi_uuid q) = Some w'"
  by (auto simp: relax_def split: option.splits)

lemma relax_all_le:
  assumes "nd \<in> set nds" "pi_uuid (node_value nd) \<noteq> own" "pi_uuid (node_value nd) \<noteq> v"
  shows "\<exists>w\<le>i32 (g + pi_weight (node_value nd)). relax_all g own v m nds (pi_uuid (node_value nd)) = Some w"
  using assms(1)
proof (induction nds rule: rev_induct)
  case (snoc q nds)
  let ?u = "pi_uuid (node_value nd)"
  show ?case
  proof (cases "nd = q")
    case True
    with relax_le(2) [OF assms(2,3)] show ?thesis by (simp add: relax_all_def)
  next
    case False
    with snoc obtain w where "w \<le> i32 (g + pi_weight (node_value nd))" "relax_all g own v m nds ?u = Some w"
      by auto
    with relax_le(1) [of "relax_all g own v m nds" ?u w g own v "node_value q"] show ?thesis
      by (auto simp: relax_all_def intro: order_trans)
  qed
qed simp

lemma advertisement_distances:
  assumes "routing_inv c" "field_ok UUID_SIZE now" "read_ok pc" "table_key K (nc_uuid pc)"
    and "\<forall>p\<in>set (live_peers pc). table_key K (pi_uuid p)"
  shows "\<exists>ht c'. node_config_to_hashmap pc 0 = Some ht \<and>
    update_peer_weights_last_seen now c ht pc = Some c' \<and> improves (nc_uuid pc) c c' \<and>
    (nc_peer_count c + nc_peer_count pc < int MAX_PEERS \<longrightarrow>
      (\<forall>g p. weights c (nc_uuid pc) = Some g \<and> 0 < g \<and> g + pi_weight p \<le> INT_MAX \<and> p \<in> set (live_peers pc) \<and>
        pi_uuid p \<noteq> nc_uuid c \<and> pi_uuid p \<noteq> nc_uuid pc \<longrightarrow>
        (\<exists>w \<le> g + pi_weight p. weights c' (pi_uuid p) = Some w)))"
proof -
  have zero: "is_i32 0" by (simp add: is_i32_def INT_MAX_def INT_MIN_def)
  obtain ht where ht: "node_config_to_hashmap pc 0 = Some ht" "ht_inv K ht"
    "table_abs K ht = foldl (merge_peer (nc_uuid pc)) [nc_uuid pc \<mapsto> peer_of_config pc 0] (live_peers pc)"
    using node_config_to_hashmap_abs [OF assms(3-5), of 0] by blast
  have ok: "\<forall>nd\<in>set (ht_nodes ht). entry_ok (node_value nd)" "length (ht_nodes ht) \<le> Suc (length (live_peers pc))"
    using neighbour_table_ok [OF assms(3) zero ht(1)] by (simp_all add: peer_nodes_def)
  obtain c' where c': "update_peer_weights_last_seen now c ht pc = Some c'" "improves (nc_uuid pc) c c'"
    "nc_peer_count c + int (length (ht_nodes ht)) \<le> int MAX_PEERS \<longrightarrow>
      weights c' = relax_all (link_weight c ht pc) (nc_uuid c) (nc_uuid pc) (weights c) (ht_nodes ht)"
    using update_peer_weights_step [OF assms(1,2) ok(1)] by blast
  have "\<exists>w \<le> g + pi_weight p. weights c' (pi_uuid p) = Some w"
    if room: "nc_peer_count c + nc_peer_count pc < int MAX_PEERS"
      and g: "weights c (nc_uuid pc) = Some g" "0 < g" "g + pi_weight p \<le> INT_MAX"
      and p: "p \<in> set (live_peers pc)" "pi_uuid p \<noteq> nc_uuid c" "pi_uuid p \<noteq> nc_uuid pc" for g p
  proof -
    have "nc_peer_count c + int (length (ht_nodes ht)) \<le> int MAX_PEERS"
      using ok(2) room read_okD(3) [OF assms(3)] by (simp add: read_okD(2) [OF assms(3)])
    moreover have "link_weight c ht pc = g" using g by (simp add: link_weight_def)
    ultimately have w: "weights c' = relax_all g (nc_uuid c) (nc_uuid pc) (weights c) (ht_nodes ht)"
      using c'(3) by simp
    have keys: "own_keys [nc_uuid pc \<mapsto> peer_of_config pc 0]"
      by (simp add: own_keys_def peer_of_config_def)
    obtain e where e: "table_abs K ht (pi_uuid p) = Some e" "pi_weight e \<le> pi_weight p" "pi_uuid e = pi_uuid p"
      using merge_peers_le [OF keys, of "nc_uuid pc" "live_peers pc"] ht(3) p(1,3)
      unfolding own_keys_def by metis
    then have "hash_table_get ht (key_mem (pi_uuid p)) (length (pi_uuid p)) = Some e"
      by (auto simp: table_abs_def split: if_splits)
    then obtain nd where nd: "nd \<in> set (ht_nodes ht)" "node_value nd = e"
      using get_in_nodes [OF ht(2)] by blast
    obtain w' where w': "w' \<le> i32 (g + pi_weight e)" "weights c' (pi_uuid p) = Some w'"
      using relax_all_le [OF nd(1), of "nc_uuid c" "nc_uuid pc" g "weights c"] w nd(2) e(3) p(2,3) by auto
    have "is_i32 (pi_weight e)" using ok(1) nd by (auto simp: entry_ok_def)
    then have "i32 (g + pi_weight e) = g + pi_weight e"
      using g(2,3) e(2) by (intro i32_id) (auto simp: is_i32_def)
    with w' e(2) show ?thesis by (intro exI [of _ w']) simp
  qed
  with ht(1) c'(1,2) show ?thesis by blast
qed

subsection \<open>The messages\<close>

lemma received_peer_entry: "peer_ok p \<Longrightarrow> entry_ok (received_peer old p)"
  by (simp add: peer_ok_def entry_ok_def received_peer_def)

text \<open>The peers that are read are those that were sent, whatever the memory for them held.\<close>

lemma received_peers:
  assumes "length (nc_peers init) = MAX_PEERS" "config_ok c"
  shows "length (nc_peers (received_config init c)) = MAX_PEERS"
    "live_peers (received_config init c) = map2 received_peer (nc_peers init) (live_peers c)"
    "map (\<lambda>p. (pi_uuid p, pi_weight p)) (live_peers (received_config init c)) =
      map (\<lambda>p. (pi_uuid p, pi_weight p)) (live_peers c)"
    "\<forall>p\<in>set (live_peers (received_config init c)). entry_ok p"
proof -
  let ?ps = "map2 received_peer (nc_peers init) (live_peers c)"
  have len: "length (live_peers c) = nat (nc_peer_count c)" "nat (nc_peer_count c) \<le> MAX_PEERS"
    using assms(2) config_okD(1-3) [OF assms(2)] by (auto simp: length_live_peers)
  show "length (nc_peers (received_config init c)) = MAX_PEERS"
    using len assms(1) by (simp add: received_config_def)
  show ps: "live_peers (received_config init c) = ?ps"
    unfolding live_peers_def [of "received_config init c"] using len assms(1) by (simp add: received_config_def)
  have "length ps \<le> length olds \<Longrightarrow> map (\<lambda>p. (pi_uuid p, pi_weight p)) (map2 received_peer olds ps) =
      map (\<lambda>p. (pi_uuid p, pi_weight p)) ps" for olds ps
    by (induction ps arbitrary: olds) (auto simp: received_peer_def neq_Nil_conv Suc_le_length_iff)
  then show "map (\<lambda>p. (pi_uuid p, pi_weight p)) (live_peers (received_config init c)) =
      map (\<lambda>p. (pi_uuid p, pi_weight p)) (live_peers c)"
    using len assms(1) by (simp add: ps)
  show "\<forall>p\<in>set (live_peers (received_config init c)). entry_ok p"
    unfolding ps using live_peers_ok [OF assms(2)]
    by (auto intro!: received_peer_entry dest: set_zip_rightD)
qed

lemma config_text_length:
  assumes "config_ok c"
  shows "\<exists>s. node_config_to_json c False None = Some s \<and> length s < 261900"
proof -
  let ?vs = "map peer_obj (live_peers c)"
  obtain s where s: "node_config_to_json c False None = Some s"
    using node_config_sent [OF assms, of c None False] config_okD(1) [OF assms] by auto
  then have p: "print_value False 0 (config_obj c (live_peers c)) = Some s"
    by (simp add: node_config_to_json_def peers_read_ok [OF assms] cJSON_PrintUnformatted_def)
  then obtain b where b: "print_elems False 2 ?vs = Some b"
    by (auto simp: config_obj_members bind_Some_iff numeral_2_eq_2)
  have "length b \<le> length ?vs * (4300 + 2)"
    using live_peers_ok [OF assms] length_peer_obj by (intro length_print_elems [OF _ b]) auto
  moreover have "length ?vs \<le> 50" using live_peers_sub [OF assms] by (simp add: MAX_PEERS_def)
  then have "length ?vs * (4300 + 2) \<le> 50 * (4300 + 2)" by (rule mult_le_mono1)
  ultimately have len: "length b \<le> 50 * (4300 + 2)" by (rule le_trans)
  have i: "length (show_int (nc_frontend_port c)) \<le> 11" "length (show_int (nc_backend_port c)) \<le> 11"
    "length (show_int (nc_peer_count c)) \<le> 11"
    using assms peer_count_i32 [OF assms] unfolding config_ok_def by (blast intro: length_show_int)+
  have f: "length (print_string_ptr (nc_uuid c)) + 4 \<le> 6 * UUID_SIZE"
    "length (print_string_ptr (nc_last_seen c)) + 4 \<le> 6 * UUID_SIZE"
    "length (print_string_ptr (nc_name c)) + 4 \<le> 6 * NAME_SIZE"
    "length (print_string_ptr (nc_content_dir c)) + 4 \<le> 6 * NAME_SIZE"
    using assms unfolding config_ok_def by (blast intro: length_print_field)+
  have n: "num_int (of_int x) = x" if "is_i32 x" for x
    using that by (rule num_int_of_int)
  have "length s < 261900"
    using p b len i f assms peer_count_i32 [OF assms]
      length_print_string [of "''uuid''"] length_print_string [of "''last_seen''"]
      length_print_string [of "''name''"] length_print_string [of "''content_dir''"]
      length_print_string [of "''frontend_port''"] length_print_string [of "''backend_port''"]
      length_print_string [of "''peer_count''"] length_print_string [of "''peers''"]
    by (auto simp: config_obj_members print_number_def config_ok_def n bind_Some_iff numeral_2_eq_2)
  with s show ?thesis by blast
qed

text \<open>The text of the request for the JSON text \<open>s\<close>, which hw3 and hw4 share.\<close>

definition advertisement_text :: "peer_info \<Rightarrow> string \<Rightarrow> string" where
  "advertisement_text peer s = ''POST /link-state HTTP/1.1'' @ crlf @
     header_block [''Host: '' @ pi_host peer @ '':'' @ show_int (pi_frontend_port peer),
       ''Content-Type: application/json'', ''Content-Length: '' @ show_int (i32 (int (length s)))] s"

lemma advertisement_parts:
  assumes "cstring s" "cstring (pi_host peer)" "CR \<notin> set (pi_host peer)"
  shows "c_str (advertisement_text peer s) = advertisement_text peer s" "advertisement_text peer s \<noteq> []"
    "\<exists>v. process_startline (advertisement_text peer s) = (Some ''POST'', Some ''/link-state'', v)"
    "strstr (advertisement_text peer s) (crlf @ crlf) = Some (crlf @ crlf @ s)"
proof -
  have "cstring (advertisement_text peer s)"
    using assms(1,2) by (simp add: advertisement_text_def show_int_cstring crlf_def)
  then show "c_str (advertisement_text peer s) = advertisement_text peer s" by (rule c_str_id)
  show "advertisement_text peer s \<noteq> []" by (simp add: advertisement_text_def)
  let ?r = "''HTTP/1.1'' @ crlf @ header_block [''Host: '' @ pi_host peer @ '':'' @ show_int (pi_frontend_port peer),
       ''Content-Type: application/json'', ''Content-Length: '' @ show_int (i32 (int (length s)))] s"
  show "\<exists>v. process_startline (advertisement_text peer s) = (Some ''POST'', Some ''/link-state'', v)"
    using process_startline_words [of "''POST''" "''/link-state''" ?r] by (auto simp: advertisement_text_def)
  show "strstr (advertisement_text peer s) (crlf @ crlf) = Some (crlf @ crlf @ s)"
    unfolding advertisement_text_def
    by (rule http_body_line) (use assms(3) in \<open>auto simp: header_line_def\<close>)
qed

lemma advertisement_dispatch:
  assumes "length (advertisement_text peer s) < 4096"
    and "cstring s" "cstring (pi_host peer)" "CR \<notin> set (pi_host peer)"
  shows "child_routine env (Some (advertisement_text peer s)) fd nd = link_state_post env s fd nd"
proof -
  note parts = advertisement_parts [OF assms(2-4)]
  obtain v where line: "process_startline (advertisement_text peer s) = (Some ''POST'', Some ''/link-state'', v)"
    using parts(3) by blast
  have "post_request env ''/link-state'' (advertisement_text peer s) fd nd = link_state_post env s fd nd"
    using parts(4) by (simp add: post_request_def crlf_def)
  moreover have "length (advertisement_text peer s) < RECV_SIZE" using assms(1) by (simp add: RECV_SIZE_def)
  ultimately show ?thesis
    using line parts(1,2) by (simp add: child_routine_def strncpy_buf_def fits_def)
qed

lemma link_state_dispatch:
  assumes "link_state_request c peer files = Some req" "node_config_to_json c True (Some files) = Some s"
    and "cstring s" "cstring (pi_host peer)" "CR \<notin> set (pi_host peer)"
  shows "child_routine env (Some req) fd nd = link_state_post env s fd nd"
proof -
  have "req = advertisement_text peer s" "length req < 4096"
    using assms(1,2) by (auto simp: link_state_request_def advertisement_text_def)
  with advertisement_dispatch [OF _ assms(3-5), where env = env and fd = fd and nd = nd] show ?thesis by simp
qed

subsection \<open>The exchange\<close>

text \<open>
  A node that advertises: its uuid and those of its peers are keys of which none is a prefix of
  another, and its files are its own. A node that receives: its configuration is well-formed,
  its tables have such keys too, and the clock and the address fit. Of the configuration that
  \<open>malloc\<close> returned only the size of its array is known.
\<close>

definition sender_ok :: "string set \<Rightarrow> string set \<Rightarrow> node_config \<Rightarrow> file_info hash_table \<Rightarrow> bool" where
  "sender_ok K F c files \<longleftrightarrow> config_ok c \<and> table_key K (nc_uuid c) \<and>
     (\<forall>p\<in>set (live_peers c). table_key K (pi_uuid p)) \<and> own_files F files"

definition receiver_ok :: "string set \<Rightarrow> string set \<Rightarrow> string \<Rightarrow> server_env \<Rightarrow> node \<Rightarrow> bool" where
  "receiver_ok K F u env nd \<longleftrightarrow> routing_inv (nd_config nd) \<and> ht_inv K (nd_network_map nd) \<and>
     ht_inv F (nd_filepaths nd) \<and>
     holders_ok u (table_abs F (nd_filepaths nd)) \<and> header_text 100 (ae_date (sv_api env)) \<and>
     field_ok UUID_SIZE (sv_last_seen env) \<and> field_ok UUID_SIZE (sv_now env) \<and>
     sv_peer_ip env \<noteq> None \<and> field_ok NAME_SIZE (the (sv_peer_ip env)) \<and>
     length (nc_peers (sv_config_junk env)) = MAX_PEERS"

text \<open>
  The memory for the strings, which the program leaves to chance: the keys stored before end
  somewhere, the variable that is dead when it is read holds a path, and every new block for a
  key has a NUL right behind each of the \<open>paths\<close>.
\<close>

definition memory_ends :: "server_env \<Rightarrow> node \<Rightarrow> string list \<Rightarrow> bool" where
  "memory_ends env nd paths \<longleftrightarrow> files_ok (nd_filepaths nd) \<and> field_ok NAME_SIZE (sv_dead_path env) \<and>
     (\<forall>i. \<forall>k\<in>set paths. ends_after k (sv_ad_blocks env i) \<and> ends_after k (sv_file_blocks env i))"

text \<open>What the receiver keeps of the sender in its network map.\<close>

definition known_config :: "server_env \<Rightarrow> node_config \<Rightarrow> node_config" where
  "known_config env c = (received_config (sv_config_junk env) c)
     \<lparr>nc_last_seen := sv_last_seen env, nc_host := the (sv_peer_ip env)\<rparr>"

lemma known_config_simps [simp]:
  "nc_uuid (known_config env c) = nc_uuid c" "nc_peer_count (known_config env c) = nc_peer_count c"
  by (simp_all add: known_config_def received_config_def)

lemma known_config_ok:
  assumes "receiver_ok K F u env nd" "config_ok c"
  shows "read_ok (known_config env c)"
    "map (\<lambda>p. (pi_uuid p, pi_weight p)) (live_peers (known_config env c)) =
      map (\<lambda>p. (pi_uuid p, pi_weight p)) (live_peers c)"
proof -
  let ?r = "received_config (sv_config_junk env) c"
  have junk: "length (nc_peers (sv_config_junk env)) = MAX_PEERS"
    and ip: "field_ok NAME_SIZE (the (sv_peer_ip env))"
    using assms(1) by (simp_all add: receiver_ok_def)
  note peers = received_peers [OF junk assms(2)]
  have live: "live_peers (known_config env c) = live_peers ?r" "nc_peers (known_config env c) = nc_peers ?r"
    by (simp_all add: known_config_def live_peers_def)
  have fields: "field_ok UUID_SIZE (nc_uuid c)" "field_ok NAME_SIZE (nc_name c)" "is_i32 (nc_frontend_port c)"
    "is_i32 (nc_backend_port c)" "0 \<le> nc_peer_count c" "nc_peer_count c \<le> int MAX_PEERS"
    using assms(2) by (simp_all add: config_ok_def)
  show "read_ok (known_config env c)"
    using peers(1,4) fields ip unfolding read_ok_def live
    by (simp add: known_config_def received_config_def)
  show "map (\<lambda>p. (pi_uuid p, pi_weight p)) (live_peers (known_config env c)) =
      map (\<lambda>p. (pi_uuid p, pi_weight p)) (live_peers c)"
    using peers(3) by (simp add: live)
qed

lemma network_map_entry:
  assumes "ht_inv K m" "table_key K u" "table_key K j"
  shows "hash_table_get (hash_table_update_node_config (update_network_map m u v) u v (length u))
      (key_mem j) (length j) = (if j = u then Some v else hash_table_get m (key_mem j) (length j))"
  using assms ht.inv_replace [OF assms(1,2), of v] ht.inv_put [OF assms(1,2), of v]
  by (cases "hash_table_get m (key_mem u) (length u)")
    (simp_all add: hash_table_update_node_config_def update_network_map_def ht.get_replace ht.get_put)

definition distances_taken :: "node_config \<Rightarrow> node_config \<Rightarrow> node_config \<Rightarrow> bool" where
  "distances_taken c own own' \<longleftrightarrow>
     (\<forall>g p. weights own (nc_uuid c) = Some g \<and> 0 < g \<and> g + pi_weight p \<le> INT_MAX \<and>
       p \<in> set (live_peers c) \<and> pi_uuid p \<noteq> nc_uuid own \<and> pi_uuid p \<noteq> nc_uuid c \<longrightarrow>
       (\<exists>w \<le> g + pi_weight p. weights own' (pi_uuid p) = Some w))"

lemma known_distances:
  assumes "sender_ok K F c files" "receiver_ok K F (nc_uuid c) env nd"
  shows "\<exists>ht own. node_config_to_hashmap (known_config env c) 0 = Some ht \<and>
    update_peer_weights_last_seen (sv_now env) (nd_config nd) ht (known_config env c) = Some own \<and>
    improves (nc_uuid c) (nd_config nd) own \<and>
    (nc_peer_count (nd_config nd) + nc_peer_count c < int MAX_PEERS \<longrightarrow> distances_taken c (nd_config nd) own)"
proof -
  let ?pc = "known_config env c"
  have c: "config_ok c" "\<forall>p\<in>set (live_peers c). table_key K (pi_uuid p)"
    and u: "table_key K (nc_uuid ?pc)" using assms(1) by (auto simp: sender_ok_def)
  have r: "routing_inv (nd_config nd)" "field_ok UUID_SIZE (sv_now env)"
    using assms(2) by (simp_all add: receiver_ok_def)
  note pc = known_config_ok [OF assms(2) c(1)]
  have sub: "\<exists>q\<in>set (live_peers b). pi_uuid q = pi_uuid p \<and> pi_weight q = pi_weight p"
    if "map (\<lambda>p. (pi_uuid p, pi_weight p)) (live_peers a) = map (\<lambda>p. (pi_uuid p, pi_weight p)) (live_peers b)"
      "p \<in> set (live_peers a)" for a b p
    using that by (metis (mono_tags, lifting) imageE image_eqI list.set_map prod.inject)
  have "\<forall>p\<in>set (live_peers ?pc). table_key K (pi_uuid p)" using c(2) sub [OF pc(2)] by metis
  from advertisement_distances [OF r pc(1) u this] obtain ht own where h:
    "node_config_to_hashmap ?pc 0 = Some ht"
    "update_peer_weights_last_seen (sv_now env) (nd_config nd) ht ?pc = Some own"
    "improves (nc_uuid c) (nd_config nd) own"
    "nc_peer_count (nd_config nd) + nc_peer_count c < int MAX_PEERS \<longrightarrow> distances_taken ?pc (nd_config nd) own"
    by (auto simp: distances_taken_def)
  moreover have "distances_taken c (nd_config nd) own" if "distances_taken ?pc (nd_config nd) own"
    unfolding distances_taken_def
  proof (intro allI impI)
    fix g p
    assume a: "weights (nd_config nd) (nc_uuid c) = Some g \<and> 0 < g \<and> g + pi_weight p \<le> INT_MAX \<and>
      p \<in> set (live_peers c) \<and> pi_uuid p \<noteq> nc_uuid (nd_config nd) \<and> pi_uuid p \<noteq> nc_uuid c"
    then obtain q where "q \<in> set (live_peers ?pc)" "pi_uuid q = pi_uuid p" "pi_weight q = pi_weight p"
      using sub [OF pc(2) [symmetric]] by blast
    with a that show "\<exists>w \<le> g + pi_weight p. weights own (pi_uuid p) = Some w"
      unfolding distances_taken_def by (metis known_config_simps(1))
  qed
  ultimately show ?thesis by blast
qed

text \<open>What the handler does to the table \<open>c\<close> with a received configuration.\<close>

definition take_over :: "string \<Rightarrow> node_config \<Rightarrow> node_config \<Rightarrow> node_config option" where
  "take_over now pc c = do {
     ht \<leftarrow> node_config_to_hashmap pc 0;
     update_peer_weights_last_seen now c ht pc }"

text \<open>
  The handler on the text of a sender: what becomes of the configuration, and the steps on the
  file tables, which depend on the memory for their keys.
\<close>

lemma link_state_handled:
  assumes "sender_ok K F c files" "receiver_ok K F (nc_uuid c) env nd"
    and "node_config_to_json c True (Some files) = Some s"
  shows "\<exists>m r own m'. node_config_to_json (nd_config nd) False None = Some r \<and>
    http_body m = Some (''<html><body>'' @ r @ ''</body></html>'' @ crlf) \<and>
    link_state_post env s fd nd = do {
      ads \<leftarrow> files_map_items (sv_ad_blocks env) 0 (map file_member (paths_of files))
        (hash_table_create MAX_HASHTABLE_SIZE);
      files' \<leftarrow> update_files (sv_dead_path env) (sv_file_blocks env) 0 (nc_uuid c) (ht_nodes ads) (nd_filepaths nd);
      _ \<leftarrow> node_config_to_json own True (Some files');
      Some (Answer (nd\<lparr>nd_config := own, nd_network_map := m', nd_filepaths := files'\<rparr>)
        [Tcp (Send fd m), Tcp (CloseFd fd)]) } \<and>
    m' = hash_table_update_node_config (update_network_map (nd_network_map nd) (nc_uuid c)
      (Other (known_config env c))) (nc_uuid c) (Other (known_config env c)) (length (nc_uuid c)) \<and>
    take_over (sv_now env) (known_config env c) (nd_config nd) = Some own \<and>
    improves (nc_uuid c) (nd_config nd) own \<and>
    (nc_peer_count (nd_config nd) + nc_peer_count c < int MAX_PEERS \<longrightarrow> distances_taken c (nd_config nd) own)"
proof -
  let ?pc = "known_config env c" and ?u = "nc_uuid c"
  have c: "config_ok c" "own_files F files" using assms(1) by (simp_all add: sender_ok_def)
  have junk: "length (nc_peers (sv_config_junk env)) = MAX_PEERS" and own: "config_ok (nd_config nd)"
    and time: "length (sv_last_seen env) < UUID_SIZE"
    using assms(2) by (simp_all add: receiver_ok_def routing_inv_def field_ok_def)
  have ads: "json_to_node_config (sv_config_junk env) s = Some (Some (received_config (sv_config_junk env) c))"
    "json_to_files_map (sv_ad_blocks env) s = map_option Some (files_map_items (sv_ad_blocks env) 0
      (map file_member (paths_of files)) (hash_table_create MAX_HASHTABLE_SIZE))"
    using advertisement_read [OF c(1) junk c(2), of True] assms(3) by auto
  obtain ht own' where ht: "node_config_to_hashmap ?pc 0 = Some ht"
    "update_peer_weights_last_seen (sv_now env) (nd_config nd) ht ?pc = Some own'" "improves ?u (nd_config nd) own'"
    "nc_peer_count (nd_config nd) + nc_peer_count c < int MAX_PEERS \<longrightarrow> distances_taken c (nd_config nd) own'"
    using known_distances [OF assms(1,2)] by blast
  have over: "take_over (sv_now env) ?pc (nd_config nd) = Some own'" using ht(1,2) by (simp add: take_over_def)
  obtain reply where reply: "node_config_to_json (nd_config nd) False None = Some reply" "length reply < 261900"
    using config_text_length [OF own] by blast
  obtain m where m: "send_str (ae_date (sv_api env)) fd (Some reply) = Some [Send fd m, CloseFd fd]"
    "http_body m = Some (''<html><body>'' @ reply @ ''</body></html>'' @ crlf)"
    using send_str_ok [of "ae_date (sv_api env)" reply fd] reply(2) assms(2) by (auto simp: receiver_ok_def)
  obtain ip where ip: "sv_peer_ip env = Some ip" "length ip < NAME_SIZE"
    using assms(2) by (auto simp: receiver_ok_def field_ok_def)
  have known: "(received_config (sv_config_junk env) c)\<lparr>nc_last_seen := sv_last_seen env, nc_host := ip\<rparr> = ?pc"
    using ip(1) by (simp add: known_config_def)
  have u: "nc_uuid (received_config (sv_config_junk env) c) = ?u" by (simp add: received_config_def)
  have "link_state_post env s fd nd = do {
      ads \<leftarrow> files_map_items (sv_ad_blocks env) 0 (map file_member (paths_of files))
        (hash_table_create MAX_HASHTABLE_SIZE);
      files' \<leftarrow> update_files (sv_dead_path env) (sv_file_blocks env) 0 ?u (ht_nodes ads) (nd_filepaths nd);
      _ \<leftarrow> node_config_to_json own' True (Some files');
      Some (Answer (nd\<lparr>nd_config := own', nd_network_map := hash_table_update_node_config
          (update_network_map (nd_network_map nd) ?u (Other ?pc)) ?u (Other ?pc) (length ?u),
          nd_filepaths := files'\<rparr>) [Tcp (Send fd m), Tcp (CloseFd fd)]) }"
    using ip(2) time
    by (cases "files_map_items (sv_ad_blocks env) 0 (map file_member (paths_of files))
        (hash_table_create MAX_HASHTABLE_SIZE)")
      (simp_all add: link_state_post_def ads update_peer_to_files_map_def answer_def Let_def u ip(1) known
        reply(1) m(1) ht(1,2) strcpy_buf_def fits_def)
  then show ?thesis
    using reply(1) m(2) ht(3,4) over
    by (intro exI [of _ m] exI [of _ reply] exI [of _ own'] exI conjI) (assumption | rule refl)+
qed

text \<open>The same for the request as it arrives.\<close>

lemma exchange_handled:
  assumes "sender_ok K F c files" "receiver_ok K F (nc_uuid c) env nd"
    and "link_state_request c peer files = Some req" "cstring (pi_host peer)" "CR \<notin> set (pi_host peer)"
  shows "\<exists>m r own m'. node_config_to_json (nd_config nd) False None = Some r \<and>
    http_body m = Some (''<html><body>'' @ r @ ''</body></html>'' @ crlf) \<and>
    child_routine env (Some req) fd nd = do {
      ads \<leftarrow> files_map_items (sv_ad_blocks env) 0 (map file_member (paths_of files))
        (hash_table_create MAX_HASHTABLE_SIZE);
      files' \<leftarrow> update_files (sv_dead_path env) (sv_file_blocks env) 0 (nc_uuid c) (ht_nodes ads) (nd_filepaths nd);
      _ \<leftarrow> node_config_to_json own True (Some files');
      Some (Answer (nd\<lparr>nd_config := own, nd_network_map := m', nd_filepaths := files'\<rparr>)
        [Tcp (Send fd m), Tcp (CloseFd fd)]) } \<and>
    (\<forall>j. table_key K j \<longrightarrow> hash_table_get m' (key_mem j) (length j) =
      (if j = nc_uuid c then Some (Other (known_config env c))
       else hash_table_get (nd_network_map nd) (key_mem j) (length j))) \<and>
    take_over (sv_now env) (known_config env c) (nd_config nd) = Some own \<and>
    improves (nc_uuid c) (nd_config nd) own \<and> config_ok own \<and>
    (nc_peer_count (nd_config nd) + nc_peer_count c < int MAX_PEERS \<longrightarrow> distances_taken c (nd_config nd) own)"
proof -
  have c: "config_ok c" "table_key K (nc_uuid c)" "files_ok files"
    using assms(1) own_files_ok by (auto simp: sender_ok_def)
  obtain s where s: "node_config_to_json c True (Some files) = Some s" "cstring s"
    using node_config_sent [OF c(1), of c "Some files" True] c(3) config_okD(1) [OF c(1)] by auto
  have map: "ht_inv K (nd_network_map nd)" using assms(2) by (simp add: receiver_ok_def)
  have "child_routine env (Some req) fd nd = link_state_post env s fd nd"
    by (rule link_state_dispatch [OF assms(3) s assms(4,5)])
  moreover note network_map_entry [OF map c(2), of _ "Other (known_config env c)"]
  moreover have "config_ok own" if "improves u (nd_config nd) own" for u own
    using that by (auto simp: improves_def routing_inv_def)
  moreover note link_state_handled [OF assms(1,2) s(1), of fd]
  ultimately show ?thesis by (elim exE conjE) (intro exI conjI, (assumption | simp)+)
qed

text \<open>Where the memory ends the keys, the steps on the tables succeed.\<close>

lemma files_taken_over:
  assumes "sender_ok K F c files" "receiver_ok K F (nc_uuid c) env nd" "memory_ends env nd (paths_of files)"
    and "config_ok own"
  shows "\<exists>ads files' t. files_map_items (sv_ad_blocks env) 0 (map file_member (paths_of files))
      (hash_table_create MAX_HASHTABLE_SIZE) = Some ads \<and>
    update_files (sv_dead_path env) (sv_file_blocks env) 0 (nc_uuid c) (ht_nodes ads) (nd_filepaths nd) = Some files' \<and>
    node_config_to_json own True (Some files') = Some t \<and>
    (\<forall>k\<in>set (paths_of files). held_by (nc_uuid c) (table_abs F files') k) \<and>
    (\<forall>k. k \<notin> set (paths_of files) \<longrightarrow> table_abs F files' k = table_abs F (nd_filepaths nd) k)"
proof -
  let ?u = "nc_uuid c"
  have c: "table_key K ?u" "own_files F files" using assms(1) by (simp_all add: sender_ok_def)
  have mem: "\<forall>i. \<forall>k\<in>set (paths_of files). ends_after k (sv_ad_blocks env i)"
    "\<forall>i. \<forall>k\<in>set (paths_of files). ends_after k (sv_file_blocks env i)"
    "field_ok NAME_SIZE (sv_dead_path env)" "files_ok (nd_filepaths nd)"
    using assms(3) by (simp_all add: memory_ends_def)
  obtain ads where ads: "files_map_items (sv_ad_blocks env) 0 (map file_member (paths_of files))
      (hash_table_create MAX_HASHTABLE_SIZE) = Some ads" "file_keys F ads"
    "set (paths_of ads) = set (paths_of files)"
    using advertised_files [OF c(2) mem(1)] by blast
  have keys: "\<forall>nd\<in>set (ht_nodes ads). key_cstr (node_key nd) = Some (c_str (node_key nd)) \<and>
      table_key F (c_str (node_key nd)) \<and> length (c_str (node_key nd)) < 128"
    using ads(2) by (auto simp: file_keys_def key_cstr_def)
  have dead: "length (sv_dead_path env) < 256" "cstring (sv_dead_path env)"
    using mem(3) by (simp_all add: field_ok_def)
  have inv: "ht_inv F (nd_filepaths nd)" "holders_ok ?u (table_abs F (nd_filepaths nd))"
    using assms(2) by (simp_all add: receiver_ok_def)
  obtain files' where f: "update_files (sv_dead_path env) (sv_file_blocks env) 0 ?u (ht_nodes ads)
      (nd_filepaths nd) = Some files'"
    "\<forall>nd\<in>set (ht_nodes ads). held_by ?u (table_abs F files') (c_str (node_key nd))"
    "\<forall>k. k \<notin> (\<lambda>nd. c_str (node_key nd)) ` set (ht_nodes ads) \<longrightarrow>
      table_abs F files' k = table_abs F (nd_filepaths nd) k"
    using update_files_abs [OF keys dead(1) table_key_ne [OF c(1)] inv] by blast
  have paths: "(\<lambda>nd. c_str (node_key nd)) ` set (ht_nodes ads) = set (paths_of files)"
    using ads(3) by (simp add: paths_of_def)
  have "c_str (node_key nd) \<in> set (paths_of files)" if "nd \<in> set (ht_nodes ads)" for nd
    unfolding paths [symmetric] using that by blast
  then have "files_ok files'"
    using mem(2) keys table_key_ne by (intro update_files_ok [OF f(1) mem(4) dead(2)]) blast
  then obtain t where t: "node_config_to_json own True (Some files') = Some t"
    using node_config_sent [OF assms(4) config_okD(1) [OF assms(4)], of "Some files'" True] by blast
  moreover have "\<forall>k\<in>set (paths_of files). held_by ?u (table_abs F files') k"
    using f(2) unfolding paths [symmetric] by blast
  moreover have "\<forall>k. k \<notin> set (paths_of files) \<longrightarrow> table_abs F files' k = table_abs F (nd_filepaths nd) k"
    using f(3) unfolding paths by blast
  ultimately show ?thesis using ads(1) f(1) by blast
qed

text \<open>Where the blocks hold no NUL at all, the keys have no end and the copies run on.\<close>

lemma files_map_items_endless:
  assumes "\<forall>k\<in>set ks. table_key F k \<and> length k < 128" "\<forall>i. NUL \<notin> set (blocks i)"
    and "\<forall>k\<in>set ks. cstring k"
    and "files_map_items blocks i (map file_member ks) ht = Some ht'"
    and "ht_inv F ht" "\<forall>nd\<in>set (ht_nodes ht). NUL \<notin> set (node_key nd)" "ks \<noteq> [] \<or> ht_nodes ht \<noteq> []"
  shows "ht_nodes ht' \<noteq> [] \<and> (\<forall>nd\<in>set (ht_nodes ht'). NUL \<notin> set (node_key nd))"
  using assms
proof (induction ks arbitrary: i ht)
  case (Cons k ks)
  have k: "table_key F k" "length k \<le> 256" "cstring k" using Cons.prems(1,3) by auto
  have "cJSON_GetObjectItem (JObject [(''path'', JString k)]) ''path'' = Some (JString k)"
    by (simp add: cJSON_GetObjectItem_def case_insensitive_eq_def tolower_def uchar_def)
  then obtain ht1 where 1: "hash_table_put_str ht (key_mem k) () (length k) (blocks i) = Some ht1"
    "files_map_items blocks (Suc i) (map file_member ks) ht1 = Some ht'"
    using Cons.prems(4) by (auto simp: file_member_def [of k] bind_Some_iff split: if_splits)
  have inv: "ht_inv F ht1" "table_abs F ht1 = (table_abs F ht)(k \<mapsto> ())"
    using put_str_abs [OF Cons.prems(5) k(1,2), of "()" "blocks i"] 1(1) by auto
  then have "hash_table_get ht1 (key_mem k) (length k) = Some ()" using table_abs_get [OF k(1), of ht1] by simp
  then have ne: "ht_nodes ht1 \<noteq> []" using get_in_nodes [OF inv(1)] by fastforce
  have "key_size (length k) = length k" "take (length k) (key_mem k) = k"
    using table_key_ne [OF k(1)] by (simp_all add: key_size_def key_mem_def)
  moreover have "NUL \<notin> set (drop (length k) (blocks i))" using Cons.prems(2) by (meson in_set_dropD)
  ultimately have "NUL \<notin> set (node_key nd)" if "nd \<in> set (ht_nodes ht1)" for nd
    using put_str_nodes [OF 1(1) that] Cons.prems(6) k(3) by (auto simp: cstring_def)
  then show ?case using Cons.IH [OF _ Cons.prems(2) _ 1(2) inv(1)] Cons.prems(1,3) ne by auto
qed simp

lemma advertisement_endless:
  assumes "own_files F files" "paths_of files \<noteq> []" "\<forall>i. NUL \<notin> set (blocks i)"
    and "files_map_items blocks 0 (map file_member (paths_of files)) (hash_table_create MAX_HASHTABLE_SIZE) = Some ads"
  shows "update_files dead fblocks 0 u (ht_nodes ads) files0 = None"
proof -
  have "ht_nodes (hash_table_create MAX_HASHTABLE_SIZE :: unit hash_table) = []"
    by (simp add: ht_nodes_def hash_table_create_def)
  then have "ht_nodes ads \<noteq> [] \<and> (\<forall>nd\<in>set (ht_nodes ads). NUL \<notin> set (node_key nd))"
    using own_path [OF assms(1)] assms(2,3)
    by (intro files_map_items_endless [OF _ _ _ assms(4) ht.inv_empty]) auto
  then show ?thesis by (cases "ht_nodes ads") (simp_all add: key_cstr_def)
qed

text \<open>
  C14. The advertisement that one node sends and another handles. Whatever the memory for the
  strings held, a handler that runs into no undefined behaviour answers with its own
  configuration; its network map refers to the sender's configuration (with the time and the
  address of the connection) and to every other node as before; no distance of the receiver
  grows, and each peer of the sender is at most as far as the sender plus its distance there,
  when the table has room. The keys of the file tables are copied without their NUL: where the
  memory happens to hold a NUL right behind every advertised path, and the dead variable a path,
  the handler does answer, every file of the sender is known and held by the sender, and the
  entries of other files stay; where the blocks hold no NUL, an advertised file makes it
  undefined. The uuids and the paths are taken as keys of which none is a prefix of another, and
  the paths of the sender as shorter than 128 bytes and ended in its own table.
\<close>

theorem link_state_exchange:
  assumes "sender_ok K F c files" "receiver_ok K F (nc_uuid c) env nd"
    and "link_state_request c peer files = Some req" "cstring (pi_host peer)" "CR \<notin> set (pi_host peer)"
  shows "(child_routine env (Some req) fd nd \<noteq> None \<longrightarrow>
      (\<exists>nd' m r. child_routine env (Some req) fd nd = Some (Answer nd' [Tcp (Send fd m), Tcp (CloseFd fd)]) \<and>
        node_config_to_json (nd_config nd) False None = Some r \<and>
        http_body m = Some (''<html><body>'' @ r @ ''</body></html>'' @ crlf) \<and>
        (\<forall>j. table_key K j \<longrightarrow> hash_table_get (nd_network_map nd') (key_mem j) (length j) =
          (if j = nc_uuid c then Some (Other (known_config env c))
           else hash_table_get (nd_network_map nd) (key_mem j) (length j))) \<and>
        improves (nc_uuid c) (nd_config nd) (nd_config nd') \<and>
        (nc_peer_count (nd_config nd) + nc_peer_count c < int MAX_PEERS \<longrightarrow>
          distances_taken c (nd_config nd) (nd_config nd')))) \<and>
    (memory_ends env nd (paths_of files) \<longrightarrow>
      (\<exists>nd' acts. child_routine env (Some req) fd nd = Some (Answer nd' acts) \<and>
        (\<forall>k\<in>set (paths_of files). held_by (nc_uuid c) (table_abs F (nd_filepaths nd')) k) \<and>
        (\<forall>k. k \<notin> set (paths_of files) \<longrightarrow>
          table_abs F (nd_filepaths nd') k = table_abs F (nd_filepaths nd) k))) \<and>
    (paths_of files \<noteq> [] \<and> (\<forall>i. NUL \<notin> set (sv_ad_blocks env i)) \<longrightarrow> child_routine env (Some req) fd nd = None)"
proof -
  obtain m r own m' where h: "node_config_to_json (nd_config nd) False None = Some r"
    "http_body m = Some (''<html><body>'' @ r @ ''</body></html>'' @ crlf)"
    "child_routine env (Some req) fd nd = do {
      ads \<leftarrow> files_map_items (sv_ad_blocks env) 0 (map file_member (paths_of files))
        (hash_table_create MAX_HASHTABLE_SIZE);
      files' \<leftarrow> update_files (sv_dead_path env) (sv_file_blocks env) 0 (nc_uuid c) (ht_nodes ads) (nd_filepaths nd);
      _ \<leftarrow> node_config_to_json own True (Some files');
      Some (Answer (nd\<lparr>nd_config := own, nd_network_map := m', nd_filepaths := files'\<rparr>)
        [Tcp (Send fd m), Tcp (CloseFd fd)]) }"
    "\<forall>j. table_key K j \<longrightarrow> hash_table_get m' (key_mem j) (length j) =
      (if j = nc_uuid c then Some (Other (known_config env c))
       else hash_table_get (nd_network_map nd) (key_mem j) (length j))"
    "improves (nc_uuid c) (nd_config nd) own" "config_ok own"
    "nc_peer_count (nd_config nd) + nc_peer_count c < int MAX_PEERS \<longrightarrow> distances_taken c (nd_config nd) own"
    using exchange_handled [OF assms, of fd] by blast
  show ?thesis
  proof (intro conjI impI, goal_cases)
    case 1
    then obtain files' where "child_routine env (Some req) fd nd = Some (Answer
        (nd\<lparr>nd_config := own, nd_network_map := m', nd_filepaths := files'\<rparr>)
        [Tcp (Send fd m), Tcp (CloseFd fd)])"
      unfolding h(3) by (auto simp: bind_eq_None_conv)
    with h(1,2,4,5,7) show ?case by (intro exI conjI) (assumption | simp)+
  next
    case 2
    from files_taken_over [OF assms(1,2) this h(6)] show ?case by (auto simp: h(3))
  next
    case 3
    have "own_files F files" using assms(1) by (simp add: sender_ok_def)
    with advertisement_endless [OF _ conjunct1 [OF 3] conjunct2 [OF 3]] show ?case
      by (cases "files_map_items (sv_ad_blocks env) 0 (map file_member (paths_of files))
        (hash_table_create MAX_HASHTABLE_SIZE)") (simp_all add: h(3))
  qed
qed

definition sample_sender :: node_config where
  "sample_sender = with_peer (global_config_init\<lparr>nc_uuid := ''n1''\<rparr>) (new_peer ''n2'' ''far'' 8082 8083 7)"

definition sample_files :: "file_info hash_table" where
  "sample_files = \<lparr>ht_size = 1, ht_buckets =
     [[\<lparr>node_key = ''content/a'' @ [NUL], node_value = \<lparr>fi_path = ''content/a'', fi_peers = None\<rparr>\<rparr>]]\<rparr>"

definition sample_receiver :: node where
  "sample_receiver = sample_node
     \<lparr>nd_config := with_peer global_config_init (new_peer ''n1'' ''near'' 8080 8081 3),
      nd_filepaths := hash_table_create MAX_HASHTABLE_SIZE\<rparr>"

definition sample_server :: server_env where
  "sample_server =
     \<lparr>sv_api = sample_env, sv_last_seen = ''2023-05-01'', sv_now = ''2023-05-01'',
      sv_peer_ip = Some ''10.0.0.2'', sv_config_junk = global_config_init, sv_dead_path = [],
      sv_ad_blocks = (\<lambda>_. replicate 256 NUL), sv_file_blocks = (\<lambda>_. replicate 256 NUL)\<rparr>"

lemma sample_peer_ok: "u \<in> {''n1'', ''n2''} \<Longrightarrow> h \<in> {''far'', ''near''} \<Longrightarrow> is_i32 f \<Longrightarrow> is_i32 b \<Longrightarrow> is_i32 w \<Longrightarrow>
    peer_ok (new_peer u h f b w)"
  by (auto simp: peer_ok_def new_peer_def field_ok_def)

lemma sample_config_ok: "config_ok (global_config_init\<lparr>nc_uuid := ''n1''\<rparr>)"
  using global_config_init_ok by (simp add: config_ok_def field_ok_def)

lemma sample_sender_live:
  "config_ok sample_sender" "live_peers sample_sender = [new_peer ''n2'' ''far'' 8082 8083 7]"
  "nc_uuid sample_sender = ''n1''" "nc_peer_count sample_sender = 1"
proof -
  have i: "is_i32 8082" "is_i32 8083" "is_i32 7" by (simp_all add: is_i32_def INT_MAX_def INT_MIN_def)
  have "config_ok sample_sender \<and> live_peers sample_sender =
      live_peers (global_config_init\<lparr>nc_uuid := ''n1''\<rparr>) @ [new_peer ''n2'' ''far'' 8082 8083 7]"
    unfolding sample_sender_def
    by (rule with_peer_live [OF sample_config_ok])
      (use sample_peer_ok i in \<open>simp_all add: global_config_init_simps MAX_PEERS_def\<close>)
  then show "config_ok sample_sender" "live_peers sample_sender = [new_peer ''n2'' ''far'' 8082 8083 7]"
    by (simp_all add: live_peers_def global_config_init_simps)
  show "nc_uuid sample_sender = ''n1''" "nc_peer_count sample_sender = 1"
    by (simp_all add: sample_sender_def with_peer_def global_config_init_simps)
qed

lemma sample_receiver_live:
  "routing_inv (nd_config sample_receiver)" "weights (nd_config sample_receiver) = [''n1'' \<mapsto> 3]"
  "nc_uuid (nd_config sample_receiver) = ''uuid''" "nc_peer_count (nd_config sample_receiver) = 1"
proof -
  have i: "is_i32 8080" "is_i32 8081" "is_i32 3" by (simp_all add: is_i32_def INT_MAX_def INT_MIN_def)
  have "config_ok (nd_config sample_receiver) \<and> live_peers (nd_config sample_receiver) =
      live_peers global_config_init @ [new_peer ''n1'' ''near'' 8080 8081 3]"
    unfolding sample_receiver_def node.simps
    using with_peer_live [OF global_config_init_ok, of "new_peer ''n1'' ''near'' 8080 8081 3"] sample_peer_ok i
    by (simp add: global_config_init_simps MAX_PEERS_def)
  then show "routing_inv (nd_config sample_receiver)" "weights (nd_config sample_receiver) = [''n1'' \<mapsto> 3]"
    "nc_uuid (nd_config sample_receiver) = ''uuid''" "nc_peer_count (nd_config sample_receiver) = 1"
    by (simp_all add: routing_inv_def weights_def global_config_init_simps new_peer_def sample_receiver_def
        with_peer_def)
qed

lemma sample_keys: "table_key {''n1'', ''n2''} ''n1''" "table_key {''n1'', ''n2''} ''n2''"
  "table_key {''content/a''} ''content/a''"
  by (simp_all add: table_key_def prefix_free_def)

lemma sample_sender_ok: "sender_ok {''n1'', ''n2''} {''content/a''} sample_sender sample_files"
proof -
  have c: "c_str (''content/a'' @ [NUL]) = ''content/a''" by (simp add: c_str_def)
  have "ht_inv {''content/a''} sample_files"
    by (simp add: ht_inv_def sample_files_def chain_inv_def)
  then have "own_files {''content/a''} sample_files"
    using sample_keys(3) c by (simp add: own_files_def file_keys_def sample_files_def ht_nodes_def)
  then show ?thesis using sample_sender_live sample_keys by (simp add: sender_ok_def new_peer_def)
qed

lemma sample_receiver_ok: "receiver_ok {''n1'', ''n2''} {''content/a''} ''n1'' sample_server sample_receiver"
proof -
  have "table_abs {''content/a''} (hash_table_create MAX_HASHTABLE_SIZE :: file_info hash_table) k = None" for k
    by (auto simp: table_abs_def ht_get_create MAX_HASHTABLE_SIZE_def)
  then have "holders_ok ''n1'' (table_abs {''content/a''} (hash_table_create MAX_HASHTABLE_SIZE))"
    by (simp add: holders_ok_def)
  moreover have "ht_inv {''n1'', ''n2''} (nd_network_map sample_receiver)"
    by (simp add: sample_receiver_def sample_node_def ht_inv_create)
  moreover have "nd_filepaths sample_receiver = hash_table_create MAX_HASHTABLE_SIZE"
    by (simp add: sample_receiver_def)
  moreover have "header_text 100 (ae_date sample_env)" using sample_env_ok by (simp add: env_ok_def)
  ultimately show ?thesis
    using sample_receiver_live(1) global_config_init_simps(4)
    by (simp add: receiver_ok_def ht.inv_empty sample_server_def field_ok_def)
qed

lemma sample_memory: "memory_ends sample_server sample_receiver (paths_of sample_files)"
proof -
  have "paths_of sample_files = [''content/a'']"
    by (simp add: paths_of_def sample_files_def ht_nodes_def c_str_def)
  then show ?thesis
    by (simp add: memory_ends_def ends_after_def files_ok_def field_ok_def sample_server_def
        sample_receiver_def ht_nodes_def hash_table_create_def)
qed

lemma sample_request:
  assumes "length (pi_host p) < 80" "is_i32 (pi_frontend_port p)"
  shows "\<exists>req. link_state_request sample_sender p sample_files = Some req"
proof -
  have c: "c_str (''content/a'' @ [NUL]) = ''content/a''" by (simp add: c_str_def)
  have f: "files_ok sample_files" using sample_sender_ok own_files_ok by (auto simp: sender_ok_def)
  obtain s where s: "node_config_to_json sample_sender True (Some sample_files) = Some s"
    using node_config_sent [OF sample_sender_live(1), of sample_sender "Some sample_files" True] f
      config_okD(1) [OF sample_sender_live(1)] by auto
  have m: "file_map_to_json sample_files =
      Some (JObject [(''content/a'', JObject [(''path'', JString ''content/a'')])])"
    using file_map_to_json_members [OF f] c by (simp add: sample_files_def ht_nodes_def)
  have p: "print_value True 0 (JObject [(''uuid'', JString ''n1''), (''last_seen'', JString []),
     (''name'', JString ''name''), (''frontend_port'', JNumber 8080), (''backend_port'', JNumber 8081),
     (''content_dir'', JString ''content/''), (''peer_count'', JNumber 1),
     (''peers'', JArray [peer_obj (new_peer ''n2'' ''far'' 8082 8083 7)]),
     (''file_map'', JObject [(''content/a'', JObject [(''path'', JString ''content/a'')])])]) = Some s"
    using s sample_sender_live(1,2) m
    by (simp add: node_config_to_json_def peers_read_ok config_obj_members cJSON_Print_def
        sample_sender_def with_peer_def global_config_init_def del: print_value.simps)
  have r: "is_i32 8080" "is_i32 8081" "is_i32 8082" "is_i32 8083" "is_i32 7" "is_i32 1" "is_i32 0"
    by (simp_all add: is_i32_def INT_MAX_def INT_MIN_def)
  have n: "num_int 8080 = 8080" "num_int 8081 = 8081" "num_int 8082 = 8082" "num_int 8083 = 8083"
    "num_int 7 = 7" "num_int 1 = 1"
    using r(1-6) [THEN num_int_of_int] by simp_all
  have "length s < 3900"
    using p length_print_string [of "''uuid''"] length_print_string [of "''n1''"]
      length_print_string [of "''last_seen''"] length_print_string [of "''name''"]
      length_print_string [of "''frontend_port''"] length_print_string [of "''backend_port''"]
      length_print_string [of "''content_dir''"] length_print_string [of "''content/''"]
      length_print_string [of "''peer_count''"] length_print_string [of "''peers''"]
      length_print_string [of "''n2''"] length_print_string [of "''far''"] length_print_string [of "''host''"]
      length_print_string [of "''weight''"] length_print_string [of "''file_map''"]
      length_print_string [of "''path''"] length_print_string [of "''content/a''"]
      length_print_string [of "[]"] r [THEN length_show_int]
    by (auto simp: peer_obj_members new_peer_def print_number_def n)
  then have "length (show_int (i32 (int (length s)))) \<le> 11" by (simp add: length_show_int i32_range)
  with s \<open>length s < 3900\<close> length_show_int [OF assms(2)] assms(1) show ?thesis
    by (simp add: link_state_request_def crlf_def)
qed

lemma link_state_exchange_witness:
  "\<exists>req nd' m w. link_state_request sample_sender zero_peer sample_files = Some req \<and>
    child_routine sample_server (Some req) 5 sample_receiver =
      Some (Answer nd' [Tcp (Send 5 m), Tcp (CloseFd 5)]) \<and>
    held_by ''n1'' (table_abs {''content/a''} (nd_filepaths nd')) ''content/a'' \<and>
    weights (nd_config nd') ''n2'' = Some w \<and> w \<le> 10"
proof -
  obtain req where req: "link_state_request sample_sender zero_peer sample_files = Some req"
    using sample_request [of zero_peer] by (auto simp: zero_peer_def is_i32_def INT_MAX_def INT_MIN_def)
  have u: "nc_uuid sample_sender = ''n1''" "nc_uuid (nd_config sample_receiver) = ''uuid''"
    using sample_sender_live(3) sample_receiver_live(3) .
  have "receiver_ok {''n1'', ''n2''} {''content/a''} (nc_uuid sample_sender) sample_server sample_receiver"
    using sample_receiver_ok u(1) by simp
  note exchange = link_state_exchange [OF sample_sender_ok this req, of 5]
  have host: "cstring (pi_host zero_peer)" "CR \<notin> set (pi_host zero_peer)" by (simp_all add: zero_peer_def)
  obtain nd1 acts where 1: "child_routine sample_server (Some req) 5 sample_receiver = Some (Answer nd1 acts)"
    "\<forall>k\<in>set (paths_of sample_files). held_by ''n1'' (table_abs {''content/a''} (nd_filepaths nd1)) k"
    using mp [OF conjunct1 [OF conjunct2 [OF exchange [OF host]]] sample_memory] u(1) by auto
  obtain nd' m where x:
    "child_routine sample_server (Some req) 5 sample_receiver =
      Some (Answer nd' [Tcp (Send 5 m), Tcp (CloseFd 5)])"
    "distances_taken sample_sender (nd_config sample_receiver) (nd_config nd')"
    using conjunct1 [OF exchange [OF host]] sample_sender_live(4) sample_receiver_live(4) 1(1)
    by (auto simp: MAX_PEERS_def)
  have same: "nd' = nd1" using x(1) 1(1) by simp
  have "''content/a'' \<in> set (paths_of sample_files)"
    by (simp add: paths_of_def sample_files_def ht_nodes_def c_str_def)
  with 1(2) have "held_by ''n1'' (table_abs {''content/a''} (nd_filepaths nd')) ''content/a''"
    unfolding same by blast
  moreover have "\<exists>w\<le>3 + 7. weights (nd_config nd') ''n2'' = Some w"
    using x(2) sample_sender_live(2) sample_receiver_live(2) u
    unfolding distances_taken_def by (auto simp: new_peer_def INT_MAX_def)
  ultimately show ?thesis using req x(1) by auto
qed

end
