(* ===== verification/Invariant.thy ===== *)
theory Invariant
  imports Exchange
begin

text \<open>
  What every request keeps: the configuration of the node stays well-formed, lists each node
  once and keeps its uuid, whatever bytes arrive on a connection.
\<close>

definition conf_inv :: "node_config \<Rightarrow> bool" where
  "conf_inv c \<longleftrightarrow> config_ok c \<and> distinct (peer_uuids c)"

subsection \<open>What the parser returns\<close>

text \<open>Strings of a parsed value are C strings.\<close>

fun json_strings :: "cJSON \<Rightarrow> bool" where
  "json_strings (JString s) \<longleftrightarrow> cstring s"
| "json_strings (JArray vs) \<longleftrightarrow> (\<forall>v\<in>set vs. json_strings v)"
| "json_strings (JObject ms) \<longleftrightarrow> (\<forall>(k, v)\<in>set ms. json_strings v)"
| "json_strings _ \<longleftrightarrow> True"

lemma parse_string_cstring: "parse_string s = Some (v, r) \<Longrightarrow> cstring v"
  by (auto simp: parse_string_def split: list.splits if_splits option.splits)

lemma parse_number_strings: "parse_number s = Some (v, r) \<Longrightarrow> json_strings v"
  by (auto simp: parse_number_def Let_def split: option.splits)

lemma parsed_strings:
  "parse_value n d s = Some (v, r) \<Longrightarrow> json_strings v"
  "parse_elems n d s = Some (vs, r) \<Longrightarrow> \<forall>v\<in>set vs. json_strings v"
  "parse_members n d s = Some (ms, r) \<Longrightarrow> \<forall>(k, v)\<in>set ms. json_strings v"
proof (induction n d s and n d s and n d s arbitrary: v r and vs r and ms r
    rule: parse_value_parse_elems_parse_members.induct)
  case (2 n d s)
  then show ?case
    by (auto simp: Let_def parse_string_cstring parse_number_strings split: if_splits list.splits)
next
  case (4 n d s)
  then show ?case by (auto split: option.splits list.splits if_splits)
next
  case (6 n d s)
  then show ?case by (fastforce split: option.splits list.splits if_splits)
qed simp_all

lemma cJSON_Parse_strings: "cJSON_Parse s = Some j \<Longrightarrow> json_strings j"
  by (auto simp: cJSON_Parse_def Let_def simp del: parse_value.simps dest: parsed_strings(1))

lemma json_children_strings: "json_strings j \<Longrightarrow> (k, v) \<in> set (json_children j) \<Longrightarrow> json_strings v"
  by (cases j) auto

lemma object_item_strings: "json_strings j \<Longrightarrow> cJSON_GetObjectItem j name = Some v \<Longrightarrow> json_strings v"
proof -
  have "json_find name ms = Some v \<Longrightarrow> \<exists>k. (k, v) \<in> set ms" for ms
    by (induction ms) (auto split: option.splits if_splits)
  then show "json_strings j \<Longrightarrow> cJSON_GetObjectItem j name = Some v \<Longrightarrow> json_strings v"
    unfolding cJSON_GetObjectItem_def using json_children_strings by blast
qed

lemma num_int_i32: "is_i32 (num_int q)"
proof -
  have "\<lfloor>q\<rfloor> \<le> INT_MAX" if "\<not> of_int INT_MAX \<le> q" for q :: rat
    using that by (simp add: floor_le_iff)
  moreover have "\<lfloor>- q\<rfloor> \<le> - INT_MIN" if "\<not> q \<le> of_int INT_MIN"
    using that by (simp add: floor_le_iff)
  moreover have "- \<lfloor>- q\<rfloor> \<le> INT_MAX" if "q < 0"
  proof -
    from that have "0 \<le> \<lfloor>- q\<rfloor>" by simp
    then show ?thesis unfolding INT_MAX_def by linarith
  qed
  moreover have "\<not> q < 0 \<Longrightarrow> 0 \<le> \<lfloor>q\<rfloor>" by simp
  ultimately show ?thesis
    by (cases "q < 0") (auto simp: num_int_def is_i32_def INT_MAX_def INT_MIN_def)
qed

lemma str_field_cstring:
  assumes "str_field n (cJSON_GetObjectItem j name) old = Some s" "json_strings j" "cstring old"
  shows "cstring s"
proof (cases "Option.bind (cJSON_GetObjectItem j name) json_valuestring")
  case None
  with assms(1,3) show ?thesis by (auto simp: str_field_def split: option.splits)
next
  case (Some t)
  then obtain v where v: "cJSON_GetObjectItem j name = Some v" "v = JString t"
    by (auto simp: bind_Some_iff elim: json_valuestring.elims)
  with object_item_strings [OF assms(2) v(1)] assms(1) show ?thesis by (auto simp: str_field_def)
qed

lemma int_field_ok: "is_i32 old \<Longrightarrow> is_i32 (int_field item old)"
proof -
  have "is_i32 (json_valueint v)" for v
    by (cases v) (auto simp: num_int_i32, simp_all add: is_i32_def INT_MAX_def INT_MIN_def)
  then show "is_i32 old \<Longrightarrow> is_i32 (int_field item old)"
    by (auto simp: int_field_def split: option.split)
qed

text \<open>
  What holds of the memory for a configuration by its type alone: a field that is read is a C
  string, whatever its length, and a number has 32 bits.
\<close>

definition entry_typed :: "peer_info \<Rightarrow> bool" where
  "entry_typed p \<longleftrightarrow> cstring (pi_uuid p) \<and> cstring (pi_name p) \<and> cstring (pi_host p) \<and>
     is_i32 (pi_frontend_port p) \<and> is_i32 (pi_backend_port p) \<and> is_i32 (pi_weight p)"

definition config_typed :: "node_config \<Rightarrow> bool" where
  "config_typed c \<longleftrightarrow> cstring (nc_uuid c) \<and> cstring (nc_name c) \<and> cstring (nc_host c) \<and>
     is_i32 (nc_frontend_port c) \<and> is_i32 (nc_backend_port c) \<and> (\<forall>p\<in>set (nc_peers c). entry_typed p)"

lemma keeps_weights_typed: "keeps_weights entry_typed"
  by (simp add: keeps_weights_def entry_typed_def)

lemma peer_ok_typed: "peer_ok p \<Longrightarrow> entry_typed p"
  by (simp add: peer_ok_def entry_typed_def field_ok_def)

lemma config_ok_typed: "config_ok c \<Longrightarrow> config_typed c"
  using peer_ok_typed by (simp add: config_ok_def config_typed_def field_ok_def)

lemma peer_of_config_typed: "config_typed c \<Longrightarrow> entry_typed (peer_of_config c 0)"
  by (simp add: config_typed_def entry_typed_def peer_of_config_def is_i32_def INT_MAX_def INT_MIN_def)

lemma json_to_peer_typed:
  "json_to_peer old v = Some p \<Longrightarrow> json_strings v \<Longrightarrow> entry_typed old \<Longrightarrow> entry_typed p"
  by (auto simp: json_to_peer_def bind_Some_iff entry_typed_def int_field_ok elim: str_field_cstring)

lemma json_to_peers_typed:
  "json_to_peers olds vs = Some ps \<Longrightarrow> \<forall>v\<in>set vs. json_strings v \<Longrightarrow> \<forall>p\<in>set olds. entry_typed p \<Longrightarrow>
    \<forall>p\<in>set ps. entry_typed p"
  by (induction olds vs arbitrary: ps rule: json_to_peers.induct)
    (auto simp: bind_Some_iff dest: json_to_peer_typed)

lemma json_to_node_config_typed:
  assumes "json_to_node_config init s = Some (Some c)" "config_typed init"
  shows "config_typed c"
proof -
  from assms(1) obtain j where j: "cJSON_Parse s = Some j"
    by (auto simp: json_to_node_config_def split: option.splits)
  note js = cJSON_Parse_strings [OF j]
  have kids: "\<forall>v\<in>set (map snd (json_children peers)). json_strings v"
    if "cJSON_GetObjectItem j ''peers'' = Some peers" for peers
    using json_children_strings [OF object_item_strings [OF js that]] by auto
  have init: "cstring (nc_uuid init)" "cstring (nc_name init)" "cstring (nc_host init)"
    "is_i32 (nc_frontend_port init)" "is_i32 (nc_backend_port init)" "\<forall>p\<in>set (nc_peers init). entry_typed p"
    using assms(2) by (auto simp: config_typed_def)
  show ?thesis
  proof (cases "cJSON_GetObjectItem j ''peers''")
    case None
    with assms(1) j init show ?thesis
      by (auto simp: json_to_node_config_def bind_Some_iff config_typed_def int_field_ok Let_def
          dest: str_field_cstring [OF _ js])
  next
    case (Some peers)
    have ps: "p \<in> set ps \<Longrightarrow> entry_typed p"
      if "json_to_peers (nc_peers init) (map snd (json_children peers)) = Some ps" for p ps
      using json_to_peers_typed [OF that kids [OF Some]] init(6) by blast
    from Some assms(1) j init show ?thesis
      by (auto simp: json_to_node_config_def bind_Some_iff config_typed_def int_field_ok Let_def
          split: if_splits dest: ps str_field_cstring [OF _ js])
  qed
qed

subsection \<open>The distances\<close>

lemma conf_inv_update:
  assumes "conf_inv c" "0 \<le> i" "i < nc_peer_count c" "peer_ok p" "pi_uuid p = pi_uuid (nc_peers c ! nat i)"
  shows "conf_inv (set_peer c i p)"
proof -
  have "pi_uuid p = pi_uuid (live_peers c ! nat i)" using assms(2,3,5) by (simp add: live_peers_nth)
  moreover have "nat i < length (live_peers c)"
    using assms(1,2,3) by (simp add: conf_inv_def length_live_peers)
  ultimately have "peer_uuids (set_peer c i p) = peer_uuids c"
    using assms(2,3) by (simp add: live_set_peer map_update_same)
  with assms(1,4) show ?thesis by (simp add: conf_inv_def set_peer_ok)
qed

lemma set_peer_uuid [simp]: "nc_uuid (set_peer c i p) = nc_uuid c"
  by (simp add: set_peer_def)

lemma peer_in_array: "config_ok c \<Longrightarrow> peer_at c i = Some p \<Longrightarrow> peer_ok p"
  by (auto simp: peer_at_def config_okD(4) split: if_splits)

lemma update_from_node_inv:
  assumes "conf_inv c" "entry_typed q" "update_from_node g v c q = Some (b, c')"
  shows "conf_inv c' \<and> nc_uuid c' = nc_uuid c"
proof (cases "pi_uuid q = nc_uuid c")
  case True
  with assms(1,3) show ?thesis by (simp add: update_from_node_def)
next
  case ne: False
  have ok: "config_ok c" and dist: "distinct (peer_uuids c)" using assms(1) by (simp_all add: conf_inv_def)
  from ok show ?thesis
  proof (cases rule: find_peer_cases [where u = "pi_uuid q"])
    case absent
    show ?thesis
    proof (cases "int MAX_PEERS \<le> nc_peer_count c")
      case True
      with absent ne assms(1,3) show ?thesis by (simp add: update_from_node_def)
    next
      case False
      with absent ne assms(3) obtain old where old: "peer_at c (nc_peer_count c) = Some old"
        "c' = (set_peer c (nc_peer_count c) (old\<lparr>pi_uuid := pi_uuid q, pi_name := pi_name q,
          pi_host := pi_host q, pi_frontend_port := pi_frontend_port q,
          pi_backend_port := pi_backend_port q, pi_weight := i32 (g + pi_weight q)\<rparr>))
          \<lparr>nc_peer_count := nc_peer_count c + 1\<rparr>"
        "length (pi_uuid q) < UUID_SIZE" "length (pi_name q) < NAME_SIZE" "length (pi_host q) < NAME_SIZE"
        by (auto simp: update_from_node_def bind_Some_iff)
      let ?p = "old\<lparr>pi_uuid := pi_uuid q, pi_name := pi_name q, pi_host := pi_host q,
        pi_frontend_port := pi_frontend_port q, pi_backend_port := pi_backend_port q,
        pi_weight := i32 (g + pi_weight q)\<rparr>"
      have p: "peer_ok ?p"
        using peer_in_array [OF ok old(1)] assms(2) old(3-5) i32_range
        by (simp add: peer_ok_def entry_typed_def field_ok_def)
      have "live_peers c' = live_peers c @ [?p]"
        unfolding old(2) using False by (intro live_peers_append ok) simp
      moreover have "config_ok c'"
        using set_peer_ok [OF ok p, of "nc_peer_count c"] False
        by (simp add: old(2) config_ok_def set_peer_def)
      ultimately show ?thesis using absent(2) dist by (simp add: conf_inv_def old(2))
    qed
  next
    case (present i)
    have p: "peer_ok (nc_peers c ! nat i)" using peer_in_array [OF ok present(5)] .
    have "conf_inv (set_peer c i ((nc_peers c ! nat i)\<lparr>pi_weight := i32 w\<rparr>))" for w
      using p present(2,3) by (intro conf_inv_update [OF assms(1)]) (simp_all add: peer_ok_def i32_range)
    with present ne assms(1,3) show ?thesis
      by (auto simp: update_from_node_def Let_def split: if_splits)
  qed
qed

lemma update_from_chain_inv:
  "update_from_chain g v nds c = Some c' \<Longrightarrow> conf_inv c \<Longrightarrow> \<forall>nd\<in>set nds. entry_typed (node_value nd) \<Longrightarrow>
    conf_inv c' \<and> nc_uuid c' = nc_uuid c"
proof (induction nds arbitrary: c)
  case (Cons nd nds)
  from Cons.prems(1) obtain b c1 where 1: "update_from_node g v c (node_value nd) = Some (b, c1)"
    "(if b then Some c1 else update_from_chain g v nds c1) = Some c'"
    by (auto split: option.splits)
  from update_from_node_inv [OF Cons.prems(2) _ 1(1)] Cons.prems(3)
  have "conf_inv c1 \<and> nc_uuid c1 = nc_uuid c" by simp
  with 1(2) Cons.IH [of c1] Cons.prems(3) show ?case by (auto split: if_splits)
qed simp

lemma update_from_buckets_inv:
  "update_from_buckets g v bs c = Some c' \<Longrightarrow> conf_inv c \<Longrightarrow>
    \<forall>ns\<in>set bs. \<forall>nd\<in>set ns. entry_typed (node_value nd) \<Longrightarrow> conf_inv c' \<and> nc_uuid c' = nc_uuid c"
proof (induction bs arbitrary: c)
  case (Cons ns bs)
  from Cons.prems(1) obtain c1 where 1: "update_from_chain g v ns c = Some c1"
    "update_from_buckets g v bs c1 = Some c'"
    by (auto split: option.splits)
  from update_from_chain_inv [OF 1(1) Cons.prems(2)] Cons.prems(3)
  have "conf_inv c1 \<and> nc_uuid c1 = nc_uuid c" by simp
  with Cons.IH [OF 1(2)] Cons.prems(3) show ?case by simp
qed simp

lemma update_peer_weights_inv:
  assumes "update_peer_weights_last_seen now c ht pc = Some c'" "conf_inv c" "field_ok UUID_SIZE now"
    and "peer_nodes entry_typed ht"
  shows "conf_inv c' \<and> nc_uuid c' = nc_uuid c"
proof -
  have nodes: "\<forall>ns\<in>set (ht_buckets ht). \<forall>nd\<in>set ns. entry_typed (node_value nd)"
    using assms(4) by (auto simp: peer_nodes_def ht_nodes_def)
  have ok: "config_ok c" using assms(2) by (simp add: conf_inv_def)
  from ok show ?thesis
  proof (cases rule: find_peer_cases [where u = "nc_uuid pc"])
    case absent
    with assms(1) update_from_buckets_inv [OF _ assms(2) nodes] show ?thesis
      by (auto simp: update_peer_weights_last_seen_def Let_def)
  next
    case (present i)
    let ?c = "set_peer c i ((nc_peers c ! nat i)\<lparr>pi_last_seen := now\<rparr>)"
    have "peer_ok (nc_peers c ! nat i)" using peer_in_array [OF ok present(5)] .
    then have "conf_inv ?c"
      using present(2,3) assms(3) by (intro conf_inv_update [OF assms(2)]) (simp_all add: peer_ok_def)
    from assms(1) present update_from_buckets_inv [OF _ this nodes] assms(3) show ?thesis
      by (auto simp: update_peer_weights_last_seen_def Let_def field_ok_def)
  qed
qed

lemma peers_read_in:
  assumes "peers_read c = Some ps" "\<forall>p\<in>set (nc_peers c). P p"
  shows "\<forall>p\<in>set ps. P p"
proof -
  have "those (map f xs) = Some ys \<Longrightarrow> \<forall>y\<in>set ys. \<exists>x\<in>set xs. f x = Some y" for f :: "int \<Rightarrow> peer_info option" and xs ys
    by (induction xs arbitrary: ys) (fastforce split: option.splits)+
  with assms(1) have "\<forall>p\<in>set ps. \<exists>i. peer_at c i = Some p"
    unfolding peers_read_def by fast
  with assms(2) show ?thesis by (auto simp: peer_at_def split: if_splits)
qed

lemma received_table_typed:
  assumes "node_config_to_hashmap c 0 = Some ht" "config_typed c"
  shows "peer_nodes entry_typed ht"
proof -
  obtain ps where ps: "peers_read c = Some ps" "ht = foldl (add_peer_node c) (hash_table_put
      (hash_table_create (nat (nc_peer_count c + 1))) (key_mem (nc_uuid c)) (peer_of_config c 0)
      (length (nc_uuid c))) ps"
    using assms(1) by (auto simp: node_config_to_hashmap_def peer_of_config_def Let_def bind_Some_iff
      split: if_splits)
  have "\<forall>p\<in>set ps. entry_typed p"
    using assms(2) by (intro peers_read_in [OF ps(1)]) (simp add: config_typed_def)
  then show ?thesis
    unfolding ps(2)
    using add_peer_nodes_ok [OF keeps_weights_typed] put_peer_nodes [where P = entry_typed]
      peer_nodes_create [of entry_typed] peer_of_config_typed [OF assms(2)] by blast
qed

subsection \<open>The handlers\<close>

lemma link_state_inv:
  assumes "link_state_post env body fd nd = Some (Answer nd' acts)" "conf_inv (nd_config nd)"
    and "config_typed (sv_config_junk env)" "field_ok UUID_SIZE (sv_now env)"
    and "field_ok UUID_SIZE (sv_last_seen env)" "\<forall>ip. sv_peer_ip env = Some ip \<longrightarrow> cstring ip"
  shows "conf_inv (nd_config nd') \<and> nc_uuid (nd_config nd') = nc_uuid (nd_config nd)"
proof (cases "nd_config nd' = nd_config nd")
  case True
  with assms(2) show ?thesis by simp
next
  case False
  from assms(1) obtain parsed where p: "json_to_node_config (sv_config_junk env) body = Some parsed"
    by (auto simp: link_state_post_def bind_Some_iff)
  with assms(1) False obtain c where c: "parsed = Some c"
    by (cases parsed) (auto simp: link_state_post_def answer_def)
  obtain ip where ip: "sv_peer_ip env = Some ip"
    using assms(1) p c by (cases "sv_peer_ip env") (auto simp: link_state_post_def bind_Some_iff)
  let ?pc = "c\<lparr>nc_last_seen := sv_last_seen env, nc_host := ip\<rparr>"
  obtain ht where ht: "node_config_to_hashmap ?pc 0 = Some ht"
    "update_peer_weights_last_seen (sv_now env) (nd_config nd) ht ?pc = Some (nd_config nd')"
    using assms(1) p c ip by (auto simp: link_state_post_def bind_Some_iff answer_def Let_def)
  have "config_typed c" using json_to_node_config_typed p c assms(3) by blast
  then have "config_typed ?pc" using assms(6) ip by (simp add: config_typed_def)
  then have "peer_nodes entry_typed ht" by (rule received_table_typed [OF ht(1)])
  with update_peer_weights_inv [OF ht(2) assms(2,4)] show ?thesis by blast
qed

lemma send_page_node: "send_page env fd nd page = Some (Answer nd' acts) \<Longrightarrow> nd' = nd"
  by (auto simp: send_page_def answer_def)

lemma send_json_node: "send_json env fd nd s = Some (Answer nd' acts) \<Longrightarrow> nd' = nd"
  by (auto simp: send_json_def answer_def)

lemma api_neighbors_node: "api_neighbors env fd nd = Some (Answer nd' acts) \<Longrightarrow> nd' = nd"
  by (auto simp: api_neighbors_def bind_Some_iff dest: send_json_node)

text \<open>No command but \<open>addneighbor\<close> and \<open>view\<close> touches the configuration.\<close>

lemma other_commands_config:
  "api_add env fd nd rest = Some (Answer nd' acts) \<Longrightarrow> nd_config nd' = nd_config nd"
  "api_search env fd nd rest = Some (Answer nd' acts) \<Longrightarrow> nd_config nd' = nd_config nd"
  "api_config env fd nd rest = Some (Answer nd' acts) \<Longrightarrow> nd_config nd' = nd_config nd"
  "api_uuid env fd nd = Some (Answer nd' acts) \<Longrightarrow> nd_config nd' = nd_config nd"
  "api_neighbors env fd nd = Some (Answer nd' acts) \<Longrightarrow> nd_config nd' = nd_config nd"
  "api_map env fd nd = Some (Answer nd' acts) \<Longrightarrow> nd_config nd' = nd_config nd"
  by (auto simp: api_add_def api_search_def api_config_def api_uuid_def api_map_def bind_Some_iff Let_def
      split: if_splits dest!: send_page_node send_json_node api_neighbors_node)

lemma found_host_inv:
  assumes "conf_inv (nd_config nd)"
  shows "conf_inv (nd_config (set_found_host nd u found ''localhost'')) \<and>
    nc_uuid (nd_config (set_found_host nd u found ''localhost'')) = nc_uuid (nd_config nd)"
  using assms
  by (cases found) (simp_all add: set_found_host_def conf_inv_def config_ok_def live_peers_def field_ok_def)

lemma view_local_node: "view_local env fd nd req path = Some (Answer nd' acts) \<Longrightarrow> nd' = nd"
  by (auto simp: view_local_def answer_def bind_Some_iff split: option.splits)

lemma view_found_node:
  assumes "view_found env fd nd req path u f = Some (Answer nd' acts)"
  shows "\<exists>nd1. nd_config nd1 = nd_config nd \<and> (nd' = nd1 \<or> nd' = set_found_host nd1 u f ''localhost'')"
proof -
  let ?k = "show_int fd @ '' '' @ path"
  let ?nd = "if hashmap_get (nd_sockets_map nd) ?k = None
    then nd\<lparr>nd_sockets_map := hashmap_put (nd_sockets_map nd) ?k ?k\<rparr> else nd"
  have "nd_config ?nd = nd_config nd" by simp
  moreover have "nd' = ?nd \<or> nd' = set_found_host ?nd u f ''localhost''"
    using assms unfolding view_found_def Let_def
    by (auto simp: bind_Some_iff answer_def dest!: view_local_node split: if_splits)
  ultimately show ?thesis by blast
qed

lemma api_view_inv:
  assumes "api_view env fd nd req rest = Some (Answer nd' acts)" "conf_inv (nd_config nd)"
  shows "conf_inv (nd_config nd') \<and> nc_uuid (nd_config nd') = nc_uuid (nd_config nd)"
proof -
  have found: "conf_inv (nd_config nd') \<and> nc_uuid (nd_config nd') = nc_uuid (nd_config nd)"
    if v: "view_found env fd nd req path u f = Some (Answer nd' acts)" for path u f
  proof -
    obtain nd1 where "nd_config nd1 = nd_config nd" "nd' = nd1 \<or> nd' = set_found_host nd1 u f ''localhost''"
      using view_found_node [OF v] by blast
    with found_host_inv [of nd1 u f] assms(2) show ?thesis by auto
  qed
  show ?thesis
    using assms
    by (auto simp: api_view_def bind_Some_iff dest!: send_page_node dest: found split: option.splits prod.splits)
qed

lemma add_peer_uuid: "add_peer_from_string c s = Some (r, c') \<Longrightarrow> nc_uuid c' = nc_uuid c"
  by (auto simp: add_peer_from_string_def bind_Some_iff split: list.splits sarg.splits if_splits option.splits)

lemma cstring_strstr: "strstr s n = Some r \<Longrightarrow> cstring s \<Longrightarrow> cstring r"
  by (auto dest!: strstr_Some_suffix)

lemma addneighbor_query_cstring: "addneighbor_query req = Some (Some q) \<Longrightarrow> cstring req \<Longrightarrow> cstring q"
  by (auto simp: addneighbor_query_def cstring_take cstring_drop dest: cstring_strstr split: option.splits)

lemma addneighbor_cases:
  assumes "api_addneighbor env fd nd req = Some (Answer nd' acts)"
  obtains (ignored) "nd' = nd"
  | (added) s r c m where "addneighbor_query req = Some (Some s)"
      "add_peer_from_string (nd_config nd) s = Some (r, c)"
      "nd' = nd\<lparr>nd_config := c, nd_network_map := m\<rparr>"
      "m = nd_network_map nd \<or> (\<exists>u v. m = update_network_map (nd_network_map nd) u v)"
proof -
  obtain q where q: "addneighbor_query req = Some q"
    using assms by (auto simp: api_addneighbor_def bind_Some_iff)
  show thesis
  proof (cases q)
    case None
    with assms q show thesis by (intro ignored) (simp add: api_addneighbor_def answer_def)
  next
    case (Some s)
    obtain r c where a: "add_peer_from_string (nd_config nd) s = Some (r, c)"
      using assms q Some by (auto simp: api_addneighbor_def bind_Some_iff)
    show thesis
    proof (cases "r = -1 \<or> r = -2")
      case True
      with assms q Some a show thesis
        by (intro added [of s r c "nd_network_map nd"]) (auto simp: api_addneighbor_def answer_def)
    next
      case False
      with assms q Some a obtain z where z: "url_path_to_config (ae_config_junk env) s = Some z"
        by (auto simp: api_addneighbor_def bind_Some_iff)
      with False assms q Some a obtain c' where "nd' = nd\<lparr>nd_config := c,
          nd_network_map := update_network_map (nd_network_map nd) (nc_uuid c') (Other c')\<rparr>"
        by (cases z) (auto simp: api_addneighbor_def dest!: api_neighbors_node)
      with q Some a show thesis by (intro added [of s r c]) auto
    qed
  qed
qed

lemma addneighbor_inv:
  assumes "api_addneighbor env fd nd req = Some (Answer nd' acts)" "conf_inv (nd_config nd)" "cstring req"
  shows "conf_inv (nd_config nd') \<and> nc_uuid (nd_config nd') = nc_uuid (nd_config nd)"
  using assms(1)
proof (cases rule: addneighbor_cases)
  case ignored
  with assms(2) show ?thesis by simp
next
  case (added s r c m)
  with add_peer_from_string_step [of "nd_config nd" s] assms(2,3) addneighbor_query_cstring [of req s]
    add_peer_uuid [of "nd_config nd" s r c]
  show ?thesis by (auto simp: conf_inv_def)
qed

lemma process_peer_path_inv:
  assumes "process_peer_path env path fd req nd = Some (Answer nd' acts)" "conf_inv (nd_config nd)" "cstring req"
  shows "conf_inv (nd_config nd') \<and> nc_uuid (nd_config nd') = nc_uuid (nd_config nd)"
  using assms(1) api_view_inv [OF _ assms(2)] addneighbor_inv [OF _ assms(2,3)] assms(2)
  by (auto simp: process_peer_path_def answer_def dest!: other_commands_config
      split: prod.splits option.splits if_splits)

lemma child_routine_cases:
  assumes "child_routine env received fd nd = Some (Answer nd' acts)"
  obtains (same) "nd' = nd"
  | (get) path req where "process_peer_path (sv_api env) path fd req nd = Some (Answer nd' acts)" "cstring req"
  | (post) body where "link_state_post env body fd nd = Some (Answer nd' acts)"
proof -
  define bytes where "bytes = (case received of None \<Rightarrow> [] | Some bytes \<Rightarrow> bytes)"
  obtain m p v where line: "process_startline (c_str bytes) = (m, p, v)" by (cases "process_startline (c_str bytes)")
  show thesis
  proof (cases "bytes = []")
    case True
    with assms show thesis by (intro same) (simp add: child_routine_def bytes_def [symmetric] answer_def)
  next
    case False
    with assms line obtain path where path: "p = Some path" "length path < 100"
      "(if path = ''/'' then map_option (answer nd) (send_http_302 (ae_date (sv_api env)) fd)
        else if 1 < length path \<and> m = Some ''GET'' then process_peer_path (sv_api env) path fd (c_str bytes) nd
        else if m = Some ''POST'' then post_request env path (c_str bytes) fd nd
        else Some (answer nd [])) = Some (Answer nd' acts)"
      by (auto simp: child_routine_def bytes_def [symmetric] Let_def bind_Some_iff split: if_splits option.splits)
    show thesis
    proof (cases "path = ''/''")
      case True
      with path(3) show thesis by (intro same) (auto simp: answer_def)
    next
      case False
      show thesis
      proof (cases "1 < length path \<and> m = Some ''GET''")
        case True
        with path(3) False show thesis by (intro get [of path "c_str bytes"]) simp_all
      next
        case no: False
        with path(3) False show thesis
          using same post
          by (auto simp: answer_def post_request_def Let_def split: if_splits option.splits)
      qed
    qed
  qed
qed

subsection \<open>The tables\<close>

definition table_shape :: "'v hash_table \<Rightarrow> bool" where
  "table_shape ht \<longleftrightarrow> ht_size ht = MAX_HASHTABLE_SIZE \<and> length (ht_buckets ht) = MAX_HASHTABLE_SIZE"

lemma table_shape_ops [simp]:
  "table_shape (hash_table_create MAX_HASHTABLE_SIZE)"
  "table_shape (hash_table_put ht key v n) = table_shape ht"
  "table_shape (hash_table_delete ht key n) = table_shape ht"
  "table_shape (hash_table_modify ht key n f) = table_shape ht"
  by (auto simp: table_shape_def hash_table_create_def hash_table_put_def hash_table_delete_def
      hash_table_modify_def Let_def split: option.splits)

lemma table_shape_put_str: "hash_table_put_str ht key v n b = Some ht' \<Longrightarrow> table_shape ht' = table_shape ht"
  by (auto simp: table_shape_def hash_table_put_str_def Let_def split: option.splits if_splits)

lemma table_shape_network [simp]:
  "table_shape (update_network_map ht u v) = table_shape ht"
  "table_shape (hash_table_update_node_config ht u v n) = table_shape ht"
  by (simp_all add: update_network_map_def hash_table_update_node_config_def Let_def)

lemma table_shape_files: "update_files dead blocks i u nds ht = Some ht' \<Longrightarrow> table_shape ht' = table_shape ht"
proof (induction nds arbitrary: i ht)
  case (Cons nd nds)
  then obtain ht1 where 1: "update_file dead (blocks i) u (c_str (node_key nd)) ht = Some ht1"
    "update_files dead blocks (Suc i) u nds ht1 = Some ht'"
    by (auto simp: bind_Some_iff key_cstr_def split: if_splits)
  have "table_shape ht1 = table_shape ht"
    using 1(1) by (auto simp: update_file_def Let_def bind_Some_iff table_shape_put_str split: option.splits)
  with Cons.IH [OF 1(2)] show ?case by simp
qed simp

lemma table_shape_scan: "scan_dir block u cur es st ht = Some (st', ht') \<Longrightarrow> table_shape ht' = table_shape ht"
proof (induction es arbitrary: st ht)
  case (Cons e es)
  then obtain st1 ht1 where 1: "scan_entry block u cur e st ht = Some (st1, ht1)"
    "scan_dir block u cur es st1 ht1 = Some (st', ht')"
    by (auto simp: bind_Some_iff)
  have "table_shape ht1 = table_shape ht"
    using 1(1) by (cases e) (auto simp: bind_Some_iff table_shape_put_str split: if_splits option.splits)
  with Cons.IH [OF 1(2)] show ?case by simp
qed simp

lemma table_shape_list_files:
  "list_files_loop dirs block u st ht = Some (Scanned ht') \<Longrightarrow> table_shape ht' = table_shape ht"
proof (induction dirs block u st ht rule: list_files_loop.induct)
  case (1 dirs block u st ht)
  show ?case
  proof (cases "stack_is_empty st")
    case True
    with 1(2) show ?thesis by (simp add: list_files_loop.simps [of _ _ _ st])
  next
    case False
    with 1(2) obtain p st1 es st2 ht2 where 2: "stack_pop st = Some (Some p, st1)" "dirs p = Some es"
      "scan_dir block u p es st1 ht = Some (st2, ht2)"
      "list_files_loop dirs block u st2 ht2 = Some (Scanned ht')"
      by (auto simp: list_files_loop.simps [of _ _ _ st] split: option.splits prod.splits)
    with 1(1) False table_shape_scan [OF 2(3)] show ?thesis by auto
  qed
qed

definition node_shape :: "node \<Rightarrow> bool" where
  "node_shape nd \<longleftrightarrow> table_shape (nd_network_map nd) \<and> table_shape (nd_filepaths nd) \<and>
     hm_wf (nd_sockets_map nd) \<and> peers_count (nd_peers nd) \<le> PEERS_LIST_SIZE \<and>
     length (peers_list (nd_peers nd)) = PEERS_LIST_SIZE"

lemma node_shape_init: "init_node conf = Some nd \<Longrightarrow> node_shape nd"
  by (auto simp: init_node_def bind_Some_iff node_shape_def hm_wf_new peer_table_init_def)

lemma add_peer_shape:
  "peers_count t \<le> PEERS_LIST_SIZE \<and> length (peers_list t) = PEERS_LIST_SIZE \<Longrightarrow>
    peers_count (add_peer_to_list t p) \<le> PEERS_LIST_SIZE \<and>
    length (peers_list (add_peer_to_list t p)) = PEERS_LIST_SIZE"
  by (simp add: add_peer_to_list_def)

lemma other_commands_shape:
  assumes "node_shape nd"
  shows "api_add env fd nd rest = Some (Answer nd' acts) \<Longrightarrow> node_shape nd'"
    "api_search env fd nd rest = Some (Answer nd' acts) \<Longrightarrow> node_shape nd'"
    "api_config env fd nd rest = Some (Answer nd' acts) \<Longrightarrow> node_shape nd'"
    "api_uuid env fd nd = Some (Answer nd' acts) \<Longrightarrow> node_shape nd'"
    "api_neighbors env fd nd = Some (Answer nd' acts) \<Longrightarrow> node_shape nd'"
    "api_map env fd nd = Some (Answer nd' acts) \<Longrightarrow> node_shape nd'"
  using assms
  by (auto simp: api_add_def api_search_def api_config_def api_uuid_def api_map_def bind_Some_iff Let_def
      node_shape_def add_peer_shape split: if_splits
      dest!: send_page_node send_json_node api_neighbors_node)

lemma view_found_shape:
  assumes "view_found env fd nd req path u f = Some (Answer nd' acts)" "node_shape nd"
  shows "node_shape nd'"
proof -
  have host: "node_shape (set_found_host n u f h) = node_shape n" for n h
    by (cases f) (simp_all add: set_found_host_def node_shape_def)
  have sock: "node_shape n \<Longrightarrow> node_shape (n\<lparr>nd_sockets_map := hashmap_put (nd_sockets_map n) k v\<rparr>)" for n k v
    by (simp add: node_shape_def hm_wf_put)
  show ?thesis
    using assms unfolding view_found_def Let_def
    by (auto simp: bind_Some_iff answer_def host sock dest!: view_local_node split: if_splits)
qed

lemma view_shape:
  assumes "api_view env fd nd req rest = Some (Answer nd' acts)" "node_shape nd"
  shows "node_shape nd'"
  using assms
  by (auto simp: api_view_def bind_Some_iff dest!: send_page_node dest: view_found_shape
      split: option.splits prod.splits)

lemma addneighbor_shape:
  assumes "api_addneighbor env fd nd req = Some (Answer nd' acts)" "node_shape nd"
  shows "node_shape nd'"
  using assms(1) by (cases rule: addneighbor_cases) (use assms(2) in \<open>auto simp: node_shape_def\<close>)

lemma process_peer_path_shape:
  assumes "process_peer_path env path fd req nd = Some (Answer nd' acts)" "node_shape nd"
  shows "node_shape nd'"
  using assms(1) view_shape [OF _ assms(2)] addneighbor_shape [OF _ assms(2)]
    other_commands_shape [OF assms(2)] assms(2)
  by (auto simp: process_peer_path_def answer_def split: prod.splits option.splits if_splits)

lemma link_state_shape:
  assumes "link_state_post env body fd nd = Some (Answer nd' acts)" "node_shape nd"
  shows "node_shape nd'"
  using assms
  by (auto simp: link_state_post_def bind_Some_iff answer_def Let_def node_shape_def
      update_peer_to_files_map_def table_shape_files split: option.split_asm)

subsection \<open>A running node\<close>

text \<open>
  What the environment gives a handler: a clock and an address that are C strings, and memory for
  the received configuration, which may hold anything of its type.
\<close>

definition env_sane :: "server_env \<Rightarrow> bool" where
  "env_sane env \<longleftrightarrow> config_typed (sv_config_junk env) \<and> field_ok UUID_SIZE (sv_now env) \<and>
     field_ok UUID_SIZE (sv_last_seen env) \<and> (\<forall>ip. sv_peer_ip env = Some ip \<longrightarrow> cstring ip)"

text \<open>The steps of a node: it handles a connection, or it has scanned its directory.\<close>

inductive node_step :: "node \<Rightarrow> node \<Rightarrow> bool" where
  request: "env_sane env \<Longrightarrow> child_routine env received fd nd = Some (Answer nd' acts) \<Longrightarrow> node_step nd nd'"
| scan: "list_files dirs block (nc_uuid (nd_config nd)) ''content'' (nd_filepaths nd) =
    Some (Scanned files) \<Longrightarrow> node_step nd (nd\<lparr>nd_filepaths := files\<rparr>)"

inductive_cases node_stepE: "node_step nd nd'"

inductive node_run :: "node \<Rightarrow> node \<Rightarrow> bool" for nd0 where
  start: "node_run nd0 nd0"
| step: "node_run nd0 nd \<Longrightarrow> node_step nd nd' \<Longrightarrow> node_run nd0 nd'"

definition node_inv :: "string \<Rightarrow> node \<Rightarrow> bool" where
  "node_inv u nd \<longleftrightarrow> conf_inv (nd_config nd) \<and> nc_uuid (nd_config nd) = u \<and> node_shape nd"

lemma request_inv:
  assumes "child_routine env received fd nd = Some (Answer nd' acts)" "env_sane env" "node_inv u nd"
  shows "node_inv u nd'"
  using assms(1)
proof (cases rule: child_routine_cases)
  case same
  with assms(3) show ?thesis by simp
next
  case (get path req)
  with process_peer_path_inv [OF get(1)] process_peer_path_shape [OF get(1)] assms(3) show ?thesis
    by (simp add: node_inv_def)
next
  case (post body)
  with link_state_inv [OF post] link_state_shape [OF post] assms(2,3) show ?thesis
    by (simp add: node_inv_def env_sane_def)
qed

lemma node_step_inv: "node_step nd nd' \<Longrightarrow> node_inv u nd \<Longrightarrow> node_inv u nd'"
proof (erule node_stepE)
  fix env received fd acts
  assume "node_inv u nd" "env_sane env" "child_routine env received fd nd = Some (Answer nd' acts)"
  then show "node_inv u nd'" by (blast intro: request_inv)
qed (auto simp: node_inv_def node_shape_def list_files_def table_shape_list_files)

text \<open>A request to add a neighbour, as it arrives on a connection.\<close>

lemma addneighbor_step:
  assumes "config_ok (nd_config nd)" "env_ok (sv_api env)" "env_sane env"
    and "query_field 36 u" "cstring u" "query_field 255 h" "cstring h" "is_i32 f" "is_i32 b" "is_i32 w"
    and "CHR '' '' \<notin> set u" "CHR '' '' \<notin> set h" "length (peer_query u h f b w) < 100"
  shows "node_step nd (after_addneighbor (ae_config_junk (sv_api env)) nd u h f b w)"
proof -
  let ?q = "peer_query u h f b w"
  let ?r = "''GET'' @ CHR '' '' # ?q @ CHR '' '' # ''HTTP''"
  have q: "?q \<noteq> []" "CHR '' '' \<notin> set ?q" "?q \<noteq> ''/''" "cstring ?q"
    using assms(5,7,11,12) show_int_no_space by (auto simp: peer_query_def)
  obtain v where v: "process_startline ?r = (Some ''GET'', Some ?q, v)"
    using process_startline_words [of "''GET''" ?q "''HTTP''"] q by auto
  have r: "addneighbor_request ?q ?r" by (simp add: addneighbor_request_def)
  have l: "length ?q < 256" using assms(13) by simp
  obtain m where m: "process_peer_path (sv_api env) ?q 5 ?r nd =
      Some (Answer (after_addneighbor (ae_config_junk (sv_api env)) nd u h f b w) [Tcp (Send 5 m), Tcp (CloseFd 5)])"
    using addneighbor_reply [OF assms(1,2,4-12) l r, of 5] by blast
  have "c_str ?r = ?r" using q(4) by (simp add: c_str_id)
  moreover have "length ?r < RECV_SIZE" using assms(13) by (simp add: RECV_SIZE_def)
  moreover have "1 < length ?q" by (simp add: peer_query_def)
  ultimately have "child_routine env (Some ?r) 5 nd = process_peer_path (sv_api env) ?q 5 ?r nd"
    using v q(3) assms(13) by (simp add: child_routine_def strncpy_buf_def fits_def del: append_Cons)
  with m show ?thesis by (auto intro: node_step.request [OF assms(3)])
qed

text \<open>
  C13. A node that starts with a well-formed configuration keeps it well-formed, with distinct
  uuids and its own uuid, and its tables keep their sizes, whatever bytes any number of
  connections send, whatever is in the content directory and whatever the memory for a received
  configuration held, as long as the handlers return.
\<close>

theorem node_run_inv:
  assumes "init_node conf = Some nd0" "conf_inv (nd_config nd0)" "node_run nd0 nd"
  shows "node_inv (nc_uuid (nd_config nd0)) nd"
  using assms(3)
proof (induction rule: node_run.induct)
  case start
  then show ?case using assms(2) node_shape_init [OF assms(1)] by (simp add: node_inv_def)
next
  case (step nd nd')
  then show ?case by (blast intro: node_step_inv)
qed

lemma node_run_inv_witness:
  "\<exists>nd0 nd. init_node None = Some nd0 \<and> node_run nd0 nd \<and> node_inv ''uuid'' nd \<and>
     peer_uuids (nd_config nd) = [''n2'']"
proof -
  obtain nd0 where nd0: "init_node None = Some nd0" "nd_config nd0 = global_config_init\<lparr>nc_host := ''localhost''\<rparr>"
    by (auto simp: init_node_def read_config_file_def)
  have c: "conf_inv (nd_config nd0)" "config_ok (nd_config nd0)"
    using global_config_init_ok global_config_init_simps(2)
    by (simp_all add: nd0(2) conf_inv_def config_ok_def field_ok_def live_peers_def)
  have e: "env_sane sample_server" "env_ok (sv_api sample_server)"
    using config_ok_typed [OF global_config_init_ok] sample_env_ok
    by (simp_all add: env_sane_def sample_server_def field_ok_def)
  have n: "show_int 1 = ''1''" "show_int 2 = ''2''" "show_int 30 = ''30''" by code_simp+
  let ?nd = "after_addneighbor (ae_config_junk (sv_api sample_server)) nd0 ''n2'' ''remote'' 1 2 30"
  have "node_step nd0 nd0"
    by (rule node_step.request [OF e(1), where received = None and fd = 5])
      (simp add: child_routine_def answer_def)
  then have "node_run nd0 nd0" by (rule node_run.step [OF node_run.start])
  moreover have "node_step nd0 ?nd"
    by (rule addneighbor_step [OF c(2) e(2,1)])
      (simp_all add: query_field_def is_i32_def INT_MAX_def INT_MIN_def peer_query_def n)
  ultimately have run: "node_run nd0 ?nd" by (rule node_run.step)
  have "peer_uuids (nd_config ?nd) = [''n2'']"
    by (simp add: after_addneighbor_def nd0(2) with_peer_def new_peer_def global_config_init_def
        live_peers_def MAX_PEERS_def)
  moreover have "nc_uuid (nd_config nd0) = ''uuid''" by (simp add: nd0(2) global_config_init_simps)
  ultimately show ?thesis using node_run_inv [OF nd0(1) c(1) run] nd0(1) run by metis
qed

end
