(* ===== verification/Routing.thy ===== *)
theory Routing
  imports Exchange
begin

text \<open>
  A network of nodes that advertise their tables to each other: which distances the tables hold
  after any run, and after how many rounds they are the lengths of the shortest paths. The
  step is what \<open>child_routine\<close> does with the configuration it received (\<open>node_config_to_hashmap\<close>
  and \<open>update_peer_weights_last_seen\<close>).
\<close>

subsection \<open>Paths\<close>

text \<open>\<open>L u v\<close> is the weight of the link from \<open>u\<close> to \<open>v\<close>; a path is the list of its nodes.\<close>

fun path_cost :: "(string \<Rightarrow> string \<rightharpoonup> int) \<Rightarrow> string list \<Rightarrow> int option" where
  "path_cost L [] = None"
| "path_cost L [u] = Some 0"
| "path_cost L (u # v # vs) = do { l \<leftarrow> L u v; c \<leftarrow> path_cost L (v # vs); Some (l + c) }"

definition route :: "(string \<Rightarrow> string \<rightharpoonup> int) \<Rightarrow> string \<Rightarrow> string \<Rightarrow> string list \<Rightarrow> int \<Rightarrow> bool" where
  "route L u x p c \<longleftrightarrow> p \<noteq> [] \<and> hd p = u \<and> last p = x \<and> path_cost L p = Some c"

definition symmetric_links :: "(string \<Rightarrow> string \<rightharpoonup> int) \<Rightarrow> bool" where
  "symmetric_links L \<longleftrightarrow> (\<forall>u v l. L u v = Some l \<longrightarrow> 0 < l \<and> L v u = Some l)"

lemma path_cost_append:
  "path_cost L (p @ [v]) = Some c \<Longrightarrow> path_cost L (v # q) = Some d \<Longrightarrow> path_cost L (p @ v # q) = Some (c + d)"
proof (induction p arbitrary: c)
  case (Cons u p)
  then show ?case by (cases p) (auto simp: bind_Some_iff)
qed simp

lemma route_append:
  assumes "route L u v p c" "route L v x q d"
  shows "\<exists>r. route L u x r (c + d)"
proof -
  have p: "p = butlast p @ [v]" using assms(1) by (simp add: route_def) (metis append_butlast_last_id)
  have q: "q = v # tl q" using assms(2) by (auto simp: route_def)
  have "path_cost L (butlast p @ v # tl q) = Some (c + d)"
    using path_cost_append [of L "butlast p" v c "tl q" d] assms p q by (simp add: route_def)
  moreover have "hd (butlast p @ v # tl q) = u" using assms(1) p by (metis hd_append2 hd_append list.sel(1) route_def)
  moreover have "last (butlast p @ v # tl q) = x" using assms(2) q by (simp add: route_def)
  ultimately show ?thesis by (auto simp: route_def)
qed

lemma path_cost_rev: "symmetric_links L \<Longrightarrow> path_cost L p = Some c \<Longrightarrow> path_cost L (rev p) = Some c"
proof (induction L p arbitrary: c rule: path_cost.induct)
  case (3 L u v vs)
  then obtain l d where l: "L u v = Some l" "path_cost L (v # vs) = Some d" "c = l + d"
    by (auto simp: bind_Some_iff)
  have "path_cost L (rev vs @ [v]) = Some d" using "3.IH" [OF l(1) "3.prems"(1) l(2)] by simp
  moreover have "L v u = Some l" using "3.prems"(1) l(1) unfolding symmetric_links_def by blast
  then have "path_cost L [v, u] = Some l" by simp
  ultimately show ?case
    using path_cost_append [of L "rev vs" v d "[u]" l] l(3) by (simp add: add.commute)
qed auto

lemma route_rev: "symmetric_links L \<Longrightarrow> route L u x p c \<Longrightarrow> route L x u (rev p) c"
  by (auto simp: route_def path_cost_rev hd_rev last_rev)

lemma route_link: "L u v = Some l \<Longrightarrow> route L u v [u, v] l"
  by (simp add: route_def)

subsection \<open>The step\<close>

text \<open>A received configuration shows the table of the node that sent it.\<close>

definition shown_ok :: "node_config \<Rightarrow> bool" where
  "shown_ok c \<longleftrightarrow> read_ok c \<and> distinct (peer_uuids c) \<and> nc_uuid c \<notin> set (peer_uuids c)"

lemma routing_shown: "routing_inv c \<Longrightarrow> shown_ok c"
  using config_ok_read by (simp add: routing_inv_def shown_ok_def)

definition shows_table :: "node_config \<Rightarrow> node_config \<Rightarrow> bool" where
  "shows_table pc c \<longleftrightarrow> read_ok pc \<and> nc_uuid pc = nc_uuid c \<and> nc_peer_count pc = nc_peer_count c \<and>
     map (\<lambda>p. (pi_uuid p, pi_weight p)) (live_peers pc) = map (\<lambda>p. (pi_uuid p, pi_weight p)) (live_peers c)"

lemma known_config_shows:
  assumes "receiver_ok K F u env nd" "config_ok c"
  shows "shows_table (known_config env c) c"
  using known_config_ok [OF assms] by (simp add: shows_table_def)

lemma shows_table_uuids: "shows_table pc c \<Longrightarrow> peer_uuids pc = peer_uuids c"
proof -
  assume "shows_table pc c"
  then have "map fst (map (\<lambda>p. (pi_uuid p, pi_weight p)) (live_peers pc)) =
      map fst (map (\<lambda>p. (pi_uuid p, pi_weight p)) (live_peers c))" by (simp only: shows_table_def)
  then show ?thesis by (simp add: comp_def)
qed

lemma shows_table_weights: "shows_table pc c \<Longrightarrow> weights pc = weights c"
  by (simp add: shows_table_def weights_def)

lemma shows_table_inv: "shows_table pc c \<Longrightarrow> routing_inv c \<Longrightarrow> shown_ok pc"
  using shows_table_uuids [of pc c] by (simp add: routing_inv_def shown_ok_def shows_table_def)

lemma weights_peer: "shown_ok c \<Longrightarrow> p \<in> set (live_peers c) \<Longrightarrow> weights c (pi_uuid p) = Some (pi_weight p)"
  using weights_nth [of c] by (auto simp: shown_ok_def in_set_conv_nth)

lemma peer_of_weight: "weights c x = Some w \<Longrightarrow> \<exists>p\<in>set (live_peers c). pi_uuid p = x \<and> pi_weight p = w"
  by (auto simp: weights_def dest!: map_of_SomeD)

text \<open>The nodes of the neighbour's table: itself and its peers.\<close>

lemma foldl_add_peer_nodes:
  assumes "ht_inv K ht" "\<forall>p\<in>set ps. table_key K (pi_uuid p)" "distinct (map pi_uuid ps)"
    and "dom (table_abs K ht) \<inter> pi_uuid ` set ps = {}"
    and "nd \<in> set (ht_nodes (foldl (add_peer_node c) ht ps))"
  shows "node_value nd \<in> node_value ` set (ht_nodes ht) \<union> set ps"
  using assms
proof (induction ps arbitrary: ht)
  case (Cons p ps)
  let ?ht = "add_peer_node c ht p"
  have key: "table_key K (pi_uuid p)" using Cons.prems(2) by simp
  have none: "table_abs K ht (pi_uuid p) = None" using Cons.prems(4) by auto
  have ht: "?ht = hash_table_put ht (key_mem (pi_uuid p)) p (length (pi_uuid p))"
    using none table_abs_get [OF key, of ht] by (simp add: add_peer_node_def)
  have abs: "ht_inv K ?ht" "table_abs K ?ht = (table_abs K ht)(pi_uuid p \<mapsto> p)"
    using add_peer_node_abs [OF Cons.prems(1) key, of c] none by (simp_all add: merge_peer_def)
  have "dom (table_abs K ?ht) \<inter> pi_uuid ` set ps = {}"
    unfolding abs(2) dom_fun_upd using Cons.prems(3,4) by simp
  then have "node_value nd \<in> node_value ` set (ht_nodes ?ht) \<union> set ps"
    using Cons.prems by (intro Cons.IH [OF abs(1)]) simp_all
  moreover have "node_value ` set (ht_nodes ?ht) \<subseteq> insert p (node_value ` set (ht_nodes ht))"
    unfolding ht using put_nodes by fastforce
  ultimately show ?case by auto
qed simp

lemma neighbour_table_nodes:
  assumes "shown_ok pc" "table_key K (nc_uuid pc)" "\<forall>p\<in>set (live_peers pc). table_key K (pi_uuid p)"
    and "node_config_to_hashmap pc 0 = Some ht" "nd \<in> set (ht_nodes ht)"
  shows "node_value nd = peer_of_config pc 0 \<or> node_value nd \<in> set (live_peers pc)"
proof -
  have ok: "read_ok pc" using assms(1) by (simp add: shown_ok_def)
  let ?n = "nat (nc_peer_count pc + 1)"
  let ?t = "hash_table_create ?n :: peer_info hash_table"
  let ?ht = "hash_table_put ?t (key_mem (nc_uuid pc)) (peer_of_config pc 0) (length (nc_uuid pc))"
  have n: "0 < ?n" "?n < 2 ^ 31" using read_okD(3,4) [OF ok] by (auto simp: MAX_PEERS_def)
  then have t: "ht_inv K ?t" by (rule ht_inv_create)
  then have inv: "ht_inv K ?ht" using assms(2) by (rule ht_inv_put)
  have abs: "table_abs K ?ht = [nc_uuid pc \<mapsto> peer_of_config pc 0]"
    using assms(2) t by (auto simp: table_abs_def fun_eq_iff ht_get_put ht_get_create [OF n])
  have "ht = foldl (add_peer_node pc) ?ht (live_peers pc)"
    using assms(4) read_okD(3) [OF ok]
    by (simp add: node_config_to_hashmap_def read_okD(1) [OF ok] peer_of_config_def Let_def)
  moreover have "dom (table_abs K ?ht) \<inter> pi_uuid ` set (live_peers pc) = {}"
    using assms(1) by (auto simp: abs shown_ok_def)
  ultimately have "node_value nd \<in> node_value ` set (ht_nodes ?ht) \<union> set (live_peers pc)"
    using foldl_add_peer_nodes [OF inv assms(3), of nd pc] assms(1,5) by (simp add: shown_ok_def)
  moreover have "ht_nodes ?t = []" by (simp add: ht_nodes_def hash_table_create_def)
  then have "node_value ` set (ht_nodes ?ht) \<subseteq> {peer_of_config pc 0}"
    using put_nodes [of _ ?t] by fastforce
  ultimately show ?thesis by auto
qed

lemma relax_all_entry:
  assumes "relax_all g own v m nds x = Some w"
  shows "m x = Some w \<or> (\<exists>nd\<in>set nds. pi_uuid (node_value nd) = x \<and> x \<noteq> own \<and> w = i32 (g + pi_weight (node_value nd)))"
  using assms
proof (induction nds arbitrary: w rule: rev_induct)
  case (snoc nd nds)
  let ?m = "relax_all g own v m nds"
  have "relax g own v ?m (node_value nd) x = Some w" using snoc.prems by (simp add: relax_all_def)
  then have "?m x = Some w \<or> (pi_uuid (node_value nd) = x \<and> x \<noteq> own \<and> w = i32 (g + pi_weight (node_value nd)))"
    by (auto simp: relax_def split: if_splits option.splits)
  with snoc.IH show ?case by auto
qed (simp add: relax_all_def)

text \<open>The distance to the sender: the own one, or else the one that the sender shows.\<close>

definition given :: "node_config \<Rightarrow> node_config \<Rightarrow> int" where
  "given c pc = (case weights c (nc_uuid pc) of Some w \<Rightarrow> w | None \<Rightarrow> the (weights pc (nc_uuid c)))"

lemma neighbour_table_lookup:
  assumes "shown_ok pc" "table_key K (nc_uuid pc)" "\<forall>p\<in>set (live_peers pc). table_key K (pi_uuid p)"
    and "node_config_to_hashmap pc 0 = Some ht" "weights pc u = Some w"
  shows "\<exists>e. hash_table_get ht (key_mem u) (length u) = Some e \<and> pi_weight e = w"
proof -
  have ok: "read_ok pc" using assms(1) by (simp add: shown_ok_def)
  obtain p where p: "p \<in> set (live_peers pc)" "pi_uuid p = u" "pi_weight p = w"
    using peer_of_weight [OF assms(5)] by blast
  then have "u \<in> set (peer_uuids pc)" by force
  then have u: "table_key K u" "u \<noteq> nc_uuid pc" using assms(1,3) p by (auto simp: shown_ok_def)
  have ht: "ht_inv K ht"
    "table_abs K ht = foldl (merge_peer (nc_uuid pc)) [nc_uuid pc \<mapsto> peer_of_config pc 0] (live_peers pc)"
    using node_config_to_hashmap_abs [OF ok assms(2,3), of 0] assms(4) by auto
  have "own_keys [nc_uuid pc \<mapsto> peer_of_config pc 0]" by (simp add: own_keys_def peer_of_config_def)
  from merge_peers_le [OF this, of "nc_uuid pc" "live_peers pc"] p u(2) obtain e where
    e: "table_abs K ht u = Some e" "pi_uuid e = u"
    unfolding ht(2) own_keys_def by metis
  then have get: "hash_table_get ht (key_mem u) (length u) = Some e" using table_abs_get [OF u(1), of ht] by simp
  then obtain nd where "nd \<in> set (ht_nodes ht)" "node_value nd = e" using get_in_nodes [OF ht(1)] by blast
  with neighbour_table_nodes [OF assms(1-4)] have "e = peer_of_config pc 0 \<or> e \<in> set (live_peers pc)" by blast
  with e(2) u(2) have "e \<in> set (live_peers pc)" by (auto simp: peer_of_config_def)
  from weights_peer [OF assms(1) this] e(2) assms(5) get show ?thesis by simp
qed

lemma take_over_step:
  assumes "routing_inv c" "field_ok UUID_SIZE now" "shown_ok pc" "table_key K (nc_uuid pc)"
    and "\<forall>p\<in>set (live_peers pc). table_key K (pi_uuid p)"
    and "nc_peer_count c + nc_peer_count pc < int MAX_PEERS"
    and "weights pc (nc_uuid c) = Some wu" "0 < given c pc"
  shows "\<exists>c'. take_over now pc c = Some c' \<and> improves (nc_uuid pc) c c' \<and>
    (\<forall>x w. weights c' x = Some w \<longrightarrow> weights c x = Some w \<or>
      x \<noteq> nc_uuid c \<and> (\<exists>d. (x = nc_uuid pc \<and> d = 0 \<or> weights pc x = Some d) \<and> w = i32 (given c pc + d)))"
proof -
  have zero: "is_i32 0" by (simp add: is_i32_def INT_MAX_def INT_MIN_def)
  have ok: "read_ok pc" using assms(3) by (simp add: shown_ok_def)
  obtain ht where ht: "node_config_to_hashmap pc 0 = Some ht"
    using node_config_to_hashmap_abs [OF ok assms(4,5), of 0] by blast
  have nodes: "\<forall>nd\<in>set (ht_nodes ht). entry_ok (node_value nd)" "length (ht_nodes ht) \<le> Suc (length (live_peers pc))"
    using neighbour_table_ok [OF ok zero ht] by (simp_all add: peer_nodes_def)
  have link: "link_weight c ht pc = given c pc"
    using neighbour_table_lookup [OF assms(3-5) ht assms(7)] assms(7,8)
    by (auto simp: link_weight_def given_def split: option.splits)
  obtain c' where c': "update_peer_weights_last_seen now c ht pc = Some c'" "improves (nc_uuid pc) c c'"
    "nc_peer_count c + int (length (ht_nodes ht)) \<le> int MAX_PEERS \<longrightarrow>
      weights c' = relax_all (link_weight c ht pc) (nc_uuid c) (nc_uuid pc) (weights c) (ht_nodes ht)"
    using update_peer_weights_step [OF assms(1,2) nodes(1)] by blast
  have "nc_peer_count c + int (length (ht_nodes ht)) \<le> int MAX_PEERS"
    using nodes(2) assms(6) read_okD(3) [OF ok] by (simp add: read_okD(2) [OF ok])
  with c'(3) have w: "weights c' = relax_all (given c pc) (nc_uuid c) (nc_uuid pc) (weights c) (ht_nodes ht)"
    by (simp add: link)
  have "\<exists>d. (x = nc_uuid pc \<and> d = 0 \<or> weights pc x = Some d) \<and> w = i32 (given c pc + d)"
    if "nd \<in> set (ht_nodes ht)" "pi_uuid (node_value nd) = x" "w = i32 (given c pc + pi_weight (node_value nd))" for nd x w
    using neighbour_table_nodes [OF assms(3-5) ht that(1)] that(2,3) weights_peer [OF assms(3)]
    by (auto simp: peer_of_config_def)
  then show ?thesis
    using ht c'(1,2) relax_all_entry [of "given c pc" "nc_uuid c" "nc_uuid pc" "weights c" "ht_nodes ht"]
    by (intro exI [of _ c']) (fastforce simp: take_over_def w)
qed

subsection \<open>Networks\<close>

text \<open>
  The nodes \<open>V\<close> with their configurations. Two tables of all the other nodes together fit into
  one table, so that no chain of the update is left early, and no uuid is a prefix of another.
\<close>

definition network_ok :: "string set \<Rightarrow> (string \<Rightarrow> node_config) \<Rightarrow> bool" where
  "network_ok V net \<longleftrightarrow> finite V \<and> 2 * card V \<le> MAX_PEERS \<and>
     (\<forall>u\<in>V. table_key V u \<and> nc_uuid (net u) = u \<and> routing_inv (net u) \<and> set (peer_uuids (net u)) \<subseteq> V)"

text \<open>The sums that the receiver computes are in the range of \<open>int\<close>.\<close>

definition sums_fit :: "node_config \<Rightarrow> node_config \<Rightarrow> bool" where
  "sums_fit c pc \<longleftrightarrow> given c pc \<le> INT_MAX \<and> (\<forall>p\<in>set (live_peers pc). given c pc + pi_weight p \<le> INT_MAX)"

text \<open>Node \<open>v\<close> advertises to a node \<open>u\<close> of its own table (\<open>check_peer_status\<close>).\<close>

inductive advert :: "string set \<Rightarrow> string \<times> string \<Rightarrow> (string \<Rightarrow> node_config) \<Rightarrow> (string \<Rightarrow> node_config) \<Rightarrow> bool"
  for V where
  advert: "v \<in> V \<Longrightarrow> u \<in> V \<Longrightarrow> u \<in> set (peer_uuids (net v)) \<Longrightarrow> shows_table pc (net v) \<Longrightarrow>
    field_ok UUID_SIZE now \<Longrightarrow> sums_fit (net u) pc \<Longrightarrow> take_over now pc (net u) = Some c \<Longrightarrow>
    advert V (v, u) net (net(u := c))"

inductive_cases advertE: "advert V (v, u) net net'"

inductive adverts :: "string set \<Rightarrow> (string \<times> string) list \<Rightarrow> (string \<Rightarrow> node_config) \<Rightarrow> (string \<Rightarrow> node_config) \<Rightarrow> bool"
  for V where
  Nil: "adverts V [] net net"
| Cons: "advert V e net net' \<Longrightarrow> adverts V es net' net'' \<Longrightarrow> adverts V (e # es) net net''"

inductive_cases adverts_NilE: "adverts V [] net net'"
inductive_cases adverts_ConsE: "adverts V (e # es) net net'"

text \<open>Every distance of a table is the length of a path.\<close>

definition sound :: "string set \<Rightarrow> (string \<Rightarrow> string \<rightharpoonup> int) \<Rightarrow> (string \<Rightarrow> node_config) \<Rightarrow> bool" where
  "sound V L net \<longleftrightarrow> (\<forall>u\<in>V. \<forall>x w. weights (net u) x = Some w \<longrightarrow> 0 < w \<and> (\<exists>p. route L u x p w))"

definition closer :: "string set \<Rightarrow> (string \<Rightarrow> node_config) \<Rightarrow> (string \<Rightarrow> node_config) \<Rightarrow> bool" where
  "closer V net net' \<longleftrightarrow>
     (\<forall>u\<in>V. \<forall>x w. weights (net u) x = Some w \<longrightarrow> (\<exists>w'\<le>w. weights (net' u) x = Some w'))"

lemma closer_refl: "closer V net net"
  by (auto simp: closer_def)

lemma closer_trans: "closer V a b \<Longrightarrow> closer V b c \<Longrightarrow> closer V a c"
  unfolding closer_def by (meson order_trans)

lemma peer_count_card:
  assumes "network_ok V net" "u \<in> V"
  shows "nc_peer_count (net u) < int (card V)"
proof -
  have r: "routing_inv (net u)" "nc_uuid (net u) = u" "set (peer_uuids (net u)) \<subseteq> V" "finite V"
    using assms by (auto simp: network_ok_def)
  then have "set (peer_uuids (net u)) \<subset> V" using assms(2) by (auto simp: routing_inv_def)
  then have "card (set (peer_uuids (net u))) < card V" by (rule psubset_card_mono [OF r(4)])
  moreover have "card (set (peer_uuids (net u))) = length (live_peers (net u))"
    using r(1) distinct_card [of "peer_uuids (net u)"] by (simp add: routing_inv_def)
  moreover have "config_ok (net u)" using r(1) by (simp add: routing_inv_def)
  ultimately show ?thesis using length_live_peers config_okD(2) by fastforce
qed

lemma weights_uuid: "weights c x = Some w \<Longrightarrow> x \<in> set (peer_uuids c)"
  using weights_None_iff [of c x] by auto

text \<open>The facts about one step that the lemmas below share.\<close>

lemma advert_receiver:
  assumes "advert V (v, u) net net'" "network_ok V net" "symmetric_links L" "sound V L net"
  obtains pc now c wu where "net' = net(u := c)" "v \<in> V" "u \<in> V" "shows_table pc (net v)" "sums_fit (net u) pc"
    "take_over now pc (net u) = Some c" "field_ok UUID_SIZE now" "table_key V v"
    "\<forall>p\<in>set (live_peers pc). table_key V (pi_uuid p)" "shown_ok pc" "nc_uuid pc = v"
    "weights pc = weights (net v)" "routing_inv (net u)" "nc_uuid (net u) = u"
    "nc_peer_count (net u) + nc_peer_count pc < int MAX_PEERS" "weights (net v) u = Some wu"
    "0 < given (net u) pc" "\<exists>p. route L u v p (given (net u) pc)"
proof -
  from assms(1) obtain pc now c where n: "net' = net(u := c)" "v \<in> V" "u \<in> V" "u \<in> set (peer_uuids (net v))" "shows_table pc (net v)"
    "field_ok UUID_SIZE now" "sums_fit (net u) pc" "take_over now pc (net u) = Some c"
    by (rule advertE) simp
  have v: "routing_inv (net v)" "nc_uuid (net v) = v" "table_key V v" "set (peer_uuids (net v)) \<subseteq> V"
    and u: "routing_inv (net u)" "nc_uuid (net u) = u"
    using assms(2) n(2,3) by (auto simp: network_ok_def)
  have pc: "shown_ok pc" "nc_uuid pc = v" "peer_uuids pc = peer_uuids (net v)" "weights pc = weights (net v)"
    using shows_table_inv [OF n(5) v(1)] shows_table_uuids [OF n(5)] shows_table_weights [OF n(5)] n(5) v(2)
    by (auto simp: shows_table_def)
  have keys: "\<forall>p\<in>set (live_peers pc). table_key V (pi_uuid p)"
  proof
    fix p assume "p \<in> set (live_peers pc)"
    then have "pi_uuid p \<in> set (peer_uuids pc)" by simp
    then show "table_key V (pi_uuid p)" using pc(3) v(4) assms(2) by (auto simp: network_ok_def)
  qed
  obtain wu where wu: "weights (net v) u = Some wu" using n(4) weights_None_iff [of "net v" u] by auto
  have "int (2 * card V) \<le> int MAX_PEERS" using assms(2) unfolding network_ok_def by linarith
  then have room: "nc_peer_count (net u) + nc_peer_count pc < int MAX_PEERS"
    using peer_count_card [OF assms(2) n(2)] peer_count_card [OF assms(2) n(3)] n(5)
    by (simp add: shows_table_def)
  obtain p where p: "0 < wu" "route L v u p wu" using assms(4) n(2) wu unfolding sound_def by blast
  have "0 < given (net u) pc \<and> (\<exists>p. route L u v p (given (net u) pc))"
    using assms(4) n(3) wu p(1) route_rev [OF assms(3) p(2)]
    by (auto simp: given_def pc(2,4) u(2) sound_def split: option.split)
  with that [of c pc now wu] n v(3) keys pc u room wu show thesis by blast
qed

text \<open>The entries of the receiver afterwards.\<close>

lemma advert_entries:
  assumes "advert V (v, u) net net'" "network_ok V net" "symmetric_links L" "sound V L net"
  shows "improves v (net u) (net' u) \<and> (\<forall>x w. weights (net' u) x = Some w \<longrightarrow>
    0 < w \<and> (\<exists>p. route L u x p w) \<and> x \<in> V)"
proof -
  obtain pc now c wu where s: "net' = net(u := c)" "v \<in> V" "u \<in> V" "shows_table pc (net v)" "sums_fit (net u) pc"
    "take_over now pc (net u) = Some c" "field_ok UUID_SIZE now" "table_key V v"
    "\<forall>p\<in>set (live_peers pc). table_key V (pi_uuid p)" "shown_ok pc" "nc_uuid pc = v"
    "weights pc = weights (net v)" "routing_inv (net u)" "nc_uuid (net u) = u"
    "nc_peer_count (net u) + nc_peer_count pc < int MAX_PEERS" "weights (net v) u = Some wu"
    "0 < given (net u) pc" "\<exists>p. route L u v p (given (net u) pc)"
    using advert_receiver [OF assms] .
  have V: "set (peer_uuids (net u)) \<subseteq> V" "set (peer_uuids (net v)) \<subseteq> V"
    using assms(2) s(2,3) by (auto simp: network_ok_def)
  have c: "improves v (net u) c"
    "\<And>x w. weights c x = Some w \<Longrightarrow> weights (net u) x = Some w \<or>
      x \<noteq> u \<and> (\<exists>d. (x = v \<and> d = 0 \<or> weights (net v) x = Some d) \<and> w = i32 (given (net u) pc + d))"
    using take_over_step [OF s(13,7,10) _ s(9,15) _ s(17)] s(6,8,16) unfolding s(11,12,14) by auto
  have sum: "i32 (given (net u) pc + d) = given (net u) pc + d \<and> 0 \<le> d"
    if d: "d = 0 \<or> weights (net v) x = Some d" for d x
  proof -
    have "0 \<le> d \<and> given (net u) pc + d \<le> INT_MAX"
    proof (cases "d = 0")
      case False
      with d have x: "weights pc x = Some d" by (simp add: s(12))
      then obtain q where "q \<in> set (live_peers pc)" "pi_weight q = d" using peer_of_weight by blast
      moreover have "0 < d" using assms(4) s(2) x by (auto simp: sound_def s(12))
      ultimately show ?thesis using s(5) by (auto simp: sums_fit_def)
    qed (use s(5) in \<open>simp add: sums_fit_def\<close>)
    with s(17) show ?thesis by (auto intro!: i32_id simp: is_i32_def INT_MIN_def)
  qed
  have "0 < w \<and> (\<exists>p. route L u x p w) \<and> x \<in> V" if w: "weights c x = Some w" for x w
  proof (cases "weights (net u) x = Some w")
    case True
    with assms(4) s(3) V(1) weights_uuid [OF True] show ?thesis by (auto simp: sound_def)
  next
    case False
    then obtain d where d: "x = v \<and> d = 0 \<or> weights (net v) x = Some d" "w = given (net u) pc + d" "0 \<le> d"
      using c(2) [of x w] w sum by metis
    have "\<exists>p. route L u x p w"
      using d(1,2) s(2,18) route_append assms(4) by (auto simp: sound_def) (metis add.right_neutral)+
    moreover have "x \<in> V" using d(1) s(2) V(2) weights_uuid by blast
    ultimately show ?thesis using s(17) d(2,3) by simp
  qed
  with c(1) show ?thesis by (simp add: s(1))
qed

lemma advert_triangle:
  assumes "advert V (v, u) net net'" "network_ok V net" "symmetric_links L" "sound V L net"
    and "weights (net u) v = Some g" "weights (net v) x = Some w" "x \<noteq> u"
  shows "\<exists>w'\<le>g + w. weights (net' u) x = Some w'"
proof -
  obtain pc now c where s: "net' = net(u := c)" "sums_fit (net u) pc"
    "take_over now pc (net u) = Some c" "field_ok UUID_SIZE now" "table_key V v"
    "\<forall>p\<in>set (live_peers pc). table_key V (pi_uuid p)" "shown_ok pc" "nc_uuid pc = v"
    "weights pc = weights (net v)" "routing_inv (net u)" "nc_uuid (net u) = u"
    "nc_peer_count (net u) + nc_peer_count pc < int MAX_PEERS" "0 < given (net u) pc"
    using advert_receiver [OF assms(1-4)] .
  have known: "given (net u) pc = g" using assms(5) by (simp add: given_def s(8))
  obtain q where q: "q \<in> set (live_peers pc)" "pi_uuid q = x" "pi_weight q = w"
    using peer_of_weight [of pc x w] assms(6) s(9) by auto
  then have "pi_uuid q \<in> set (peer_uuids pc)" by auto
  then have "pi_uuid q \<noteq> nc_uuid pc" using s(7) by (auto simp: shown_ok_def)
  moreover have "0 < g" "g + pi_weight q \<le> INT_MAX"
    using s(2,13) q(1) by (simp_all add: known sums_fit_def)
  moreover have "read_ok pc" using s(7) by (simp add: shown_ok_def)
  ultimately show ?thesis
    using advertisement_distances [OF s(10,4) _ _ s(6)] s(3,5,12) assms(5,7) q
    by (auto simp: s(1,8,11) take_over_def)
qed

lemma advert_step:
  assumes "advert V (v, u) net net'" "network_ok V net" "symmetric_links L" "sound V L net"
  shows "network_ok V net' \<and> sound V L net' \<and> closer V net net'"
proof -
  obtain c where net': "net' = net(u := c)" "u \<in> V" using advert_receiver [OF assms] .
  have c: "improves v (net u) c" "\<And>x w. weights c x = Some w \<Longrightarrow> 0 < w \<and> (\<exists>p. route L u x p w) \<and> x \<in> V"
    using advert_entries [OF assms] net'(1) by auto
  have "set (peer_uuids c) \<subseteq> V"
  proof
    fix x assume "x \<in> set (peer_uuids c)"
    then obtain w where "weights c x = Some w" using weights_None_iff [of c x] by auto
    with c(2) show "x \<in> V" by blast
  qed
  moreover have "routing_inv c" "nc_uuid c = u"
    using c(1) assms(2) net'(2) by (simp_all add: improves_def network_ok_def)
  ultimately have "network_ok V net'" using assms(2) unfolding network_ok_def net'(1) by simp
  moreover have "sound V L net'" using assms(4) c(2) by (auto simp: sound_def net'(1))
  moreover have "closer V net net'" using c(1) by (auto simp: closer_def net'(1) improves_def)
  ultimately show ?thesis by blast
qed

subsection \<open>Runs\<close>

lemma adverts_keep:
  assumes "adverts V es net net'" "network_ok V net" "symmetric_links L" "sound V L net"
  shows "network_ok V net' \<and> sound V L net' \<and> closer V net net'"
  using assms
proof (induction rule: adverts.induct)
  case (Cons e net net' es net'')
  obtain v u where "e = (v, u)" by fastforce
  then have "network_ok V net' \<and> sound V L net' \<and> closer V net net'"
    using advert_step Cons.hyps(1) Cons.prems by blast
  with Cons closer_trans show ?case by blast
qed (simp add: closer_refl)

lemma adverts_split:
  "adverts V (es @ e # es') net net' \<Longrightarrow> \<exists>a b. adverts V es net a \<and> advert V e a b \<and> adverts V es' b net'"
proof (induction es arbitrary: net)
  case Nil
  then show ?case using adverts.Nil by (auto elim!: adverts_ConsE)
next
  case (Cons f es)
  then show ?case by (fastforce elim!: adverts_ConsE intro: adverts.Cons)
qed

lemma adverts_triangle:
  assumes "adverts V es net net'" "network_ok V net" "symmetric_links L" "sound V L net" "(v, u) \<in> set es"
    and "u \<in> V" "v \<in> V" "weights (net u) v = Some g" "weights (net v) x = Some w" "x \<noteq> u"
  shows "\<exists>w'\<le>g + w. weights (net' u) x = Some w'"
proof -
  obtain es1 es2 where "es = es1 @ (v, u) # es2" using split_list [OF assms(5)] by blast
  then obtain a b where run: "adverts V es1 net a" "advert V (v, u) a b" "adverts V es2 b net'"
    using adverts_split assms(1) by blast
  have a: "network_ok V a" "sound V L a" "closer V net a" using adverts_keep [OF run(1) assms(2-4)] by auto
  obtain g' w' where g: "g' \<le> g" "weights (a u) v = Some g'" and w: "w' \<le> w" "weights (a v) x = Some w'"
    using a(3) assms(6-9) unfolding closer_def by blast
  obtain d where d: "d \<le> g' + w'" "weights (b u) x = Some d"
    using advert_triangle [OF run(2) a(1) assms(3) a(2) g(2) w(2) assms(10)] by blast
  have "network_ok V b" "sound V L b" using advert_step [OF run(2) a(1) assms(3) a(2)] by auto
  then have "closer V b net'" using adverts_keep [OF run(3) _ assms(3)] by blast
  then obtain d' where "d' \<le> d" "weights (net' u) x = Some d'" using d(2) assms(6) unfolding closer_def by blast
  with d(1) g(1) w(1) show ?thesis by (intro exI [of _ d']) simp
qed

text \<open>A round: every node has heard from each of its neighbours, in any order, others may come in between.\<close>

definition covers :: "string set \<Rightarrow> (string \<Rightarrow> string \<rightharpoonup> int) \<Rightarrow> (string \<times> string) list \<Rightarrow> bool" where
  "covers V L es \<longleftrightarrow> (\<forall>u\<in>V. \<forall>v. L u v \<noteq> None \<longrightarrow> (v, u) \<in> set es)"

inductive rounds :: "string set \<Rightarrow> (string \<Rightarrow> string \<rightharpoonup> int) \<Rightarrow> nat \<Rightarrow> (string \<Rightarrow> node_config) \<Rightarrow> (string \<Rightarrow> node_config) \<Rightarrow> bool"
  for V L where
  start: "rounds V L 0 net0 net0"
| next_round: "rounds V L n net0 net \<Longrightarrow> adverts V es net net' \<Longrightarrow> covers V L es \<Longrightarrow> rounds V L (Suc n) net0 net'"

text \<open>At the start each table lists the neighbours with the weights of the links.\<close>

definition configured :: "string set \<Rightarrow> (string \<Rightarrow> string \<rightharpoonup> int) \<Rightarrow> (string \<Rightarrow> node_config) \<Rightarrow> bool" where
  "configured V L net \<longleftrightarrow> network_ok V net \<and> symmetric_links L \<and> (\<forall>u\<in>V. weights (net u) = L u)"

lemma configured_sound: "configured V L net \<Longrightarrow> sound V L net"
  using route_link unfolding configured_def sound_def symmetric_links_def by metis

lemma rounds_keep:
  assumes "rounds V L n net0 net" "configured V L net0"
  shows "network_ok V net \<and> sound V L net \<and> closer V net0 net"
  using assms
proof (induction rule: rounds.induct)
  case start
  then show ?case using configured_sound by (auto simp: configured_def closer_refl)
next
  case (next_round n net0 net es net')
  then have "network_ok V net \<and> sound V L net \<and> closer V net0 net" "symmetric_links L"
    by (auto simp: configured_def)
  with adverts_keep [OF next_round.hyps(2)] closer_trans show ?case by blast
qed

lemma path_cost_nonneg: "symmetric_links L \<Longrightarrow> path_cost L p = Some c \<Longrightarrow> 0 \<le> c"
proof (induction L p arbitrary: c rule: path_cost.induct)
  case (3 L u v vs)
  then obtain l d where l: "L u v = Some l" "path_cost L (v # vs) = Some d" "c = l + d"
    by (auto simp: bind_Some_iff)
  have "0 \<le> d" using "3.IH" [OF l(1) "3.prems"(1) l(2)] .
  moreover have "0 < l" using "3.prems"(1) l(1) unfolding symmetric_links_def by blast
  ultimately show ?case using l(3) by simp
qed auto

lemma rounds_reach:
  assumes "rounds V L n net0 net" "configured V L net0"
    and "u \<in> V" "u \<noteq> x" "route L u x p c" "length p \<le> n + 2"
  shows "\<exists>w\<le>c. weights (net u) x = Some w"
  using assms
proof (induction arbitrary: u p c rule: rounds.induct)
  case start
  then obtain v vs where p: "p = u # v # vs"
    by (cases p rule: remdups_adj.cases) (auto simp: route_def)
  then have "vs = []" using start.prems(5) by simp
  with start.prems p have "L u x = Some c" by (auto simp: route_def bind_Some_iff)
  with start.prems(1,2) show ?case by (auto simp: configured_def)
next
  case (next_round n net0 net es net')
  obtain v vs where p: "p = u # v # vs"
    using next_round.prems(3,4) by (cases p rule: remdups_adj.cases) (auto simp: route_def)
  then obtain l d where l: "L u v = Some l" "path_cost L (v # vs) = Some d" "c = l + d"
    using next_round.prems(4) by (auto simp: route_def bind_Some_iff)
  have sym: "symmetric_links L" and v: "v \<in> V"
    using next_round.prems(1,2) l(1) weights_uuid [of "net0 u" v l]
    by (auto simp: configured_def network_ok_def)
  note keep = rounds_keep [OF next_round.hyps(1) next_round.prems(1)]
  have "weights (net0 u) v = Some l" using next_round.prems(1,2) l(1) by (simp add: configured_def)
  then obtain g where g: "g \<le> l" "weights (net u) v = Some g"
    using keep next_round.prems(2) unfolding closer_def by blast
  have later: "closer V net net'" using adverts_keep [OF next_round.hyps(2) _ sym] keep by blast
  show ?case
  proof (cases "v = x")
    case True
    obtain g' where "g' \<le> g" "weights (net' u) x = Some g'"
      using later g(2) next_round.prems(2) True unfolding closer_def by blast
    with g(1) l(3) path_cost_nonneg [OF sym l(2)] show ?thesis by (intro exI [of _ g']) simp
  next
    case False
    have "route L v x (v # vs) d" using next_round.prems(4) l(2) p by (simp add: route_def)
    then obtain w where w: "w \<le> d" "weights (net v) x = Some w"
      using next_round.IH [OF next_round.prems(1) v False, of "v # vs" d] next_round.prems(5) p by auto
    have "(v, u) \<in> set es" using next_round.hyps(3) next_round.prems(2) l(1) by (simp add: covers_def)
    then obtain w' where "w' \<le> g + w" "weights (net' u) x = Some w'"
      using adverts_triangle [OF next_round.hyps(2) _ sym _ _ next_round.prems(2) v g(2) w(2)] keep
        next_round.prems(3) by blast
    with g(1) w(1) l(3) show ?thesis by (intro exI [of _ w']) simp
  qed
qed

subsection \<open>Runs exist\<close>

definition bounded :: "string set \<Rightarrow> int \<Rightarrow> (string \<Rightarrow> node_config) \<Rightarrow> bool" where
  "bounded V B net \<longleftrightarrow> (\<forall>u\<in>V. \<forall>x w. weights (net u) x = Some w \<longrightarrow> w \<le> B)"

lemma shows_own_table: "routing_inv c \<Longrightarrow> shows_table c c"
  using routing_shown [of c] by (simp add: shows_table_def shown_ok_def)

lemma advert_exists:
  assumes "network_ok V net" "symmetric_links L" "sound V L net" "bounded V B net" "2 * B \<le> INT_MAX"
    and "v \<in> V" "u \<in> V" "u \<in> set (peer_uuids (net v))"
  shows "\<exists>net'. advert V (v, u) net net' \<and> bounded V (2 * B) net'"
proof -
  have v: "routing_inv (net v)" "nc_uuid (net v) = v" "table_key V v"
    and u: "routing_inv (net u)" "nc_uuid (net u) = u"
    using assms(1,6,7) by (auto simp: network_ok_def)
  have keys: "\<forall>p\<in>set (live_peers (net v)). table_key V (pi_uuid p)"
    using assms(1,6) by (auto simp: network_ok_def)
  have pos: "0 < w \<and> w \<le> B" if "weights (net y) x = Some w" "y \<in> V" for x y w
    using assms(3,4) that by (auto simp: sound_def bounded_def)
  obtain wu where wu: "weights (net v) u = Some wu" using assms(8) weights_None_iff [of "net v" u] by auto
  have g: "0 < given (net u) (net v) \<and> given (net u) (net v) \<le> B"
    using pos wu assms(6,7) u(2) v(2) by (auto simp: given_def split: option.split)
  have fit: "sums_fit (net u) (net v)"
    using g pos weights_peer [OF routing_shown [OF v(1)]] assms(5,6) by (fastforce simp: sums_fit_def)
  have "int (2 * card V) \<le> int MAX_PEERS" using assms(1) unfolding network_ok_def by linarith
  then have room: "nc_peer_count (net u) + nc_peer_count (net v) < int MAX_PEERS"
    using peer_count_card [OF assms(1,6)] peer_count_card [OF assms(1,7)] by simp
  have now: "field_ok UUID_SIZE ''now''" by (simp add: field_ok_def)
  obtain c where c: "take_over ''now'' (net v) (net u) = Some c"
    "\<And>x w. weights c x = Some w \<Longrightarrow> weights (net u) x = Some w \<or>
      x \<noteq> u \<and> (\<exists>d. (x = v \<and> d = 0 \<or> weights (net v) x = Some d) \<and> w = i32 (given (net u) (net v) + d))"
    using take_over_step [OF u(1) now routing_shown [OF v(1)] _ keys room] v(2,3) u(2) wu g by auto
  have "w \<le> 2 * B" if cw: "weights c x = Some w" for x w
  proof (cases "weights (net u) x = Some w")
    case True
    with pos [OF True assms(7)] g show ?thesis by simp
  next
    case False
    then obtain d where d: "x = v \<and> d = 0 \<or> weights (net v) x = Some d" "w = i32 (given (net u) (net v) + d)"
      using c(2) cw by blast
    then have "0 \<le> d \<and> d \<le> B" using pos [of v x d] assms(6) g by auto
    with g assms(5) have "i32 (given (net u) (net v) + d) = given (net u) (net v) + d"
      by (intro i32_id) (auto simp: is_i32_def INT_MIN_def)
    with d(2) g \<open>0 \<le> d \<and> d \<le> B\<close> show ?thesis by simp
  qed
  moreover have "w \<le> 2 * B" if "weights (net y) x = Some w" "y \<in> V" for x y w using pos [OF that] g by simp
  ultimately have "bounded V (2 * B) (net(u := c))" by (auto simp: bounded_def)
  moreover have "advert V (v, u) net (net(u := c))"
    using advert.advert [OF assms(6,7,8) shows_own_table [OF v(1)] now fit c(1)] .
  ultimately show ?thesis by blast
qed

lemma adverts_exist:
  assumes "network_ok V net" "symmetric_links L" "sound V L net" "bounded V B net" "2 ^ length es * B \<le> INT_MAX"
    and "0 < B" "\<forall>(v, u)\<in>set es. v \<in> V \<and> u \<in> V \<and> u \<in> set (peer_uuids (net v))"
  shows "\<exists>net'. adverts V es net net'"
  using assms
proof (induction es arbitrary: net B)
  case Nil
  show ?case using adverts.Nil by blast
next
  case (Cons e es)
  obtain v u where e: "e = (v, u)" by fastforce
  have "2 * B \<le> 2 ^ length (e # es) * B" using Cons.prems(6) by (simp add: mult_le_cancel_right)
  with Cons.prems(5) have B: "2 * B \<le> INT_MAX" by linarith
  have "v \<in> V" "u \<in> V" "u \<in> set (peer_uuids (net v))" using Cons.prems(7) e by auto
  then obtain net' where n: "advert V (v, u) net net'" "bounded V (2 * B) net'"
    using advert_exists [OF Cons.prems(1-4) B] by blast
  have k: "network_ok V net'" "sound V L net'" "closer V net net'"
    using advert_step [OF n(1) Cons.prems(1-3)] by auto
  have listed: "y \<in> set (peer_uuids (net' x))" if x: "x \<in> V" "y \<in> set (peer_uuids (net x))" for x y
  proof -
    obtain w where "weights (net x) y = Some w" using x(2) weights_None_iff [of "net x" y] by auto
    with k(3) x(1) weights_uuid show ?thesis unfolding closer_def by blast
  qed
  have "\<exists>net''. adverts V es net' net''"
    using Cons.prems(2,5,6,7) listed n(2) k(1,2) by (intro Cons.IH [of net' "2 * B"]) (auto simp: mult.assoc mult.left_commute)
  with n(1) e adverts.Cons show ?case by blast
qed

subsection \<open>The step of the programs\<close>

text \<open>
  C3. The messages of the programs are steps of the network: when a node handles the request that
  another node's \<open>check_peer_status\<close> sends for it, and runs into no undefined behaviour, it answers
  and its configuration changes as one advertisement changes it, whatever the memory for the
  received configuration and for the strings held. It runs into none where the memory happens to
  hold a NUL right behind every path that is advertised (the keys are copied without theirs) and
  the dead variable a path. The paths of the sender are ended in its own table, shorter than 128
  bytes and none a prefix of another; the network has at most 25 nodes, the clock and the address
  fit their buffers and no sum of distances leaves \<open>int\<close>.
\<close>

theorem exchange_is_advert:
  assumes "network_ok V net" "v \<in> V" "u \<in> V" "nd_config nd = net u"
    and "sender_ok V F (net v) files" "receiver_ok V F v env nd" "peer \<in> set (live_peers (net v))" "pi_uuid peer = u"
    and "link_state_request (net v) peer files = Some req" "CR \<notin> set (pi_host peer)"
    and "sums_fit (net u) (known_config env (net v))"
  shows "(child_routine env (Some req) fd nd \<noteq> None \<longrightarrow>
      (\<exists>nd' m. child_routine env (Some req) fd nd = Some (Answer nd' [Tcp (Send fd m), Tcp (CloseFd fd)]) \<and>
        advert V (v, u) net (net(u := nd_config nd')))) \<and>
    (memory_ends env nd (paths_of files) \<longrightarrow> child_routine env (Some req) fd nd \<noteq> None)"
proof -
  have v: "config_ok (net v)" "nc_uuid (net v) = v" using assms(1,2) by (auto simp: network_ok_def routing_inv_def)
  have host: "cstring (pi_host peer)" using live_peers_ok [OF v(1) assms(7)] by (simp add: peer_ok_def field_ok_def)
  have r: "receiver_ok V F (nc_uuid (net v)) env nd" using assms(6) v(2) by simp
  obtain m own m' where h: "child_routine env (Some req) fd nd = do {
      ads \<leftarrow> files_map_items (sv_ad_blocks env) 0 (map file_member (paths_of files))
        (hash_table_create MAX_HASHTABLE_SIZE);
      files' \<leftarrow> update_files (sv_dead_path env) (sv_file_blocks env) 0 (nc_uuid (net v)) (ht_nodes ads) (nd_filepaths nd);
      _ \<leftarrow> node_config_to_json own True (Some files');
      Some (Answer (nd\<lparr>nd_config := own, nd_network_map := m', nd_filepaths := files'\<rparr>)
        [Tcp (Send fd m), Tcp (CloseFd fd)]) }"
    "take_over (sv_now env) (known_config env (net v)) (net u) = Some own" "config_ok own"
    using exchange_handled [OF assms(5) r assms(9) host assms(10), of fd] assms(4) by auto
  have "pi_uuid peer \<in> set (peer_uuids (net v))" using assms(7) by simp
  moreover have "field_ok UUID_SIZE (sv_now env)" using assms(6) by (simp add: receiver_ok_def)
  ultimately have advert: "advert V (v, u) net (net(u := own))"
    using advert.advert [OF assms(2,3) _ known_config_shows [OF assms(6) v(1)] _ assms(11) h(2)] assms(8) by simp
  show ?thesis
  proof (intro conjI impI, goal_cases)
    case 1
    then obtain files' where "child_routine env (Some req) fd nd = Some (Answer
        (nd\<lparr>nd_config := own, nd_network_map := m', nd_filepaths := files'\<rparr>)
        [Tcp (Send fd m), Tcp (CloseFd fd)])"
      unfolding h(1) by (auto simp: bind_eq_None_conv)
    with advert show ?case by (intro exI conjI) (assumption | simp)+
  next
    case 2
    from files_taken_over [OF assms(5) r this h(3)] show ?case by (auto simp: h(1))
  qed
qed

definition sample_second :: node_config where
  "sample_second = with_peer (global_config_init\<lparr>nc_uuid := ''n2''\<rparr>) (new_peer ''n1'' ''near'' 8080 8081 7)"

lemma sample_second_ok:
  "routing_inv sample_second" "nc_uuid sample_second = ''n2''" "weights sample_second = [''n1'' \<mapsto> 7]"
  "peer_uuids sample_second = [''n1'']"
proof -
  have i: "is_i32 8080" "is_i32 8081" "is_i32 7" by (simp_all add: is_i32_def INT_MAX_def INT_MIN_def)
  have "config_ok (global_config_init\<lparr>nc_uuid := ''n2''\<rparr>)"
    using global_config_init_ok by (simp add: config_ok_def field_ok_def)
  then have "config_ok sample_second \<and> live_peers sample_second =
      live_peers (global_config_init\<lparr>nc_uuid := ''n2''\<rparr>) @ [new_peer ''n1'' ''near'' 8080 8081 7]"
    unfolding sample_second_def using sample_peer_ok i
    by (intro with_peer_live) (simp_all add: global_config_init_simps MAX_PEERS_def)
  moreover have "live_peers (global_config_init\<lparr>nc_uuid := ''n2''\<rparr>) = []"
    by (simp add: live_peers_def global_config_init_simps)
  moreover show "nc_uuid sample_second = ''n2''" by (simp add: sample_second_def with_peer_def)
  ultimately show "routing_inv sample_second" "weights sample_second = [''n1'' \<mapsto> 7]" "peer_uuids sample_second = [''n1'']"
    by (simp_all add: routing_inv_def weights_def new_peer_def)
qed

lemma exchange_is_advert_witness:
  "\<exists>req nd' m. child_routine sample_server (Some req) 5 (sample_receiver\<lparr>nd_config := sample_second\<rparr>) =
      Some (Answer nd' [Tcp (Send 5 m), Tcp (CloseFd 5)]) \<and>
    advert {''n1'', ''n2''} (''n1'', ''n2'') ((\<lambda>_. sample_sender)(''n2'' := sample_second))
      ((\<lambda>_. sample_sender)(''n2'' := nd_config nd'))"
proof -
  let ?V = "{''n1'', ''n2''} :: string set" and ?net = "(\<lambda>_. sample_sender)(''n2'' := sample_second)"
  let ?p = "new_peer ''n2'' ''far'' 8082 8083 7" and ?nd = "sample_receiver\<lparr>nd_config := sample_second\<rparr>"
  have "set (peer_uuids sample_second) = {''n1''}" by (simp only: sample_second_ok(4)) simp
  then have n: "network_ok ?V ?net"
    using sample_sender_live sample_second_ok(1-3) sample_keys
    by (simp add: network_ok_def MAX_PEERS_def routing_inv_def new_peer_def)
  obtain req where req: "link_state_request sample_sender ?p sample_files = Some req"
    using sample_request [of ?p] by (auto simp: new_peer_def is_i32_def INT_MAX_def INT_MIN_def)
  have r: "receiver_ok ?V {''content/a''} ''n1'' sample_server ?nd"
    using sample_receiver_ok sample_second_ok(1) by (simp add: receiver_ok_def)
  have k: "shows_table (known_config sample_server sample_sender) sample_sender"
    by (rule known_config_shows [OF r sample_sender_live(1)])
  have fit: "sums_fit sample_second (known_config sample_server sample_sender)"
  proof -
    have "pi_weight p = 7" if "p \<in> set (live_peers (known_config sample_server sample_sender))" for p
    proof -
      have "(pi_uuid p, pi_weight p) \<in> set (map (\<lambda>p. (pi_uuid p, pi_weight p)) (live_peers sample_sender))"
        using that k unfolding shows_table_def by (metis (mono_tags, lifting) image_eqI list.set_map)
      then show ?thesis using sample_sender_live(2) by (simp add: new_peer_def)
    qed
    then show ?thesis
      using sample_second_ok(3) sample_sender_live(3) by (simp add: sums_fit_def given_def INT_MAX_def)
  qed
  have mem: "memory_ends sample_server ?nd (paths_of sample_files)"
    using sample_memory by (simp add: memory_ends_def)
  have "(child_routine sample_server (Some req) 5 ?nd \<noteq> None \<longrightarrow>
      (\<exists>nd' m. child_routine sample_server (Some req) 5 ?nd =
        Some (Answer nd' [Tcp (Send 5 m), Tcp (CloseFd 5)]) \<and>
        advert ?V (''n1'', ''n2'') ?net (?net(''n2'' := nd_config nd')))) \<and>
    (memory_ends sample_server ?nd (paths_of sample_files) \<longrightarrow> child_routine sample_server (Some req) 5 ?nd \<noteq> None)"
    by (rule exchange_is_advert [OF n, where F = "{''content/a''}" and files = sample_files and peer = ?p])
      (use req r fit sample_sender_ok sample_sender_live(2) in \<open>simp_all add: new_peer_def\<close>)
  with mem have "\<exists>nd' m. child_routine sample_server (Some req) 5 ?nd =
      Some (Answer nd' [Tcp (Send 5 m), Tcp (CloseFd 5)]) \<and>
      advert ?V (''n1'', ''n2'') ?net (?net(''n2'' := nd_config nd'))" by blast
  then show ?thesis by auto
qed

subsection \<open>Shortest paths\<close>

text \<open>
  C2. A table never claims a distance that is not the length of a path: in every run of
  advertisements, in any order, each entry of each table is the length of some path of links,
  so never below the length of the shortest path.
\<close>

theorem distances_are_path_lengths:
  assumes "configured V L net0" "adverts V es net0 net" "u \<in> V" "weights (net u) x = Some w"
  shows "0 < w \<and> (\<exists>p. route L u x p w)"
proof -
  have "network_ok V net0" "symmetric_links L" using assms(1) by (auto simp: configured_def)
  then have "sound V L net" using adverts_keep [OF assms(2) _ _ configured_sound [OF assms(1)]] by blast
  with assms(3,4) show ?thesis by (auto simp: sound_def)
qed

text \<open>
  C1. The tables converge: when each node has heard from each of its neighbours once in each of
  \<open>n\<close> rounds, the distance to a node whose shortest path has at most \<open>n + 1\<close> links is exactly the
  length of that path.
\<close>

theorem routing_converges:
  assumes "configured V L net0" "rounds V L n net0 net" "u \<in> V" "u \<noteq> x"
    and "route L u x p c" "length p \<le> n + 2" "\<And>q d. route L u x q d \<Longrightarrow> c \<le> d"
  shows "weights (net u) x = Some c"
proof -
  obtain w where w: "w \<le> c" "weights (net u) x = Some w"
    using rounds_reach [OF assms(2,1,3-6)] by blast
  then obtain q where "route L u x q w"
    using rounds_keep [OF assms(2,1)] assms(3) unfolding sound_def by blast
  with assms(7) w show ?thesis by fastforce
qed

text \<open>Three nodes in a row, with links of weight 1 and 2.\<close>

abbreviation sample_nodes :: "string set" where
  "sample_nodes \<equiv> {''a'', ''b'', ''c''}"

definition sample_neighbours :: "string \<Rightarrow> (string \<times> int) list" where
  "sample_neighbours u = (if u = ''a'' then [(''b'', 1)] else if u = ''b'' then [(''a'', 1), (''c'', 2)]
     else if u = ''c'' then [(''b'', 2)] else [])"

definition sample_net :: "string \<Rightarrow> node_config" where
  "sample_net u = foldl with_peer (global_config_init\<lparr>nc_uuid := u\<rparr>)
     (map (\<lambda>(v, w). new_peer v [] 8080 8081 w) (sample_neighbours u))"

lemma with_peers_live:
  assumes "config_ok c" "nc_peer_count c + int (length ps) \<le> int MAX_PEERS" "\<forall>p\<in>set ps. peer_ok p"
  shows "config_ok (foldl with_peer c ps) \<and> live_peers (foldl with_peer c ps) = live_peers c @ ps \<and>
    nc_uuid (foldl with_peer c ps) = nc_uuid c"
  using assms
proof (induction ps arbitrary: c)
  case (Cons p ps)
  then have "config_ok (with_peer c p) \<and> live_peers (with_peer c p) = live_peers c @ [p]"
    by (intro with_peer_live) auto
  with Cons.IH [of "with_peer c p"] Cons.prems show ?case by (simp add: with_peer_def)
qed simp

lemma sample_net_live:
  assumes "u \<in> sample_nodes"
  shows "config_ok (sample_net u)" "nc_uuid (sample_net u) = u"
    "map (\<lambda>p. (pi_uuid p, pi_weight p)) (live_peers (sample_net u)) = sample_neighbours u"
proof -
  let ?ps = "map (\<lambda>(v, w). new_peer v [] 8080 8081 w) (sample_neighbours u)"
  have "config_ok (global_config_init\<lparr>nc_uuid := u\<rparr>)" "live_peers (global_config_init\<lparr>nc_uuid := u\<rparr>) = []"
    "nc_peer_count (global_config_init\<lparr>nc_uuid := u\<rparr>) = 0"
    using assms global_config_init_ok global_config_init_simps
    by (auto simp: config_ok_def field_ok_def live_peers_def)
  moreover have "\<forall>p\<in>set ?ps. peer_ok p"
    using assms by (auto simp: sample_neighbours_def new_peer_def peer_ok_def field_ok_def is_i32_def
        INT_MAX_def INT_MIN_def)
  moreover have "length ?ps \<le> 2" by (simp add: sample_neighbours_def)
  ultimately have "config_ok (sample_net u) \<and> live_peers (sample_net u) = ?ps \<and> nc_uuid (sample_net u) = u"
    using with_peers_live [of "global_config_init\<lparr>nc_uuid := u\<rparr>" ?ps] by (simp add: sample_net_def MAX_PEERS_def)
  then show "config_ok (sample_net u)" "nc_uuid (sample_net u) = u"
    "map (\<lambda>p. (pi_uuid p, pi_weight p)) (live_peers (sample_net u)) = sample_neighbours u"
    by (simp_all add: comp_def case_prod_beta new_peer_def)
qed

lemma sample_configured: "configured sample_nodes (\<lambda>u. map_of (sample_neighbours u)) sample_net"
proof -
  have uu: "peer_uuids (sample_net u) = map fst (sample_neighbours u)" if "u \<in> sample_nodes" for u
    using arg_cong [OF sample_net_live(3) [OF that], of "map fst"] by (simp add: comp_def)
  have keys: "table_key sample_nodes u" if "u \<in> sample_nodes" for u
    using that by (auto simp: table_key_def prefix_free_def)
  have "routing_inv (sample_net u) \<and> set (peer_uuids (sample_net u)) \<subseteq> sample_nodes" if "u \<in> sample_nodes" for u
    unfolding routing_inv_def uu [OF that] sample_net_live(2) [OF that]
    using sample_net_live(1) [OF that] that by (auto simp: sample_neighbours_def)
  then have "network_ok sample_nodes sample_net"
    using keys sample_net_live(2) by (simp add: network_ok_def MAX_PEERS_def)
  moreover have "symmetric_links (\<lambda>u. map_of (sample_neighbours u))"
    by (auto simp: symmetric_links_def sample_neighbours_def split: if_splits)
  moreover have "weights (sample_net u) = map_of (sample_neighbours u)" if "u \<in> sample_nodes" for u
    using sample_net_live(3) [OF that] by (simp add: weights_def)
  ultimately show ?thesis by (simp add: configured_def)
qed

lemma path_cost_potential:
  assumes "\<And>u v l. L u v = Some l \<Longrightarrow> f u \<le> l + f v"
  shows "path_cost L p = Some c \<Longrightarrow> (f (hd p) :: int) \<le> c + f (last p)"
proof (induction p arbitrary: c rule: remdups_adj.induct)
  case (3 u v vs)
  then obtain l d where l: "L u v = Some l" "path_cost L (v # vs) = Some d" "c = l + d"
    by (auto simp: bind_Some_iff)
  have "f v \<le> d + f (last (v # vs))" using 3 l(2) by (metis list.sel(1))
  with assms [OF l(1)] l(3) show ?case by simp
qed simp_all

lemma sample_shortest: "route (\<lambda>u. map_of (sample_neighbours u)) ''a'' ''c'' q d \<Longrightarrow> 3 \<le> d"
proof -
  define f :: "string \<Rightarrow> int" where "f u = (if u = ''a'' then 3 else if u = ''b'' then 2 else 0)" for u
  have "f u \<le> l + f v" if "map_of (sample_neighbours u) v = Some l" for u v l
    using that by (auto simp: f_def sample_neighbours_def split: if_splits)
  from path_cost_potential [of "\<lambda>u. map_of (sample_neighbours u)" f, OF this]
  show "route (\<lambda>u. map_of (sample_neighbours u)) ''a'' ''c'' q d \<Longrightarrow> 3 \<le> d"
    by (fastforce simp: route_def f_def)
qed

abbreviation sample_round :: "(string \<times> string) list" where
  "sample_round \<equiv> [(''b'', ''a''), (''a'', ''b''), (''c'', ''b''), (''b'', ''c'')]"

lemma sample_run: "\<exists>net. adverts sample_nodes sample_round sample_net net"
proof (rule adverts_exist [where L = "\<lambda>u. map_of (sample_neighbours u)" and B = 2])
  note c = sample_configured
  show "network_ok sample_nodes sample_net" "symmetric_links (\<lambda>u. map_of (sample_neighbours u))"
    "sound sample_nodes (\<lambda>u. map_of (sample_neighbours u)) sample_net"
    using c configured_sound [OF c] by (simp_all add: configured_def)
  show "bounded sample_nodes 2 sample_net"
    using c by (auto simp: configured_def bounded_def sample_neighbours_def split: if_splits)
  have "y \<in> set (peer_uuids (sample_net x))" if "x \<in> sample_nodes" "y \<in> fst ` set (sample_neighbours x)" for x y
    using arg_cong [OF sample_net_live(3) [OF that(1)], of "\<lambda>xs. set (map fst xs)"] that(2) by (simp add: comp_def image_image)
  then show "\<forall>(v, u)\<in>set sample_round. v \<in> sample_nodes \<and> u \<in> sample_nodes \<and> u \<in> set (peer_uuids (sample_net v))"
    by (simp add: sample_neighbours_def)
qed (simp_all add: INT_MAX_def)

lemma distances_are_path_lengths_witness:
  "\<exists>net. adverts sample_nodes sample_round sample_net net \<and> weights (net ''a'') ''b'' \<noteq> None \<and>
    (\<forall>w. weights (net ''a'') ''b'' = Some w \<longrightarrow> 0 < w \<and> (\<exists>p. route (\<lambda>u. map_of (sample_neighbours u)) ''a'' ''b'' p w))"
proof -
  obtain net where net: "adverts sample_nodes sample_round sample_net net" using sample_run by blast
  have "weights (sample_net ''a'') ''b'' = Some 1"
    using sample_configured by (simp add: configured_def sample_neighbours_def)
  then have "weights (net ''a'') ''b'' \<noteq> None"
    using adverts_keep [OF net _ _ configured_sound [OF sample_configured]] sample_configured
    by (fastforce simp: configured_def closer_def)
  with net distances_are_path_lengths [OF sample_configured net, of "''a''" "''b''"] show ?thesis by blast
qed

lemma routing_converges_witness:
  "\<exists>net. rounds sample_nodes (\<lambda>u. map_of (sample_neighbours u)) 1 sample_net net \<and>
    weights (sample_net ''a'') ''c'' = None \<and> weights (net ''a'') ''c'' = Some 3"
proof -
  obtain net where "adverts sample_nodes sample_round sample_net net" using sample_run by blast
  moreover have "covers sample_nodes (\<lambda>u. map_of (sample_neighbours u)) sample_round"
    by (auto simp: covers_def sample_neighbours_def)
  ultimately have r: "rounds sample_nodes (\<lambda>u. map_of (sample_neighbours u)) (Suc 0) sample_net net"
    by (intro rounds.next_round [OF rounds.start])
  have "route (\<lambda>u. map_of (sample_neighbours u)) ''a'' ''c'' [''a'', ''b'', ''c''] 3"
    by (simp add: route_def sample_neighbours_def)
  then have "weights (net ''a'') ''c'' = Some 3"
    using routing_converges [OF sample_configured r, of "''a''" "''c''" "[''a'', ''b'', ''c'']" 3] sample_shortest
    by simp
  moreover have "weights (sample_net ''a'') ''c'' = None"
    using sample_configured by (simp add: configured_def sample_neighbours_def)
  ultimately show ?thesis using r by auto
qed

end
