(* ===== verification/Threads.thy ===== *)
theory Threads
  imports Server
begin

text \<open>
  The accept loop of \<open>main\<close> and the threads it starts, as interleavings. \<open>main\<close> passes the
  address of its loop variable \<open>tcp_connection_fd\<close>; a thread reads the descriptor from there when it
  gets to run (\<open>thread_routine\<close>), and the variable lies in the same place in every iteration.
\<close>

text \<open>
  The memory of the variable, the number of threads that have not yet read it, the descriptors
  accepted and those that threads have taken.
\<close>

record accept_state =
  as_acceptor :: acceptor
  as_variable :: int
  as_waiting :: nat
  as_accepted :: "int list"
  as_handled :: "int list"

definition accept_init :: "int \<Rightarrow> accept_state" where
  "accept_init junk = \<lparr>as_acceptor = \<lparr>ac_connections = [], ac_thread_index = 0\<rparr>, as_variable = junk,
     as_waiting = 0, as_accepted = [], as_handled = []\<rparr>"

text \<open>\<open>thread_routine\<close>: the descriptor that \<open>child_routine\<close> is called with.\<close>

definition thread_routine :: "accept_state \<Rightarrow> accept_state" where
  "thread_routine s = s\<lparr>as_waiting := as_waiting s - 1, as_handled := as_handled s @ [as_variable s]\<rparr>"

inductive accept_run_step :: "accept_state \<Rightarrow> accept_state \<Rightarrow> bool" where
  accepted: "accept_step fd (as_acceptor s) = Some (Some i, ac) \<Longrightarrow>
    accept_run_step s (s\<lparr>as_acceptor := ac, as_variable := fd, as_waiting := as_waiting s + 1,
      as_accepted := as_accepted s @ [fd]\<rparr>)"
| failed: "accept_step (- 1) (as_acceptor s) = Some (None, ac) \<Longrightarrow>
    accept_run_step s (s\<lparr>as_acceptor := ac, as_variable := - 1\<rparr>)"
| removed: "remove_socket fd (ac_connections (as_acceptor s)) = (r, acts, conns) \<Longrightarrow>
    accept_run_step s (s\<lparr>as_acceptor := (as_acceptor s)\<lparr>ac_connections := conns\<rparr>\<rparr>)"
| thread: "0 < as_waiting s \<Longrightarrow> accept_run_step s (thread_routine s)"

inductive_cases accept_run_stepE: "accept_run_step s s'"

inductive accept_run :: "accept_state \<Rightarrow> accept_state \<Rightarrow> bool" for s0 where
  start: "accept_run s0 s0"
| step: "accept_run s0 s \<Longrightarrow> accept_run_step s s' \<Longrightarrow> accept_run s0 s'"

subsection \<open>What every interleaving keeps\<close>

text \<open>One call of \<open>child_routine\<close> for each connection, on a descriptor that was accepted or on -1.\<close>

definition accept_inv :: "accept_state \<Rightarrow> bool" where
  "accept_inv s \<longleftrightarrow>
     length (as_handled s) + as_waiting s = length (as_accepted s) \<and>
     set (as_handled s) \<subseteq> insert (- 1) (set (as_accepted s)) \<and>
     (0 < as_waiting s \<longrightarrow> as_variable s \<in> insert (- 1) (set (as_accepted s)))"

lemma accept_inv_step: "accept_run_step s s' \<Longrightarrow> accept_inv s \<Longrightarrow> accept_inv s'"
  by (cases rule: accept_run_step.cases) (auto simp: accept_inv_def thread_routine_def)

lemma accept_inv_run: "accept_run s0 s \<Longrightarrow> accept_inv s0 \<Longrightarrow> accept_inv s"
  by (induction rule: accept_run.induct) (auto intro: accept_inv_step)

lemma accept_inv_init: "accept_inv (accept_init junk)"
  by (simp add: accept_inv_def accept_init_def)

subsection \<open>The race\<close>

text \<open>
  C31. A second connection that is accepted before the thread of the first one has read the
  variable takes the place of the first: the second connection is handled twice and the first one
  never, although as many threads have run as connections were accepted.
\<close>

theorem accept_race:
  assumes "a \<noteq> - 1" "b \<noteq> - 1" "a \<noteq> b"
  shows "\<exists>s. accept_run (accept_init junk) s \<and> as_accepted s = [a, b] \<and> as_handled s = [b, b] \<and>
    as_waiting s = 0"
proof -
  define s1 where "s1 = (accept_init junk)\<lparr>as_acceptor := \<lparr>ac_connections = [a], ac_thread_index = 1\<rparr>,
    as_variable := a, as_waiting := 1, as_accepted := [a]\<rparr>"
  define s2 where "s2 = s1\<lparr>as_acceptor := \<lparr>ac_connections = [a, b], ac_thread_index = 2\<rparr>,
    as_variable := b, as_waiting := 2, as_accepted := [a, b]\<rparr>"
  have "accept_run_step (accept_init junk) s1"
    using accept_run_step.accepted [of a "accept_init junk" 0 "\<lparr>ac_connections = [a], ac_thread_index = 1\<rparr>"] assms(1)
    by (simp add: s1_def accept_step_def accept_init_def MAX_THREADS_def)
  moreover have "accept_run_step s1 s2"
    using accept_run_step.accepted [of b s1 1 "\<lparr>ac_connections = [a, b], ac_thread_index = 2\<rparr>"] assms(2)
    by (simp add: s1_def s2_def accept_step_def accept_init_def MAX_THREADS_def numeral_eq_Suc)
  moreover have "accept_run_step s2 (thread_routine s2)"
    "accept_run_step (thread_routine s2) (thread_routine (thread_routine s2))"
    by (rule accept_run_step.thread, simp add: s2_def thread_routine_def)+
  ultimately have "accept_run (accept_init junk) (thread_routine (thread_routine s2))"
    by (meson accept_run.intros)
  then show ?thesis
    by (intro exI [of _ "thread_routine (thread_routine s2)"])
      (simp add: thread_routine_def s1_def s2_def accept_init_def)
qed

lemma accept_race_witness:
  "\<exists>s. accept_run (accept_init 0) s \<and> as_accepted s = [5, 6] \<and> as_handled s = [6, 6] \<and> as_waiting s = 0"
  by (rule accept_race) simp_all

end
