(* ===== verification/StreamNode.thy ===== *)
theory StreamNode
  imports PeerApi Startup
begin

text \<open>
  The second homework's node, \<open>src/hw2/src/main.c\<close> and \<open>src/hw2/src/uri_parse.c\<close>: files are not
  found out from other nodes but registered with \<open>/peer/add\<close>, and \<open>/peer/view\<close> asks the
  \<open>peerserver\<close> (\<open>udp-server.c\<close>) for them. What hw4 has in the same words is taken from the
  theories on hw4: the packets, the list of connections, the table of peers, the responses.
  \<open>None\<close> is undefined behaviour; \<open>Exited\<close> is a call of \<open>exit\<close>, which ends the process with
  all its threads.
\<close>

subsection \<open>State and environment\<close>

record stream_node =
  sn_peers :: peer_table
  sn_sockets_map :: hm_map
  sn_rate_limit :: int
  sn_connections :: "int list"
  sn_packet_count :: int

text \<open>Dates, the pages behind paths, which texts are addresses, which hosts resolve.\<close>

record stream_env =
  se_date :: string
  se_last_modified :: string
  se_files :: "string \<Rightarrow> string option"
  se_is_ip :: "string \<Rightarrow> bool"
  se_resolves :: "string \<Rightarrow> bool"

datatype stream_result = Running stream_node "net_action list" | Exited int "net_action list"

text \<open>\<open>main\<close> up to its loop: \<open>Inl\<close> the status it ends with.\<close>

definition stream_start :: "startup \<Rightarrow> string list \<Rightarrow> int + nat \<times> stream_node" where
  "stream_start su argv =
     (if length argv < 3 then Inl 1
      else let port = argv ! 1 in
      if \<not> port_ok port then Inl 1
      else case open_listener True su port of
        Inl status \<Rightarrow> Inl status
      | Inr p \<Rightarrow> Inr (p, \<lparr>sn_peers = peer_table_init, sn_sockets_map = hashmap_new, sn_rate_limit = 0,
          sn_connections = [], sn_packet_count = 0\<rparr>))"

definition send_stream_page :: "stream_env \<Rightarrow> int \<Rightarrow> stream_node \<Rightarrow> string \<Rightarrow> stream_result option" where
  "send_stream_page env connect_fd nd page =
     map_option (\<lambda>acts. Running nd (map Tcp acts))
       (send_html_from_file (se_date env) (se_last_modified env) (se_files env page) connect_fd)"

subsection \<open>\<open>/peer/add\<close>\<close>

definition stream_add :: "stream_env \<Rightarrow> int \<Rightarrow> stream_node \<Rightarrow> string \<Rightarrow> stream_result option" where
  "stream_add env connect_fd nd rest = do {
     info \<leftarrow> read_add_info \<lparr>ai_path = None, ai_host = None, ai_port = None, ai_rate = None\<rparr> rest;
     path \<leftarrow> ai_path info;
     path \<leftarrow> strcpy_buf 256 path;
     host \<leftarrow> ai_host info;
     host \<leftarrow> strcpy_buf 256 host;
     port \<leftarrow> ai_port info;
     port \<leftarrow> strcpy_buf 256 port;
     rate \<leftarrow> strcpy_buf 256 (case ai_rate info of None \<Rightarrow> ''0'' | Some r \<Rightarrow> r);
     let peer = \<lparr>pu_path = path, pu_host = host, pu_port = port, pu_rate = rate\<rparr>;
     send_stream_page env connect_fd (nd\<lparr>sn_peers := add_peer_to_list (sn_peers nd) peer\<rparr>)
       ''html/peer_add.html'' }"

subsection \<open>\<open>/peer/view\<close>\<close>

text \<open>The loop over the registered peers; a path that is \<open>NULL\<close> is read by the first \<open>strcmp\<close>.\<close>

fun find_peer_url :: "string option \<Rightarrow> peer_url list \<Rightarrow> peer_url option option" where
  "find_peer_url content_path [] = Some None"
| "find_peer_url content_path (p # ps) =
     (case content_path of
        None \<Rightarrow> None
      | Some c \<Rightarrow> if pu_path p = c then Some (Some p) else find_peer_url content_path ps)"

text \<open>
  The address of the peer. \<open>inet_pton\<close> gets the pointer to the peer instead of its host, so it
  reads the path, the first field; \<open>None\<close> when the host cannot be resolved.
\<close>

definition peer_address :: "stream_env \<Rightarrow> peer_url \<Rightarrow> string option" where
  "peer_address env peer =
     (if se_is_ip env (pu_path peer) then Some (pu_path peer)
      else if se_resolves env (pu_host peer) then Some (pu_host peer)
      else None)"

definition htons :: "int \<Rightarrow> int" where
  "htons port = take_bit 16 port"

definition stream_view :: "stream_env \<Rightarrow> int \<Rightarrow> stream_node \<Rightarrow> string \<Rightarrow> string \<Rightarrow> stream_result option" where
  "stream_view env connect_fd nd og_req_buffer rest = do {
     let content_path = fst (strtok_r [] rest);
     found \<leftarrow> find_peer_url content_path (take (peers_count (sn_peers nd)) (peers_list (sn_peers nd)));
     case found of
       None \<Rightarrow> send_stream_page env connect_fd nd ''html/not_found.html''
     | Some peer \<Rightarrow> do {
         content_path \<leftarrow> content_path;
         view_req_fd_filepath \<leftarrow> sprintf_buf 256 (show_int connect_fd @ '' '' @ content_path);
         let nd = (if hashmap_get (sn_sockets_map nd) view_req_fd_filepath = None
           then nd\<lparr>sn_sockets_map :=
             hashmap_put (sn_sockets_map nd) view_req_fd_filepath view_req_fd_filepath\<rparr>
           else nd);
         case peer_address env peer of
           None \<Rightarrow> Some (Running nd [])
         | Some address \<Rightarrow> do {
             ack_packet \<leftarrow> request_packet view_req_fd_filepath content_path
               (parse_http_range_header og_req_buffer);
             Some (Running nd [UdpTo address (htons (atoi (pu_port peer))) ack_packet]) } } }"

subsection \<open>The dispatcher\<close>

definition stream_config :: "stream_env \<Rightarrow> int \<Rightarrow> stream_node \<Rightarrow> string \<Rightarrow> stream_result option" where
  "stream_config env connect_fd nd rest = do {
     config_options \<leftarrow> fst (strtok_r [] rest);
     rate \<leftarrow> fst (strtok_r ''&'' (snd (strtok_r ''='' config_options)));
     send_stream_page env connect_fd (nd\<lparr>sn_rate_limit := atoi rate\<rparr>) ''html/config.html'' }"

definition stream_peer_path ::
  "stream_env \<Rightarrow> string \<Rightarrow> int \<Rightarrow> string \<Rightarrow> stream_node \<Rightarrow> stream_result option" where
  "stream_peer_path env path_string connect_fd og_req_buffer nd =
     (case strtok_r ''/'' path_string of
        (None, _) \<Rightarrow> None
      | (Some first_token, rest) \<Rightarrow>
          if first_token \<noteq> ''peer'' then Some (Running nd [])
          else
            (case strtok_r ''/?'' rest of
               (None, _) \<Rightarrow> None
             | (Some peer_cmd, rest) \<Rightarrow>
                 if peer_cmd = ''add'' then stream_add env connect_fd nd rest
                 else if peer_cmd = ''view'' then stream_view env connect_fd nd og_req_buffer rest
                 else if peer_cmd = ''config'' then stream_config env connect_fd nd rest
                 else if peer_cmd = ''status'' then Some (Running nd [])
                 else Some (Running nd [])))"

text \<open>
  \<open>received\<close> is what \<open>recv\<close> gives, \<open>None\<close> for -1. The buffer has 1025 bytes; when they are all
  filled the terminator goes past them.
\<close>

definition STREAM_RECV_SIZE :: nat where
  "STREAM_RECV_SIZE = 1025"

definition stream_child :: "stream_env \<Rightarrow> string option \<Rightarrow> int \<Rightarrow> stream_node \<Rightarrow> stream_result option" where
  "stream_child env received connect_fd nd =
     (let bytes = (case received of None \<Rightarrow> [] | Some bytes \<Rightarrow> bytes) in
      if bytes = [] then Some (Exited 0 [])
      else if STREAM_RECV_SIZE \<le> length bytes then None
      else let buffer = c_str bytes; (method, path, version) = process_startline buffer in do {
        path \<leftarrow> path;
        path_peer_copy \<leftarrow> strncpy_buf 100 path;
        if 1 < length path_peer_copy then stream_peer_path env path_peer_copy connect_fd buffer nd
        else Some (Running nd []) })"

subsection \<open>The datagrams of a file\<close>

text \<open>
  The table of content types is that of hw4; for an extension it does not have the process
  exits. \<open>Inl\<close> is the exit status.
\<close>

definition content_type_lookup_2 :: "string option \<Rightarrow> int + string \<times> int" where
  "content_type_lookup_2 filetype =
     (case content_type_lookup filetype of None \<Rightarrow> Inl 1 | Some r \<Rightarrow> Inr r)"

text \<open>
  The header before the first block: an exit status, or what is sent and whether the function
  goes on. \<open>ue_dead\<close> gives what the extension reads as after the frame of \<open>parse_http_uri\<close> is gone.
\<close>

definition stream_headers :: "udp_env \<Rightarrow> packet \<Rightarrow> int \<Rightarrow> (int + tcp_action list \<times> bool) option" where
  "stream_headers env file_packet client_sockfd =
     (if pk_packet_number file_packet = 0
      then do {
        (filename, filetype) \<leftarrow> parse_http_uri (pk_file_path file_packet);
        case content_type_lookup_2 (map_option (ue_dead env) filetype) of
          Inl status \<Rightarrow> Some (Inl status)
        | Inr (content_type, is_video_transfer) \<Rightarrow>
            let content_length = pk_content_length file_packet in
            if pk_orig_has_range file_packet
            then do {
              acts \<leftarrow> send_http_206_partial_content (ue_date env) client_sockfd content_type content_length
                (pk_start_byte file_packet) (pk_end_byte file_packet);
              Some (Inr (acts, 0 \<le> ue_header_sent env)) }
            else do {
              acts \<leftarrow> send_http_200_no_range (ue_date env) client_sockfd content_type content_length;
              Some (Inr (acts, True)) } }
      else Some (Inr ([], True)))"

text \<open>What follows the header: the block goes to the client, the acknowledgement to the peer.\<close>

definition stream_forward ::
  "udp_env \<Rightarrow> packet \<Rightarrow> int \<Rightarrow> stream_node \<Rightarrow> int + tcp_action list \<times> bool \<Rightarrow> stream_result option" where
  "stream_forward env file_packet client_sockfd nd headers =
     (case headers of
        Inl status \<Rightarrow> Some (Exited status [])
      | Inr (headers, go_on) \<Rightarrow>
          if \<not> go_on
          then let (_, acts, connections) = remove_socket client_sockfd (sn_connections nd)
               in Some (Running (nd\<lparr>sn_connections := connections\<rparr>) (map Tcp headers @ map Tcp acts))
          else do {
            (acts, connections) \<leftarrow> forward_block env None file_packet client_sockfd (sn_connections nd);
            Some (Running (nd\<lparr>sn_connections := connections\<rparr>) (map Tcp headers @ acts)) })"

text \<open>One round of the thread that receives datagrams (\<open>udp_to_tcp_client\<close>).\<close>

definition stream_udp :: "udp_env \<Rightarrow> int \<Rightarrow> packet \<Rightarrow> stream_node \<Rightarrow> stream_result option" where
  "stream_udp env n_bytes file_packet nd =
     (if n_bytes = 0 \<or> n_bytes = -1 then Some (Running nd [])
      else do {
        (packet_count, slept) \<leftarrow>
          rate_limit_step (sn_peers nd) (sn_rate_limit nd) (pk_file_path file_packet) (sn_packet_count nd);
        let nd = nd\<lparr>sn_packet_count := packet_count\<rparr>;
        (client_sockfd, file_packet) \<leftarrow> client_socket file_packet;
        headers \<leftarrow> stream_headers env file_packet client_sockfd;
        stream_forward env file_packet client_sockfd nd headers })"

subsection \<open>The node as a whole\<close>

text \<open>A connection is accepted (the descriptor may be -1), a request arrives on one, a datagram arrives.\<close>

datatype stream_event =
    Accepted int
  | Request stream_env "string option" int
  | Block udp_env int packet

text \<open>
  The descriptor \<open>accept\<close> returned goes into the next entry of \<open>connections\<close>, -1 too. The loop
  does not check the index: \<open>None\<close> is the write behind the array of \<open>MAX_THREADS\<close> entries.
\<close>

definition STREAM_MAX_THREADS :: nat where
  "STREAM_MAX_THREADS = 10000"

fun stream_handle :: "stream_event \<Rightarrow> stream_node \<Rightarrow> stream_result option" where
  "stream_handle (Accepted fd) nd =
     (if STREAM_MAX_THREADS \<le> length (sn_connections nd) then None
      else Some (Running (nd\<lparr>sn_connections := sn_connections nd @ [fd]\<rparr>) []))"
| "stream_handle (Request env received fd) nd = stream_child env received fd nd"
| "stream_handle (Block env n p) nd = stream_udp env n p nd"

text \<open>A run over any events; it stops at an exit.\<close>

fun stream_run :: "stream_event list \<Rightarrow> stream_node \<Rightarrow> stream_result option" where
  "stream_run [] nd = Some (Running nd [])"
| "stream_run (e # es) nd = do {
     r \<leftarrow> stream_handle e nd;
     case r of
       Exited status acts \<Rightarrow> Some (Exited status acts)
     | Running nd acts \<Rightarrow> do {
         r \<leftarrow> stream_run es nd;
         Some (case r of
             Running nd acts' \<Rightarrow> Running nd (acts @ acts')
           | Exited status acts' \<Rightarrow> Exited status (acts @ acts')) } }"

subsection \<open>What every event keeps\<close>

text \<open>
  The peers a node has registered, in the entries of the array. \<open>keeps nd nd'\<close>: peers were
  registered at the end only and no connection was touched.
\<close>

definition registered :: "stream_node \<Rightarrow> peer_url list" where
  "registered nd = take (peers_count (sn_peers nd)) (peers_list (sn_peers nd))"

definition more_peers :: "stream_node \<Rightarrow> stream_node \<Rightarrow> bool" where
  "more_peers nd nd' \<longleftrightarrow>
     (\<forall>ps. sn_peers nd = peers_from ps \<longrightarrow> (\<exists>qs. sn_peers nd' = peers_from (ps @ qs)))"

definition keeps :: "stream_node \<Rightarrow> stream_node \<Rightarrow> bool" where
  "keeps nd nd' \<longleftrightarrow> more_peers nd nd' \<and> sn_connections nd' = sn_connections nd"

lemma more_peers_same [simp]: "sn_peers nd' = sn_peers nd \<Longrightarrow> more_peers nd nd'"
  by (auto simp: more_peers_def intro: exI [of _ "[]"])

lemma more_peers_trans: "more_peers nd nd1 \<Longrightarrow> more_peers nd1 nd' \<Longrightarrow> more_peers nd nd'"
  by (fastforce simp: more_peers_def)

lemma more_peers_add [simp]: "more_peers nd (nd\<lparr>sn_peers := add_peer_to_list (sn_peers nd) p\<rparr>)"
  by (auto simp: more_peers_def peers_from_snoc intro!: exI [of _ "[p]"])

lemma send_stream_page_ok:
  "send_stream_page env fd nd page = Some r \<Longrightarrow> \<exists>acts. r = Running nd acts"
  by (auto simp: send_stream_page_def)

lemma stream_add_keeps:
  "stream_add env fd nd rest = Some r \<Longrightarrow> \<exists>nd' acts. r = Running nd' acts \<and> keeps nd nd'"
  by (auto simp: stream_add_def bind_Some_iff keeps_def dest!: send_stream_page_ok)

lemma stream_view_keeps:
  "stream_view env fd nd req rest = Some r \<Longrightarrow> \<exists>nd' acts. r = Running nd' acts \<and> keeps nd nd'"
  by (auto simp: stream_view_def bind_Some_iff keeps_def Let_def split: option.splits if_splits
      dest!: send_stream_page_ok)

lemma stream_config_keeps:
  "stream_config env fd nd rest = Some r \<Longrightarrow> \<exists>nd' acts. r = Running nd' acts \<and> keeps nd nd'"
  by (auto simp: stream_config_def bind_Some_iff keeps_def dest!: send_stream_page_ok)

lemma keeps_same: "keeps nd nd"
  by (auto simp: keeps_def)

lemma stream_peer_path_keeps:
  "stream_peer_path env path fd req nd = Some r \<Longrightarrow> \<exists>nd' acts. r = Running nd' acts \<and> keeps nd nd'"
  using stream_add_keeps stream_view_keeps stream_config_keeps keeps_same
  by (auto simp: stream_peer_path_def split: option.splits prod.splits if_splits)

lemma stream_child_keeps:
  "stream_child env received fd nd = Some (Running nd' acts) \<Longrightarrow> keeps nd nd'"
  using stream_peer_path_keeps keeps_same
  by (fastforce simp: stream_child_def Let_def bind_Some_iff split: option.splits prod.splits if_splits)

text \<open>The sends of a round that forwards a block succeed, as far as the round asks for their result.\<close>

fun sends_succeed :: "stream_event \<Rightarrow> bool" where
  "sends_succeed (Block env n p) \<longleftrightarrow> 0 \<le> ue_header_sent env \<and> 0 \<le> ue_data_sent env"
| "sends_succeed _ \<longleftrightarrow> True"

lemma forward_block_connections:
  "forward_block env ty p fd cs = Some (acts, cs') \<Longrightarrow> 0 \<le> ue_data_sent env \<Longrightarrow> cs' = cs"
  by (auto simp: forward_block_def Let_def bind_Some_iff split: if_splits)

lemma stream_headers_go_on:
  assumes "stream_headers env p fd = Some (Inr (h, go_on))" "0 \<le> ue_header_sent env"
  shows "go_on"
proof (cases "pk_packet_number p = 0")
  case True
  with assms(1) obtain fn ft where "parse_http_uri (pk_file_path p) = Some (fn, ft)"
    by (auto simp: stream_headers_def bind_Some_iff)
  with True assms show ?thesis
    by (cases "content_type_lookup_2 (map_option (ue_dead env) ft)")
      (auto simp: stream_headers_def bind_Some_iff Let_def split: if_splits)
qed (use assms in \<open>simp add: stream_headers_def\<close>)

lemma stream_forward_keeps:
  "stream_forward env p fd nd h = Some (Running nd' acts) \<Longrightarrow> sn_peers nd' = sn_peers nd \<and>
    (0 \<le> ue_data_sent env \<and> (\<forall>hs go_on. h = Inr (hs, go_on) \<longrightarrow> go_on) \<longrightarrow> sn_connections nd' = sn_connections nd)"
  by (auto simp: stream_forward_def bind_Some_iff split: sum.splits if_splits prod.splits
      dest: forward_block_connections)

lemma stream_udp_keeps:
  assumes "stream_udp env n p nd = Some (Running nd' acts)"
  shows "sn_peers nd' = sn_peers nd \<and>
    (0 \<le> ue_header_sent env \<and> 0 \<le> ue_data_sent env \<longrightarrow> sn_connections nd' = sn_connections nd)"
  using assms
  by (auto simp: stream_udp_def bind_Some_iff Let_def split: if_splits
      dest!: stream_forward_keeps dest: stream_headers_go_on)

text \<open>What \<open>accept\<close> returned, in order.\<close>

fun accepted :: "stream_event list \<Rightarrow> int list" where
  "accepted [] = []"
| "accepted (Accepted fd # es) = fd # accepted es"
| "accepted (_ # es) = accepted es"

lemma stream_handle_keeps:
  assumes "stream_handle e nd = Some (Running nd' acts)"
  shows "more_peers nd nd' \<and>
    (sends_succeed e \<longrightarrow> sn_connections nd' = sn_connections nd @ accepted [e])"
proof (cases e)
  case (Accepted fd)
  then show ?thesis using assms by (auto split: if_splits)
next
  case (Request env received fd)
  then show ?thesis using assms stream_child_keeps [of env received fd nd nd' acts] by (simp add: keeps_def)
next
  case (Block env n p)
  then show ?thesis using assms stream_udp_keeps [of env n p nd nd' acts] by auto
qed

lemma stream_run_ConsD:
  "stream_run (e # es) nd = Some (Running nd' acts) \<Longrightarrow>
    \<exists>nd1 a1 a2. stream_handle e nd = Some (Running nd1 a1) \<and> stream_run es nd1 = Some (Running nd' a2)"
  by (auto split: stream_result.splits Option.bind_splits)

lemma accepted_Cons: "accepted (e # es) = accepted [e] @ accepted es"
  by (cases e) auto

lemma stream_run_keeps:
  "stream_run es nd = Some (Running nd' acts) \<Longrightarrow> more_peers nd nd' \<and>
    ((\<forall>e\<in>set es. sends_succeed e) \<longrightarrow> sn_connections nd' = sn_connections nd @ accepted es)"
proof (induction es arbitrary: nd acts)
  case (Cons e es)
  then obtain nd1 a1 a2 where "stream_handle e nd = Some (Running nd1 a1)" "stream_run es nd1 = Some (Running nd' a2)"
    using stream_run_ConsD by blast
  with Cons.IH [OF this(2)] stream_handle_keeps [OF this(1)] show ?case
    using accepted_Cons [of e es] by (auto intro: more_peers_trans)
qed auto

subsection \<open>Requests\<close>

definition stream_request :: "string \<Rightarrow> string \<Rightarrow> string" where
  "stream_request path rest = ''GET '' @ path @ '' '' @ rest"

definition stream_request_ok :: "string \<Rightarrow> string \<Rightarrow> bool" where
  "stream_request_ok path rest \<longleftrightarrow> path \<noteq> [] \<and> CHR '' '' \<notin> set path \<and> length path < 100 \<and>
     cstring (stream_request path rest) \<and> length (stream_request path rest) < STREAM_RECV_SIZE"

lemma stream_child_get:
  assumes "stream_request_ok path rest"
  shows "stream_child env (Some (stream_request path rest)) fd nd =
    (if 1 < length path then stream_peer_path env path fd (stream_request path rest) nd else Some (Running nd []))"
proof -
  have r: "c_str (stream_request path rest) = stream_request path rest"
    "length (stream_request path rest) < STREAM_RECV_SIZE" "stream_request path rest \<noteq> []" "length path < 100"
    using assms by (simp_all add: stream_request_ok_def c_str_id stream_request_def)
  obtain v where v: "process_startline (stream_request path rest) = (Some ''GET'', Some path, v)"
    using process_startline_words [of "''GET''" path rest] assms
    by (auto simp: stream_request_ok_def stream_request_def)
  show ?thesis using r v by (simp add: stream_child_def strncpy_buf_def fits_def)
qed

text \<open>
  What is not under \<open>/peer\<close> gets no answer at all, and its connection stays open: neither the
  page for \<open>/\<close> nor the files of the content directory that the README names are served.
\<close>

lemma stream_unanswered:
  assumes "stream_request_ok path rest" "path = ''/'' \<or> (\<exists>t r. strtok_r ''/'' path = (Some t, r) \<and> t \<noteq> ''peer'')"
  shows "stream_child env (Some (stream_request path rest)) fd nd = Some (Running nd [])"
  using assms(2) by (auto simp: stream_child_get [OF assms(1)] stream_peer_path_def)

lemma find_peer_url_find: "find_peer_url (Some c) ps = Some (find (\<lambda>p. pu_path p = c) ps)"
  by (induction ps) auto

lemma take_peers_from: "take (peers_count (peers_from ps)) (peers_list (peers_from ps)) = take PEERS_LIST_SIZE ps"
proof (rule nth_equalityI)
  show "length (take (peers_count (peers_from ps)) (peers_list (peers_from ps))) = length (take PEERS_LIST_SIZE ps)"
    using peers_from_list [of ps] by simp
qed (use peers_from_list [of ps] in auto)

definition remembered :: "stream_node \<Rightarrow> string \<Rightarrow> stream_node" where
  "remembered nd s = (if hashmap_get (sn_sockets_map nd) s = None
     then nd\<lparr>sn_sockets_map := hashmap_put (sn_sockets_map nd) s s\<rparr> else nd)"

lemma remembered_peers [simp]:
  "sn_peers (remembered nd s) = sn_peers nd" "sn_connections (remembered nd s) = sn_connections nd"
  "sn_rate_limit (remembered nd s) = sn_rate_limit nd" "sn_packet_count (remembered nd s) = sn_packet_count nd"
  by (simp_all add: remembered_def)

text \<open>A request to view a registered path, on a node where the peers \<open>ps\<close> were added.\<close>

lemma stream_view_request:
  assumes "stream_request_ok (''/peer/view/'' @ c) rest" "c \<noteq> []"
    and "sn_peers nd = peers_from ps" "find (\<lambda>p. pu_path p = c) (take PEERS_LIST_SIZE ps) = Some p"
    and "peer_address env p = Some address" "is_i32 fd"
    and "asked = parse_http_range_header (stream_request (''/peer/view/'' @ c) rest)"
  shows "\<exists>q. request_packet (show_int fd @ '' '' @ c) c asked = Some q \<and>
    stream_child env (Some (stream_request (''/peer/view/'' @ c) rest)) fd nd =
      Some (Running (remembered nd (show_int fd @ '' '' @ c)) [UdpTo address (htons (atoi (pu_port p))) q])"
proof -
  let ?path = "''/peer/view/'' @ c"
  have c: "length c < 89" using assms(1) by (simp add: stream_request_ok_def)
  have "length (show_int fd) \<le> 11"
    using assms(6) length_show_int_bound [of 10 fd] by (simp add: is_i32_def INT_MIN_def INT_MAX_def)
  with c have l: "length (show_int fd @ '' '' @ c) < 256" by simp
  then obtain q where q: "request_packet (show_int fd @ '' '' @ c) c asked = Some q"
    using c by (cases asked) (auto simp: request_packet_def PACKET_DATA_SIZE_def)
  have tok: "strtok_r ''/'' ?path = (Some ''peer'', ''view/'' @ c)"
    "strtok_r ''/?'' (''view/'' @ c) = (Some ''view'', c)"
    using peer_command(1,2) [of "''view''"] by simp_all
  have all: "strtok_r [] c = (Some c, [])" using assms(2) by (simp add: strtok_r_whole)
  have "stream_peer_path env ?path fd (stream_request ?path rest) nd =
      Some (Running (remembered nd (show_int fd @ '' '' @ c)) [UdpTo address (htons (atoi (pu_port p))) q])"
    using tok all l q assms(3-5,7)
    by (simp add: stream_peer_path_def stream_view_def find_peer_url_find take_peers_from remembered_def)
  with q stream_child_get [OF assms(1), of env fd nd] show ?thesis by simp
qed

text \<open>A field of a query: a name and a value without separators.\<close>

definition word_ok :: "string \<Rightarrow> bool" where
  "word_ok w \<longleftrightarrow> w \<noteq> [] \<and> set w \<inter> {CHR ''&'', CHR ''='', CHR '' ''} = {}"

lemma read_add_info_field:
  assumes "word_ok f" "word_ok d"
  shows "read_add_info info (f @ CHR ''='' # d @ CHR ''&'' # rest) = read_add_info (set_add_info f (Some d) info) rest"
    and "read_add_info info (f @ CHR ''='' # d) = Some (set_add_info f (Some d) info)"
proof -
  let ?t = "f @ CHR ''='' # d"
  have w: "f \<noteq> []" "set f \<inter> set ''='' = {}" "d \<noteq> []" "set d \<inter> set ''='' = {}" "set ?t \<inter> set ''&'' = {}" "?t \<noteq> []"
    using assms by (auto simp: word_ok_def)
  have eq: "strtok_r ''='' ?t = (Some f, d)" "strtok_r ''='' d = (Some d, [])"
    using w strtok_r_split [of f "''=''" "CHR ''=''" d] strtok_r_whole [of d "''=''"] by simp_all
  have a: "strtok_r ''&'' (?t @ CHR ''&'' # rest) = (Some ?t, rest)" "strtok_r ''&'' ?t = (Some ?t, [])"
    using w(5,6) strtok_r_split [of ?t "''&''" "CHR ''&''" rest] strtok_r_whole [of ?t "''&''"] by simp_all
  have e: "strtok_r ''&'' [] = (None, [])" by (simp add: strtok_r_def)
  show "read_add_info info (f @ CHR ''='' # d @ CHR ''&'' # rest) = read_add_info (set_add_info f (Some d) info) rest"
    using a(1) eq by (simp add: read_add_info.simps [of info "f @ CHR ''='' # d @ CHR ''&'' # rest"])
  show "read_add_info info (f @ CHR ''='' # d) = Some (set_add_info f (Some d) info)"
    using a(2) eq e by (simp add: read_add_info.simps [of info "f @ CHR ''='' # d"] read_add_info.simps [of _ "[]"])
qed

definition add_path :: "peer_url \<Rightarrow> string" where
  "add_path p = ''/peer/add?'' @ ''path'' @ CHR ''='' # pu_path p @ CHR ''&'' # ''host'' @ CHR ''='' # pu_host p @
     CHR ''&'' # ''port'' @ CHR ''='' # pu_port p @ CHR ''&'' # ''rate'' @ CHR ''='' # pu_rate p"

definition words_ok :: "peer_url \<Rightarrow> bool" where
  "words_ok p \<longleftrightarrow> word_ok (pu_path p) \<and> word_ok (pu_host p) \<and> word_ok (pu_port p) \<and> word_ok (pu_rate p)"

text \<open>A request to add a peer enters it behind those that are there and answers with a page.\<close>

lemma stream_add_request:
  assumes "stream_request_ok (add_path p) rest" "words_ok p"
  shows "stream_child env (Some (stream_request (add_path p) rest)) fd nd =
    send_stream_page env fd (nd\<lparr>sn_peers := add_peer_to_list (sn_peers nd) p\<rparr>) ''html/peer_add.html''"
proof -
  have l: "length (add_path p) < 100" using assms(1) by (simp add: stream_request_ok_def)
  let ?fields = "''path'' @ CHR ''='' # pu_path p @ CHR ''&'' # ''host'' @ CHR ''='' # pu_host p @
     CHR ''&'' # ''port'' @ CHR ''='' # pu_port p @ CHR ''&'' # ''rate'' @ CHR ''='' # pu_rate p"
  have w: "word_ok ''path''" "word_ok ''host''" "word_ok ''port''" "word_ok ''rate''"
    by (simp_all add: word_ok_def)
  have info: "read_add_info \<lparr>ai_path = None, ai_host = None, ai_port = None, ai_rate = None\<rparr> ?fields =
      Some \<lparr>ai_path = Some (pu_path p), ai_host = Some (pu_host p), ai_port = Some (pu_port p), ai_rate = Some (pu_rate p)\<rparr>"
    using assms(2) w by (simp only: words_ok_def read_add_info_field) (simp add: set_add_info_def)
  have tok: "strtok_r ''/'' (add_path p) = (Some ''peer'', ''add'' @ CHR ''?'' # ?fields)"
    "strtok_r ''/?'' (''add'' @ CHR ''?'' # ?fields) = (Some ''add'', ?fields)"
    using peer_command(1) [of "''add''" "CHR ''?'' # ?fields"] peer_command(2) [of "''add''" "CHR ''?''" ?fields]
    by (simp_all add: add_path_def)
  have "length (pu_path p) < 256" "length (pu_host p) < 256" "length (pu_port p) < 256" "length (pu_rate p) < 256"
    using l by (simp_all add: add_path_def)
  then have "stream_add env fd nd ?fields = send_stream_page env fd
      (nd\<lparr>sn_peers := add_peer_to_list (sn_peers nd) p\<rparr>) ''html/peer_add.html''"
    unfolding stream_add_def info by (cases p) simp
  moreover have "1 < length (add_path p)" by (simp add: add_path_def)
  ultimately show ?thesis
    using stream_child_get [OF assms(1), of env fd nd] tok by (simp add: stream_peer_path_def)
qed

lemma stream_start_ok:
  "stream_start su argv = Inr (p, nd) \<Longrightarrow>
    sn_connections nd = [] \<and> sn_peers nd = peers_from []"
  by (auto simp: stream_start_def Let_def peers_from_def split: if_splits sum.splits)

lemma stream_run_append:
  "stream_run (es @ fs) nd = do {
     r \<leftarrow> stream_run es nd;
     case r of
       Exited status acts \<Rightarrow> Some (Exited status acts)
     | Running nd acts \<Rightarrow> do {
         r \<leftarrow> stream_run fs nd;
         Some (case r of
             Running nd acts' \<Rightarrow> Running nd (acts @ acts')
           | Exited status acts' \<Rightarrow> Exited status (acts @ acts')) } }"
proof (induction es arbitrary: nd)
  case Nil
  then show ?case by (cases "stream_run fs nd") (auto split: stream_result.splits)
next
  case (Cons e es)
  show ?case
  proof (cases "stream_handle e nd")
    case (Some r)
    show ?thesis
    proof (cases r)
      case (Running nd1 a1)
      show ?thesis
      proof (cases "stream_run es nd1")
        case (Some r2)
        with Cons [of nd1] Running \<open>stream_handle e nd = Some r\<close> show ?thesis
          by (cases r2) (auto split: stream_result.splits Option.bind_splits)
      qed (use Running Some Cons in simp)
    qed (use Some in simp)
  qed simp
qed

subsection \<open>Properties\<close>

text \<open>
  C7. What a running node of hw2 accumulates, whatever connections, requests and datagrams it
  handles: a registered peer stays in its entry of the array, in the order of the registrations,
  and after the hundredth further ones are dropped. While no send fails an entry of connections
  is never freed, though the connections are closed after their last block: the array holds the
  descriptor of every accept of the run (-1 for one that failed), and the accept after the
  first 10000 writes behind it.
\<close>

theorem stream_run_tables:
  assumes "stream_start su argv = Inr (i, nd0)" "stream_run es nd0 = Some (Running nd acts)"
  shows "length (registered nd) \<le> 100 \<and>
    (\<forall>later nd' acts'. stream_run (es @ later) nd0 = Some (Running nd' acts') \<longrightarrow>
      prefix (registered nd) (registered nd') \<and>
      (length (registered nd) = 100 \<longrightarrow> registered nd' = registered nd)) \<and>
    ((\<forall>e\<in>set es. sends_succeed e) \<longrightarrow> sn_connections nd = accepted es \<and>
      (length (accepted es) = 10000 \<longrightarrow> (\<forall>fd later. stream_run (es @ Accepted fd # later) nd0 = None)))"
proof -
  note st = stream_start_ok [OF assms(1)]
  obtain ps where ps: "sn_peers nd = peers_from ps"
    using stream_run_keeps [OF assms(2)] st by (auto simp: more_peers_def)
  have later: "prefix (registered nd) (registered nd') \<and>
      (length (registered nd) = 100 \<longrightarrow> registered nd' = registered nd)"
    if run: "stream_run (es @ later) nd0 = Some (Running nd' acts')" for later nd' acts'
  proof -
    have "\<exists>a. stream_run later nd = Some (Running nd' a)"
      using run assms(2) by (cases "stream_run later nd") (auto simp: stream_run_append split: stream_result.splits)
    then obtain qs where "sn_peers nd' = peers_from (ps @ qs)"
      using stream_run_keeps ps unfolding more_peers_def by blast
    then show ?thesis
      using ps by (auto simp: registered_def take_peers_from PEERS_LIST_SIZE_def)
  qed
  have "sn_connections nd = accepted es" if "\<forall>e\<in>set es. sends_succeed e"
    using stream_run_keeps [OF assms(2)] st that by simp
  with later show ?thesis
    using ps assms(2)
    by (auto simp: registered_def take_peers_from PEERS_LIST_SIZE_def stream_run_append STREAM_MAX_THREADS_def)
qed

definition sample_stream_env :: stream_env where
  "sample_stream_env = \<lparr>se_date = ''now'', se_last_modified = ''then'', se_files = (\<lambda>_. Some ''ok''),
     se_is_ip = (\<lambda>_. False), se_resolves = (\<lambda>_. True)\<rparr>"

definition sample_startup :: startup where
  "sample_startup = \<lparr>su_getaddrinfo = (\<lambda>_. Some [SocketFails, SocketOk True True]), su_listen = True,
     su_sigaction = True, su_threads = True\<rparr>"

definition sample_url :: "nat \<Rightarrow> peer_url" where
  "sample_url i = \<lparr>pu_path = ''v'' @ show_nat i, pu_host = ''h'', pu_port = ''1'', pu_rate = ''0''\<rparr>"

definition sample_stream_node :: "peer_url list \<Rightarrow> stream_node" where
  "sample_stream_node ps = \<lparr>sn_peers = peers_from ps, sn_sockets_map = hashmap_new, sn_rate_limit = 0,
     sn_connections = [], sn_packet_count = 0\<rparr>"

lemma sample_stream_start:
  "stream_start sample_startup [''vodserver'', ''80'', ''81''] = Inr (1, sample_stream_node [])"
proof -
  have "atoi ''80'' = 80" by code_simp
  then show ?thesis
    by (simp add: stream_start_def sample_startup_def port_ok_def open_listener_def sample_stream_node_def
        peers_from_def)
qed

text \<open>
  A client that closes its connection without a request, or whose connection fails, ends the
  whole process with status 0: the threads of all other downloads end with it, and no later
  event is handled.
\<close>

theorem stream_exits_on_close:
  assumes "stream_run es nd0 = Some (Running nd acts)" "received = None \<or> received = Some []"
  shows "stream_run (es @ Request env received fd # later) nd0 = Some (Exited 0 acts)"
  using assms by (auto simp: stream_run_append stream_child_def)

lemma stream_exits_on_close_witness:
  "stream_run ([Accepted 4, Accepted 5] @ Request sample_stream_env (Some []) 5 # later) (sample_stream_node []) =
    Some (Exited 0 [])"
  by (rule stream_exits_on_close) (simp_all add: sample_stream_node_def STREAM_MAX_THREADS_def)

text \<open>
  C8. Only the first seven registered peers are looked at when a block arrives: a path that was
  registered as the eighth or later can be viewed, the request goes out to its peer, and the
  answer, whatever it is, runs into undefined behaviour.
\<close>

theorem eighth_peer_undefined:
  assumes "sn_peers nd = peers_from ps" "p \<in> set (take PEERS_LIST_SIZE ps)"
    and "\<forall>p'\<in>set (take 7 ps). pu_path p' \<noteq> pu_path p"
    and "stream_request_ok (''/peer/view/'' @ pu_path p) rest" "pu_path p \<noteq> []"
    and "\<forall>host. se_resolves env host" "is_i32 fd"
  shows "\<exists>nd' address port q. stream_child env (Some (stream_request (''/peer/view/'' @ pu_path p) rest)) fd nd =
      Some (Running nd' [UdpTo address port q]) \<and>
    (\<forall>uenv n block. n \<noteq> 0 \<and> n \<noteq> -1 \<and> pk_file_path block = pu_path p \<longrightarrow> stream_udp uenv n block nd' = None)"
proof -
  obtain p' where p': "find (\<lambda>q. pu_path q = pu_path p) (take PEERS_LIST_SIZE ps) = Some p'"
    using assms(2) by (cases "find (\<lambda>q. pu_path q = pu_path p) (take PEERS_LIST_SIZE ps)")
      (auto simp: find_None_iff)
  obtain a where a: "peer_address env p' = Some a"
    using assms(6) by (cases "se_is_ip env (pu_path p')") (auto simp: peer_address_def)
  obtain q where v: "stream_child env (Some (stream_request (''/peer/view/'' @ pu_path p) rest)) fd nd =
      Some (Running (remembered nd (show_int fd @ '' '' @ pu_path p)) [UdpTo a (htons (atoi (pu_port p'))) q])"
    using stream_view_request [OF assms(4,5,1) p' a assms(7) refl] by blast
  have "get_rate_of_path (pu_path p) (peers_list (peers_from ps)) 7 0 =
      map_option pu_rate (find (\<lambda>q. pu_path q = pu_path p) (drop 0 (take 7 ps)))"
    by (rule get_rate_find [OF assms(5)]) (use peers_from_list [of ps] in \<open>auto simp: PEERS_LIST_SIZE_def\<close>)
  also have "\<dots> = None" using assms(3) by (simp add: find_None_iff)
  finally have "stream_udp uenv n block (remembered nd s) = None"
    if "n \<noteq> 0 \<and> n \<noteq> -1 \<and> pk_file_path block = pu_path p" for uenv n block s
    using that assms(1) by (simp add: stream_udp_def rate_limit_step_def)
  with v show ?thesis by blast
qed

lemma stream_run_tables_witness:
  "\<exists>nd acts. stream_run [Accepted 5, Request sample_stream_env
      (Some (stream_request (add_path (sample_url 3)) ''HTTP/1.1'')) 5] (sample_stream_node []) = Some (Running nd acts) \<and>
    registered nd = [sample_url 3] \<and> sn_connections nd = [5]"
proof -
  have n: "show_nat 3 = ''3''" "show_int 2 = ''2''" by code_simp+
  have r: "stream_request_ok (add_path (sample_url 3)) ''HTTP/1.1''"
    by (simp add: stream_request_ok_def stream_request_def add_path_def sample_url_def n cstring_def STREAM_RECV_SIZE_def)
  have w: "words_ok (sample_url 3)"
    by (simp add: words_ok_def word_ok_def sample_url_def n)
  obtain m where m: "send_html_from_file ''now'' ''then'' (Some ''ok'') 5 = Some m"
    by (simp add: send_html_from_file_def n)
  let ?es = "[Accepted 5, Request sample_stream_env (Some (stream_request (add_path (sample_url 3)) ''HTTP/1.1'')) 5]"
  let ?nd = "(sample_stream_node [])\<lparr>sn_connections := [5], sn_peers := peers_from [sample_url 3]\<rparr>"
  have "stream_child sample_stream_env (Some (stream_request (add_path (sample_url 3)) ''HTTP/1.1'')) 5
      ((sample_stream_node [])\<lparr>sn_connections := [5]\<rparr>) = Some (Running ?nd (map Tcp m))"
    unfolding stream_add_request [OF r w]
    by (simp add: send_stream_page_def sample_stream_env_def m sample_stream_node_def peers_from_def)
  then have run: "stream_run ?es (sample_stream_node []) = Some (Running ?nd (map Tcp m))"
    by (simp add: sample_stream_node_def STREAM_MAX_THREADS_def)
  moreover have "registered ?nd = [sample_url 3]"
    by (simp add: registered_def take_peers_from PEERS_LIST_SIZE_def)
  ultimately show ?thesis using stream_run_tables [OF sample_stream_start run] by auto
qed

lemma eighth_peer_undefined_witness:
  "\<exists>nd' address port q. stream_child sample_stream_env (Some (stream_request ''/peer/view/v7'' ''HTTP/1.1'')) 5
      (sample_stream_node (map sample_url [0..<8])) = Some (Running nd' [UdpTo address port q]) \<and>
    (\<forall>uenv n block. n \<noteq> 0 \<and> n \<noteq> -1 \<and> pk_file_path block = ''v7'' \<longrightarrow> stream_udp uenv n block nd' = None)"
proof -
  let ?ps = "map sample_url [0..<8]"
  have n: "show_nat 0 = ''0''" "show_nat 1 = ''1''" "show_nat (Suc 0) = ''1''" "show_nat 2 = ''2''" "show_nat 3 = ''3''"
    "show_nat 4 = ''4''" "show_nat 5 = ''5''" "show_nat 6 = ''6''" "show_nat 7 = ''7''" by code_simp+
  have ps: "?ps = map sample_url [0, 1, 2, 3, 4, 5, 6, 7]" by (simp add: upt_rec numeral_eq_Suc)
  have path: "pu_path (sample_url 7) = ''v7''" by (simp add: sample_url_def n)
  have r: "stream_request_ok (''/peer/view/'' @ pu_path (sample_url 7)) ''HTTP/1.1''"
    by (simp add: path stream_request_ok_def stream_request_def cstring_def STREAM_RECV_SIZE_def)
  have i: "sample_url 7 \<in> set (take PEERS_LIST_SIZE ?ps)" by (simp add: PEERS_LIST_SIZE_def)
  have d: "\<forall>p'\<in>set (take 7 ?ps). pu_path p' \<noteq> pu_path (sample_url 7)"
    unfolding ps by (simp add: sample_url_def n)
  have nd: "sn_peers (sample_stream_node ?ps) = peers_from ?ps" by (simp add: sample_stream_node_def)
  show ?thesis
    using eighth_peer_undefined [OF nd i d r, of sample_stream_env 5]
    by (simp add: path sample_stream_env_def is_i32_def INT_MIN_def INT_MAX_def)
qed

end
