(* ===== verification/PacketBytes.thy ===== *)
theory PacketBytes
  imports Packet Conf
begin

text \<open>
  The bytes of a \<open>Packet\<close> as the compiler lays the structure out on x86-64. The programs
  declare the structure with two sizes of \<open>connection_id\<close>, so that size is an argument: 256 in
  \<open>uri_parse.h\<close> and \<open>udp-server.c\<close>, 27 in \<open>udp-client.c\<close>. Integers are little-endian and
  aligned to four bytes; the structure ends in the data, so its size needs no padding.
\<close>

subsection \<open>Fields in memory\<close>

definition int_bytes :: "int \<Rightarrow> string" where
  "int_bytes x = map (\<lambda>i. char_of (x div 256 ^ i)) [0..<4]"

definition bytes_int :: "string \<Rightarrow> int" where
  "bytes_int s = i32 (horner_sum uchar 256 s)"

definition int_at :: "nat \<Rightarrow> string \<Rightarrow> int" where
  "int_at off mem = bytes_int (take 4 (drop off mem))"

text \<open>A string that is not terminated within the packet reads past its end.\<close>

definition str_at :: "nat \<Rightarrow> string \<Rightarrow> string option" where
  "str_at off mem = (if NUL \<in> set (drop off mem) then Some (c_str (drop off mem)) else None)"

text \<open>An object of type \<open>bool\<close> holds 0 or 1.\<close>

definition bool_at :: "nat \<Rightarrow> string \<Rightarrow> bool option" where
  "bool_at off mem =
     (if mem ! off = NUL then Some False else if mem ! off = CHR 0x01 then Some True else None)"

subsection \<open>The offsets\<close>

definition align4 :: "nat \<Rightarrow> nat" where
  "align4 n = 4 * ((n + 3) div 4)"

definition off_ack :: "nat \<Rightarrow> nat" where
  "off_ack id_size = align4 (id_size + TYPE_SIZE)"

definition off_data :: "nat \<Rightarrow> nat" where
  "off_data id_size = off_ack id_size + 284"

definition packet_size :: "nat \<Rightarrow> nat" where
  "packet_size id_size = off_data id_size + PACKET_DATA_SIZE"

lemmas packet_layout = packet_size_def off_data_def off_ack_def align4_def PACKET_DATA_SIZE_def

text \<open>The packet that code with this declaration of the structure sees in the memory.\<close>

definition read_packet :: "nat \<Rightarrow> string \<Rightarrow> packet option" where
  "read_packet id_size mem = (let ack = off_ack id_size in do {
     cid \<leftarrow> str_at 0 mem;
     typ \<leftarrow> str_at id_size mem;
     path \<leftarrow> str_at (ack + 4) mem;
     orig_has_range \<leftarrow> bool_at (ack + 276) mem;
     Some \<lparr>pk_connection_id = cid, pk_packet_type = typ, pk_ack_number = int_at ack mem,
       pk_file_path = path, pk_start_byte = int_at (ack + 260) mem,
       pk_end_byte = int_at (ack + 264) mem, pk_packet_number = int_at (ack + 268) mem,
       pk_data_size = int_at (ack + 272) mem, pk_orig_has_range = orig_has_range,
       pk_content_length = int_at (ack + 280) mem,
       pk_data = take PACKET_DATA_SIZE (drop (off_data id_size) mem)\<rparr> })"

text \<open>\<open>recvfrom\<close> into a structure of \<open>room\<close> bytes: a longer datagram is cut, a shorter one leaves the rest.\<close>

definition recv_into :: "nat \<Rightarrow> string \<Rightarrow> string \<Rightarrow> string" where
  "recv_into room mem datagram = take room datagram @ drop (length (take room datagram)) mem"

subsection \<open>Initialised structures\<close>

text \<open>
  The bytes of a structure with an initialiser: an array initialised by a string is filled
  with zeros, the bytes between the fields (\<open>pad\<close>) are arbitrary.
\<close>

definition zero_fill :: "nat \<Rightarrow> string \<Rightarrow> string" where
  "zero_fill n s = s @ replicate (n - length s) NUL"

definition init_packet :: "nat \<Rightarrow> string \<Rightarrow> packet \<Rightarrow> string" where
  "init_packet id_size pad p =
     zero_fill id_size (pk_connection_id p) @ zero_fill TYPE_SIZE (pk_packet_type p) @
     take (off_ack id_size - (id_size + TYPE_SIZE)) pad @ int_bytes (pk_ack_number p) @
     zero_fill PATH_SIZE (pk_file_path p) @ int_bytes (pk_start_byte p) @ int_bytes (pk_end_byte p) @
     int_bytes (pk_packet_number p) @ int_bytes (pk_data_size p) @
     (if pk_orig_has_range p then CHR 0x01 else NUL) # take 3 (drop 3 pad) @
     int_bytes (pk_content_length p) @ pk_data p"

definition packet_fits :: "nat \<Rightarrow> packet \<Rightarrow> bool" where
  "packet_fits id_size p \<longleftrightarrow>
     field_ok id_size (pk_connection_id p) \<and> field_ok TYPE_SIZE (pk_packet_type p) \<and>
     field_ok PATH_SIZE (pk_file_path p) \<and> is_i32 (pk_ack_number p) \<and> is_i32 (pk_start_byte p) \<and>
     is_i32 (pk_end_byte p) \<and> is_i32 (pk_packet_number p) \<and> is_i32 (pk_data_size p) \<and>
     is_i32 (pk_content_length p) \<and> length (pk_data p) = PACKET_DATA_SIZE"

subsection \<open>Reading an initialised structure\<close>

lemma uchar_char_of: "uchar (char_of (x :: int)) = x mod 256"
  by (simp add: uchar_def)

lemma length_int_bytes [simp]: "length (int_bytes x) = 4"
  by (simp add: int_bytes_def)

lemma byte_digits: "x mod 256 + 256 * (x div 256 mod 256 + 256 * (x div 65536 mod 256 +
    256 * (x div 16777216 mod 256))) = x mod (2 ^ 32 :: int)"
proof -
  have step: "b * (x div b mod 256) = x mod (256 * b) - x mod b" for b
    using zmod_zmult2_eq [of 256 x b] by (simp add: mult.commute)
  have num: "(256 :: int) * 256 = 65536" "(256 :: int) * 65536 = 16777216" "(256 :: int) * 16777216 = 2 ^ 32"
    by simp_all
  have sum: "d0 + 256 * (d1 + 256 * (d2 + 256 * d3)) = m4"
    if "256 * d1 = m2 - d0" "65536 * d2 = m3 - m2" "16777216 * d3 = m4 - m3" for d0 d1 d2 d3 m2 m3 m4 :: int
    using that by (simp add: distrib_left)
  show ?thesis
    by (rule sum [OF step [of 256, unfolded num] step [of 65536, unfolded num]
        step [of 16777216, unfolded num]])
qed

lemma bytes_int_bytes:
  assumes "is_i32 x"
  shows "bytes_int (int_bytes x) = x"
proof -
  have "[0..<4] = [0, 1, 2, 3]" by (simp add: upt_rec)
  then have "horner_sum uchar 256 (int_bytes x) = x mod 256 + 256 * (x div 256 mod 256 +
      256 * (x div 65536 mod 256 + 256 * (x div 16777216 mod 256)))"
    by (simp only: int_bytes_def list.map horner_sum_simps uchar_char_of) simp
  also have "\<dots> = x mod 2 ^ 32" by (rule byte_digits)
  finally have "bytes_int (int_bytes x) = i32 (x mod 2 ^ 32)" by (simp add: bytes_int_def)
  also have "\<dots> = i32 x"
    using signed_take_bit_take_bit [of 31 32 x] by (simp only: i32_def take_bit_eq_mod) simp
  finally show ?thesis using i32_id [OF assms] by simp
qed

lemma int_at_append: "length a = off \<Longrightarrow> is_i32 x \<Longrightarrow> int_at off (a @ int_bytes x @ b) = x"
  by (simp add: int_at_def bytes_int_bytes)

lemma zero_fill_append: "length s < n \<Longrightarrow>
    zero_fill n s @ b = s @ NUL # (replicate (n - length s - 1) NUL @ b)"
  by (cases "n - length s") (simp_all add: zero_fill_def)

lemma length_zero_fill [simp]: "length s \<le> n \<Longrightarrow> length (zero_fill n s) = n"
  by (simp add: zero_fill_def)

lemma str_at_append: "length a = off \<Longrightarrow> field_ok n s \<Longrightarrow> str_at off (a @ zero_fill n s @ b) = Some s"
  by (simp add: str_at_def zero_fill_append field_ok_def)

lemma bool_at_append: "length a = off \<Longrightarrow>
    bool_at off (a @ (if v then CHR 0x01 else NUL) # b) = Some v"
  by (auto simp: bool_at_def nth_append)

lemma off_ack_bounds: "id_size + TYPE_SIZE \<le> off_ack id_size" "off_ack id_size \<le> id_size + TYPE_SIZE + 3"
  by (simp_all add: off_ack_def align4_def)

definition init_head :: "nat \<Rightarrow> string \<Rightarrow> packet \<Rightarrow> string" where
  "init_head id_size pad p = zero_fill id_size (pk_connection_id p) @ zero_fill TYPE_SIZE (pk_packet_type p) @
     take (off_ack id_size - (id_size + TYPE_SIZE)) pad"

definition init_tail :: "string \<Rightarrow> packet \<Rightarrow> string" where
  "init_tail pad p = int_bytes (pk_ack_number p) @
     zero_fill PATH_SIZE (pk_file_path p) @ int_bytes (pk_start_byte p) @ int_bytes (pk_end_byte p) @
     int_bytes (pk_packet_number p) @ int_bytes (pk_data_size p) @
     (if pk_orig_has_range p then CHR 0x01 else NUL) # take 3 (drop 3 pad) @
     int_bytes (pk_content_length p) @ pk_data p"

lemma init_packet_split: "init_packet id_size pad p = init_head id_size pad p @ init_tail pad p"
  by (simp add: init_packet_def init_head_def init_tail_def)

lemma length_init_head:
  assumes "packet_fits id_size p" "length pad = 6"
  shows "length (init_head id_size pad p) = off_ack id_size"
  using assms off_ack_bounds [of id_size] by (simp add: init_head_def packet_fits_def field_ok_def)

lemma length_init_packet:
  assumes "packet_fits id_size p" "length pad = 6"
  shows "length (init_packet id_size pad p) = packet_size id_size"
  using assms length_init_head [OF assms]
  by (simp add: init_packet_split init_tail_def packet_size_def off_data_def packet_fits_def field_ok_def)

text \<open>
  A packet that a program initialises is read back field by field, whatever the bytes
  between the fields are, by every program that declares the structure with the same size of the
  connection id.
\<close>

lemma read_init_packet:
  assumes "packet_fits id_size p" "length pad = 6"
  shows "read_packet id_size (init_packet id_size pad p @ rest) = Some p"
proof -
  let ?h = "init_head id_size pad p" and ?t = "init_tail pad p @ rest"
  have m: "init_packet id_size pad p @ rest = ?h @ ?t" by (simp add: init_packet_split)
  have at: "int_at (off_ack id_size + k) (?h @ ?t) = int_at k ?t"
    "int_at (off_ack id_size) (?h @ ?t) = int_at 0 ?t"
    "str_at (off_ack id_size + k) (?h @ ?t) = str_at k ?t"
    "bool_at (off_ack id_size + k) (?h @ ?t) = bool_at k ?t"
    "drop (off_ack id_size + k) (?h @ ?t) = drop k ?t" for k
    using length_init_head [OF assms] by (simp_all add: int_at_def str_at_def bool_at_def nth_append)
  have f: "field_ok id_size (pk_connection_id p)" "field_ok TYPE_SIZE (pk_packet_type p)"
    "field_ok PATH_SIZE (pk_file_path p)" "length (pk_data p) = PACKET_DATA_SIZE"
    using assms(1) by (simp_all add: packet_fits_def)
  have l: "length (pk_connection_id p) \<le> id_size" "length (pk_file_path p) \<le> PATH_SIZE"
    using f by (simp_all add: field_ok_def)
  have head: "str_at 0 (?h @ ?t) = Some (pk_connection_id p)"
    "str_at id_size (?h @ ?t) = Some (pk_packet_type p)"
    using str_at_append [OF _ f(1), of "[]" 0]
      str_at_append [OF _ f(2), of "zero_fill id_size (pk_connection_id p)" id_size] l(1)
    by (simp_all add: init_head_def)
  have tail: "int_at 0 ?t = pk_ack_number p" "str_at 4 ?t = Some (pk_file_path p)"
    "int_at 260 ?t = pk_start_byte p" "int_at 264 ?t = pk_end_byte p"
    "int_at 268 ?t = pk_packet_number p" "int_at 272 ?t = pk_data_size p"
    "bool_at 276 ?t = Some (pk_orig_has_range p)" "int_at 280 ?t = pk_content_length p"
    "take PACKET_DATA_SIZE (drop 284 ?t) = pk_data p"
    using assms f(4) l str_at_append [OF _ f(3), of "int_bytes (pk_ack_number p)" 4]
    by (simp_all add: init_tail_def int_at_def bool_at_def bytes_int_bytes packet_fits_def nth_append)
  show ?thesis unfolding m
    by (simp add: read_packet_def Let_def head tail at off_data_def del: drop_append)
qed

end
