(* ===== verification/UdpServer.thy ===== *)
theory UdpServer
  imports PacketBytes FileTransfer
begin

text \<open>
  \<open>src/hw4/src/udp-server.c\<close>, the stand-alone \<open>peerserver\<close>: it answers \<open>syn\<close> with the size of a
  file and \<open>ack\<close> with one block of it. A datagram arrives as bytes in a packet on the stack, so
  what it does not cover is what the stack held.
\<close>

text \<open>The result of \<open>recvfrom_timeout\<close>; an empty datagram has the result of a timeout.\<close>

datatype recv_event = Timeout | RecvError | Datagram (stack: string) (datagram: string)

text \<open>
  The environment of one call: the size \<open>stat\<close> gives and the content of a file, what the packet
  on the stack holds before it is filled, and whether \<open>sendto\<close> succeeds.
\<close>

record peer_env =
  pv_stat :: "string \<Rightarrow> int option"
  pv_files :: "string \<Rightarrow> string option"
  pv_junk :: packet
  pv_sent :: bool

subsection \<open>The operations\<close>

definition transfer_file :: "peer_env \<Rightarrow> packet \<Rightarrow> net_action list option" where
  "transfer_file env input_packet = do {
     filepath \<leftarrow> strcpy_buf PATH_SIZE (''content/'' @ pk_file_path input_packet);
     case pv_files env filepath of
       None \<Rightarrow> Some [UdpText (''File not found'' @ [LF])]
     | Some content \<Rightarrow>
         if pk_start_byte input_packet < 0 then Some []
         else do {
           output_packet \<leftarrow> duplicate_packet (pv_junk env) input_packet;
           let output_packet = (if pk_ack_number input_packet = 0
             then (case pv_stat env filepath of
                     Some st_size \<Rightarrow> set_content_length output_packet st_size
                   | None \<Rightarrow> output_packet)
             else output_packet);
           (n_bytes, data) \<leftarrow> fread_block (pk_data output_packet) (need_to_read_bytes output_packet)
             (drop (nat (pk_start_byte input_packet)) content);
           let output_packet = output_packet\<lparr>pk_data := data,
             pk_packet_number := pk_ack_number input_packet, pk_data_size := int n_bytes\<rparr>;
           Some (if 0 < n_bytes \<and> pv_sent env then [UdpPacket output_packet] else []) } }"

definition syn_reply :: "int \<Rightarrow> packet \<Rightarrow> packet" where
  "syn_reply file_size output_packet =
     (let text = show_int file_size @ [NUL]
      in output_packet\<lparr>pk_packet_type := ''synack'',
           pk_data := text @ drop (length text) (pk_data output_packet)\<rparr>)"

text \<open>
  The packets sent and whether the process goes on: it exits when the answer to a \<open>syn\<close> cannot be
  sent. The path of a \<open>syn\<close> is in the data.
\<close>

definition routing_handler :: "peer_env \<Rightarrow> packet \<Rightarrow> (net_action list \<times> bool) option" where
  "routing_handler env input_packet =
     (if prefix ''syn'' (pk_packet_type input_packet) then do {
        filepath \<leftarrow> str_at 0 (pk_data input_packet);
        case pv_stat env filepath of
          None \<Rightarrow> Some ([], True)
        | Some st_size \<Rightarrow> do {
            output_packet \<leftarrow> duplicate_packet (pv_junk env) input_packet;
            let output_packet = syn_reply (i32 st_size) output_packet;
            Some (if pv_sent env then ([UdpPacket output_packet], True) else ([], False)) } }
      else if prefix ''ack'' (pk_packet_type input_packet) then do {
        acts \<leftarrow> transfer_file env input_packet;
        Some (acts, True) }
      else Some ([], True))"

text \<open>
  A thread: it handles datagrams until receiving fails. \<open>main\<close> has one thread at a time and
  starts the next when one has ended.
\<close>

definition PEER_ID_SIZE :: nat where
  "PEER_ID_SIZE = 256"

definition MAX_CONNECTIONS :: nat where
  "MAX_CONNECTIONS = 1"

fun connection_handler :: "(recv_event \<times> peer_env) list \<Rightarrow> (net_action list \<times> bool) option" where
  "connection_handler [] = Some ([], True)"
| "connection_handler ((Timeout, env) # events) = connection_handler events"
| "connection_handler ((RecvError, env) # events) = Some ([], True)"
| "connection_handler ((Datagram junk d, env) # events) = do {
     packet \<leftarrow> read_packet PEER_ID_SIZE (recv_into (packet_size PEER_ID_SIZE) junk d);
     (acts, running) \<leftarrow> routing_handler env packet;
     if \<not> running then Some (acts, False)
     else do {
       (acts', running) \<leftarrow> connection_handler events;
       Some (acts @ acts', running) } }"

fun peerserver :: "(recv_event \<times> peer_env) list list \<Rightarrow> (net_action list \<times> bool) option" where
  "peerserver [] = Some ([], True)"
| "peerserver (events # threads) = do {
     (acts, running) \<leftarrow> connection_handler events;
     if \<not> running then Some (acts, False)
     else do {
       (acts', running) \<leftarrow> peerserver threads;
       Some (acts @ acts', running) } }"

subsection \<open>The block that is served\<close>

definition file_block :: "string \<Rightarrow> nat \<Rightarrow> string" where
  "file_block content k = take PACKET_DATA_SIZE (drop (PACKET_DATA_SIZE * k) content)"

lemma length_file_block: "length (file_block content k) \<le> PACKET_DATA_SIZE"
  by (simp add: file_block_def)

lemma fread_block_some:
  assumes "length buf = PACKET_DATA_SIZE" "n \<le> PACKET_DATA_SIZE"
  shows "fread_block buf (int n) rest =
    Some (length (take n rest), take n rest @ drop (length (take n rest)) buf)"
proof -
  have "u64 (int n) = int n" using assms(2) by (simp add: u64_id PACKET_DATA_SIZE_def)
  then have "nat (min (u64 (int n)) (int (length rest))) = length (take n rest)" by simp
  then show ?thesis
    using assms by (simp only: fread_block_def Let_def) (cases "length rest \<le> n"; simp)
qed

definition last_byte :: "int \<Rightarrow> packet \<Rightarrow> int" where
  "last_byte st_size p =
     (if pk_ack_number p = 0 then fix_end_byte st_size (pk_end_byte p) else pk_end_byte p)"

text \<open>The number of bytes that the answer to an acknowledgement should have at most.\<close>

definition asked_bytes :: "int \<Rightarrow> packet \<Rightarrow> nat" where
  "asked_bytes st_size p =
     (if pk_orig_has_range p
      then nat (min (int PACKET_DATA_SIZE) (last_byte st_size p - pk_start_byte p + 1))
      else PACKET_DATA_SIZE)"

lemma asked_bytes_le: "asked_bytes st_size p \<le> PACKET_DATA_SIZE"
  by (simp add: asked_bytes_def min_def nat_le_iff)

definition ack_ok :: "peer_env \<Rightarrow> packet \<Rightarrow> string \<Rightarrow> bool" where
  "ack_ok env p content \<longleftrightarrow>
     packet_fits PEER_ID_SIZE p \<and> length (pk_file_path p) < 248 \<and> 0 \<le> pk_start_byte p \<and>
     pv_files env (''content/'' @ pk_file_path p) = Some content \<and>
     pv_stat env (''content/'' @ pk_file_path p) = Some (int (length content)) \<and>
     length content < 2 ^ 31 \<and> length (pk_data (pv_junk env)) = PACKET_DATA_SIZE \<and> pv_sent env \<and>
     (pk_orig_has_range p \<longrightarrow> pk_start_byte p \<le> last_byte (int (length content)) p + 1 \<and>
       last_byte (int (length content)) p < INT_MAX)"

definition served :: "int \<Rightarrow> packet \<Rightarrow> string \<Rightarrow> packet \<Rightarrow> bool" where
  "served st_size p chunk out \<longleftrightarrow>
     pk_packet_number out = pk_ack_number p \<and> pk_ack_number out = pk_ack_number p \<and>
     pk_packet_type out = pk_packet_type p \<and> pk_connection_id out = pk_connection_id p \<and>
     pk_file_path out = pk_file_path p \<and> pk_start_byte out = pk_start_byte p \<and>
     pk_end_byte out = last_byte st_size p \<and> pk_orig_has_range out = pk_orig_has_range p \<and>
     pk_content_length out = (if pk_ack_number p = 0 then st_size else pk_content_length p) \<and>
     pk_data_size out = int (length chunk) \<and> prefix chunk (pk_data out) \<and>
     length (pk_data out) = PACKET_DATA_SIZE"

lemma transfer_file_served:
  assumes "ack_ok env p content"
  defines "chunk \<equiv> take (asked_bytes (int (length content)) p) (drop (nat (pk_start_byte p)) content)"
  shows "if chunk = [] then transfer_file env p = Some []
    else \<exists>out. transfer_file env p = Some [UdpPacket out] \<and> served (int (length content)) p chunk out"
proof -
  let ?size = "int (length content)"
  have f: "packet_fits PEER_ID_SIZE p" "length (pk_file_path p) < 248" "\<not> pk_start_byte p < 0"
    "length (pk_data (pv_junk env)) = PACKET_DATA_SIZE"
    using assms(1) by (simp_all add: ack_ok_def)
  have sz: "i32 ?size = ?size"
    using assms(1) by (intro i32_id) (simp add: ack_ok_def is_i32_def INT_MAX_def INT_MIN_def)
  define o1 where "o1 = (pv_junk env)\<lparr>pk_connection_id := pk_connection_id p,
       pk_packet_type := pk_packet_type p, pk_ack_number := pk_ack_number p,
       pk_file_path := pk_file_path p, pk_start_byte := pk_start_byte p, pk_end_byte := pk_end_byte p,
       pk_packet_number := pk_packet_number p, pk_data_size := pk_data_size p,
       pk_orig_has_range := pk_orig_has_range p, pk_content_length := pk_content_length p\<rparr>"
  have dup: "duplicate_packet (pv_junk env) p = Some o1"
    using f(1) by (simp add: duplicate_packet_def packet_fits_def field_ok_def PEER_ID_SIZE_def o1_def)
  define o2 where "o2 = (if pk_ack_number p = 0 then set_content_length o1 ?size else o1)"
  have o2: "pk_end_byte o2 = last_byte ?size p" "pk_orig_has_range o2 = pk_orig_has_range p"
    "pk_start_byte o2 = pk_start_byte p" "length (pk_data o2) = PACKET_DATA_SIZE"
    using f(4) by (simp_all add: o2_def set_content_length_def o1_def last_byte_def)
  have need: "need_to_read_bytes o2 = int (asked_bytes ?size p)"
  proof (cases "pk_orig_has_range p")
    case True
    then have "pk_start_byte p \<le> last_byte ?size p + 1" "last_byte ?size p < INT_MAX"
      using assms(1) by (simp_all add: ack_ok_def)
    with f(3) have "i32 (last_byte ?size p - pk_start_byte p + 1) = last_byte ?size p - pk_start_byte p + 1"
      "0 \<le> last_byte ?size p - pk_start_byte p + 1"
      by (auto intro!: i32_id simp: is_i32_def INT_MIN_def INT_MAX_def)
    with True show ?thesis by (simp add: need_to_read_bytes_def o2 asked_bytes_def cmin_def)
  qed (simp add: need_to_read_bytes_def o2 asked_bytes_def)
  define out where "out = o2\<lparr>pk_data := chunk @ drop (length chunk) (pk_data o2),
      pk_packet_number := pk_ack_number p, pk_data_size := int (length chunk)\<rparr>"
  have "fread_block (pk_data o2) (need_to_read_bytes o2) (drop (nat (pk_start_byte p)) content) =
      Some (length chunk, chunk @ drop (length chunk) (pk_data o2))"
    unfolding need chunk_def by (rule fread_block_some [OF o2(4) asked_bytes_le])
  then have "transfer_file env p = Some (if chunk = [] then [] else [UdpPacket out])"
    using assms(1) f(2,3)
    by (simp add: transfer_file_def ack_ok_def dup o2_def [symmetric] out_def if_distrib [of Some] cong: if_cong)
  moreover have "length chunk \<le> PACKET_DATA_SIZE"
    using asked_bytes_le [of ?size p] by (simp add: chunk_def)
  then have "served ?size p chunk out"
    using o2(4) sz by (auto simp: served_def out_def o2_def o1_def set_content_length_def last_byte_def)
  ultimately show ?thesis by simp
qed

text \<open>
  An acknowledgement of a file in the content directory is answered with the one block that
  starts at its start byte: 1024 bytes, fewer at the end of the file or of the range, and with no
  packet at all where no byte is left. The packet carries the number that was acknowledged, the
  first one the length of the file, and the type \<open>ack\<close> of the request.
\<close>

theorem routing_handler_ack:
  assumes "ack_ok env p content" "pk_packet_type p = ''ack''"
    and "chunk = take (asked_bytes (int (length content)) p) (drop (nat (pk_start_byte p)) content)"
  shows "if chunk = [] then routing_handler env p = Some ([], True)
    else \<exists>out. routing_handler env p = Some ([UdpPacket out], True) \<and>
      served (int (length content)) p chunk out"
  using transfer_file_served [OF assms(1)] assms(2,3) by (auto simp: routing_handler_def split: if_splits)

definition sample_ack :: "nat \<Rightarrow> packet" where
  "sample_ack k = (empty_packet ''ack'')\<lparr>pk_file_path := ''a'', pk_ack_number := int k,
     pk_start_byte := int (PACKET_DATA_SIZE * k), pk_end_byte := -1\<rparr>"

definition sample_peer_env :: peer_env where
  "sample_peer_env = \<lparr>pv_stat = (\<lambda>path. if path = ''content/a'' then Some 1025 else None),
     pv_files = (\<lambda>path. if path = ''content/a'' then Some (replicate 1025 CHR ''x'') else None),
     pv_junk = empty_packet [], pv_sent = True\<rparr>"

lemma routing_handler_ack_witness:
  "\<exists>out. routing_handler sample_peer_env (sample_ack 1) = Some ([UdpPacket out], True) \<and>
    pk_packet_number out = 1 \<and> pk_data_size out = 1 \<and> prefix ''x'' (pk_data out)"
proof -
  have "ack_ok sample_peer_env (sample_ack 1) (replicate 1025 CHR ''x'')"
    by (simp add: ack_ok_def packet_fits_def field_ok_def sample_ack_def sample_peer_env_def
        empty_packet_def is_i32_def INT_MAX_def INT_MIN_def PEER_ID_SIZE_def PACKET_DATA_SIZE_def)
  from routing_handler_ack [OF this _ refl] show ?thesis
    by (auto simp: sample_ack_def empty_packet_def served_def asked_bytes_def PACKET_DATA_SIZE_def)
qed

subsection \<open>The answer to a \<open>syn\<close>\<close>

text \<open>
  The path of a \<open>syn\<close> is looked up as it is, that of an acknowledgement below \<open>content/\<close>: a file
  that can be downloaded is announced only when a file of that name is also in the working
  directory.
\<close>

lemma syn_needs_other_file:
  assumes "pk_packet_type p = ''syn''" "str_at 0 (pk_data p) = Some path" "pv_stat env path = None"
  shows "routing_handler env p = Some ([], True)"
  using assms by (simp add: routing_handler_def)

text \<open>
  A \<open>synack\<close> carries the packet number of the \<open>syn\<close> and the data size of the \<open>syn\<close>, which is 0 for
  the client of this repository: it looks like an empty first block.
\<close>

lemma synack_like_block:
  assumes "pk_packet_type p = ''syn''" "routing_handler env p = Some ([UdpPacket out], True)"
  shows "pk_packet_number out = pk_packet_number p \<and> pk_data_size out = pk_data_size p"
  using assms
  by (auto simp: routing_handler_def syn_reply_def duplicate_packet_def bind_Some_iff Let_def
      split: option.splits if_splits)

end
