(* ===== verification/Streaming.thy ===== *)
theory Streaming
  imports Session StreamNode UdpServer
begin









subsection \<open>A download\<close>














subsection \<open>The contract\<close>






subsection \<open>From the browser's request to the last block\<close>








end
