(* ===== verification/PointerTable.thy ===== *)
theory PointerTable
  imports LinkState
begin

text \<open>
  The hash table of the third homework, \<open>src/hw3/src/hmap_utils.c\<close>, and the functions of
  \<open>src/hw3/src/conf_utils.c\<close> that work on it. It differs from that of hw4 in one point: the
  hash is taken over \<open>sizeof(key)\<close> bytes, the size of a pointer, whatever the length of the key.
  Of a short key it reads the bytes after the terminator; so a key is passed here with the
  memory it stands in, and \<open>holds m s\<close> says that the memory holds the string.
\<close>

definition holds :: "string \<Rightarrow> string \<Rightarrow> bool" where
  "holds m s \<longleftrightarrow> prefix (s @ [NUL]) m"

subsection \<open>The operations\<close>

definition hash_func_3 :: "string \<Rightarrow> nat \<Rightarrow> 32 word" where
  "hash_func_3 key sz = foldl (\<lambda>h c. h * 31 + word_of_int (schar c)) 0 (take 8 key) mod of_nat sz"

definition ht_index_3 :: "'v hash_table \<Rightarrow> string \<Rightarrow> nat" where
  "ht_index_3 ht key = unat (hash_func_3 key (ht_size ht))"

definition hash_table_put_3 :: "'v hash_table \<Rightarrow> string \<Rightarrow> 'v \<Rightarrow> nat \<Rightarrow> 'v hash_table" where
  "hash_table_put_3 ht key value sz =
     (let h = ht_index_3 ht key
      in ht\<lparr>ht_buckets := (ht_buckets ht)[h := chain_put key key sz value (ht_buckets ht ! h)]\<rparr>)"

definition hash_table_get_3 :: "'v hash_table \<Rightarrow> string \<Rightarrow> nat \<Rightarrow> 'v option" where
  "hash_table_get_3 ht key sz = chain_get key sz (ht_buckets ht ! ht_index_3 ht key)"

definition hash_table_delete_3 :: "'v hash_table \<Rightarrow> string \<Rightarrow> nat \<Rightarrow> 'v hash_table" where
  "hash_table_delete_3 ht key sz =
     (let h = ht_index_3 ht key
      in ht\<lparr>ht_buckets := (ht_buckets ht)[h := chain_delete key sz (ht_buckets ht ! h)]\<rparr>)"

text \<open>A write through the pointer that \<open>hash_table_get\<close> returned.\<close>

definition hash_table_modify_3 :: "'v hash_table \<Rightarrow> string \<Rightarrow> nat \<Rightarrow> ('v \<Rightarrow> 'v) \<Rightarrow> 'v hash_table" where
  "hash_table_modify_3 ht key sz f =
     (let h = ht_index_3 ht key
      in case chain_update key sz f (ht_buckets ht ! h) of
           Some ns \<Rightarrow> ht\<lparr>ht_buckets := (ht_buckets ht)[h := ns]\<rparr>
         | None \<Rightarrow> ht)"

subsection \<open>The link state on this table\<close>

text \<open>\<open>key\<close> is the array \<open>uuid\<close> of the peer, which the node of the table copies or points to.\<close>

definition add_peer_node_3 ::
  "node_config \<Rightarrow> peer_info hash_table \<Rightarrow> string \<times> peer_info \<Rightarrow> peer_info hash_table" where
  "add_peer_node_3 config ht = (\<lambda>(key, peer).
     let n = length (pi_uuid peer) in
     case hash_table_get_3 ht key n of
       None \<Rightarrow> hash_table_put_3 ht key peer n
     | Some existing_peer \<Rightarrow>
         if pi_uuid existing_peer \<noteq> nc_uuid config \<and> pi_weight peer < pi_weight existing_peer
         then hash_table_modify_3 ht key n (\<lambda>p. p\<lparr>pi_weight := pi_weight peer\<rparr>)
         else ht)"

text \<open>\<open>mems 0\<close> is the array of the configuration itself, \<open>mems (i + 1)\<close> that of the \<open>i\<close>-th peer.\<close>

definition node_config_to_hashmap_3 ::
  "(nat \<Rightarrow> string) \<Rightarrow> node_config \<Rightarrow> int \<Rightarrow> peer_info hash_table option" where
  "node_config_to_hashmap_3 mems config root_weight =
     (if nc_peer_count config + 1 \<le> 0 then None
      else do {
        let ht = hash_table_create (nat (nc_peer_count config + 1));
        let initial_peer = peer_of_config config root_weight;
        let ht = hash_table_put_3 ht (mems 0) initial_peer (length (pi_uuid initial_peer));
        peers \<leftarrow> peers_read config;
        Some (foldl (add_peer_node_3 config) ht (map (\<lambda>(i, p). (mems i, p)) (enumerate 1 peers))) })"

text \<open>\<open>lookup_uuid\<close> is the array on the stack that the own uuid is copied to.\<close>

definition update_peer_weights_last_seen_3 ::
  "string \<Rightarrow> string \<Rightarrow> node_config \<Rightarrow> peer_info hash_table \<Rightarrow> node_config \<Rightarrow> node_config option" where
  "update_peer_weights_last_seen_3 lookup_uuid last_seen_str config ht peer_config = do {
     let peer_uuid = nc_uuid peer_config;
     found \<leftarrow> find_peer config peer_uuid 0;
     (given_weight, config) \<leftarrow>
       (case found of
          None \<Rightarrow> Some (0, config)
        | Some i \<Rightarrow> do {
            p \<leftarrow> peer_at config i;
            last_seen \<leftarrow> strcpy_buf UUID_SIZE last_seen_str;
            Some (pi_weight p, set_peer config i (p\<lparr>pi_last_seen := last_seen\<rparr>)) });
     let given_weight =
       (if given_weight = 0 then
          (case hash_table_get_3 ht lookup_uuid (length (nc_uuid config)) of
             None \<Rightarrow> given_weight
           | Some peers_config_of_me \<Rightarrow> pi_weight peers_config_of_me)
        else given_weight);
     update_from_buckets given_weight peer_uuid (ht_buckets ht) config }"

definition update_network_map_3 :: "string \<Rightarrow> 'v hash_table \<Rightarrow> string \<Rightarrow> 'v \<Rightarrow> 'v hash_table" where
  "update_network_map_3 key ht uuid config =
     (let old_config = hash_table_get_3 ht key (length uuid);
          ht = (if old_config \<noteq> None then hash_table_delete_3 ht key (length uuid) else ht)
      in hash_table_put_3 ht key config (length uuid))"

subsection \<open>The table as a map\<close>

text \<open>
  Keys for which the eight bytes that are hashed belong to the string: they are no shorter than
  seven characters, as every uuid in the form of \<open>uuid4\<close>.
\<close>

definition pointer_key :: "string set \<Rightarrow> string \<Rightarrow> bool" where
  "pointer_key K k \<longleftrightarrow> table_key K k \<and> 7 \<le> length k"

lemma pointer_keyD: "pointer_key K k \<Longrightarrow> table_key K k"
  by (simp add: pointer_key_def)

lemma holds_key_mem: "holds (key_mem k) k"
  by (simp add: holds_def key_mem_def prefix_def numeral_eq_Suc)

lemma holds_prefix: "holds m k \<Longrightarrow> prefix k m"
  by (auto simp: holds_def prefix_def)

lemma holds_take:
  assumes "holds m k" "n \<le> length k + 1"
  shows "take n m = take n (key_mem k)"
proof -
  have "take n m = take n (k @ [NUL])" if "holds m k" for m
    using that assms(2) by (cases "n - length k") (auto simp: holds_def prefix_def)
  with assms(1) holds_key_mem show ?thesis by metis
qed

lemma chain_mem:
  assumes "holds m k" "k \<noteq> []"
  shows "chain_get m (length k) ns = chain_get (key_mem k) (length k) ns"
    and "chain_update m (length k) f ns = chain_update (key_mem k) (length k) f ns"
    and "chain_delete m (length k) ns = chain_delete (key_mem k) (length k) ns"
proof -
  have t: "take (key_size (length k)) m = take (key_size (length k)) (key_mem k)"
    using assms by (intro holds_take) (simp_all add: key_size_def)
  then have e: "key_eq (length k) a m = key_eq (length k) a (key_mem k)" for a
    by (simp add: key_eq_def)
  show "chain_get m (length k) ns = chain_get (key_mem k) (length k) ns"
    by (induction ns) (simp_all add: e)
  show "chain_update m (length k) f ns = chain_update (key_mem k) (length k) f ns"
    by (induction ns) (simp_all add: e)
  show "chain_delete m (length k) ns = chain_delete (key_mem k) (length k) ns"
    by (induction ns) (simp_all add: e)
qed

lemma ht_index_mem: "holds m k \<Longrightarrow> 7 \<le> length k \<Longrightarrow> ht_index_3 ht m = ht_index_3 ht (key_mem k)"
  using holds_take [of m k 8] by (simp add: ht_index_3_def hash_func_3_def)

lemma ht_index_3_less: "ht_inv K ht \<Longrightarrow> ht_index_3 ht key < length (ht_buckets ht)"
  by (simp add: ht_inv_def ht_index_3_def hash_func_3_def unat_mod unat_of_nat)

lemma ht_index_3_buckets [simp]: "ht_index_3 (ht\<lparr>ht_buckets := bs\<rparr>) = ht_index_3 ht"
  by (simp add: ht_index_3_def fun_eq_iff)

lemma get_3_create:
  assumes "0 < n" "n < 2 ^ 31"
  shows "hash_table_get_3 (hash_table_create n :: 'v hash_table) m sz = None"
proof -
  let ?t = "hash_table_create n :: 'v hash_table"
  have "ht_index_3 ?t m < n"
    using ht_index_3_less [OF ht_inv_create [OF assms], of m] by (simp add: hash_table_create_def)
  then have "ht_buckets ?t ! ht_index_3 ?t m = []" by (simp add: hash_table_create_def)
  then show ?thesis by (simp add: hash_table_get_3_def)
qed

lemma get_3_bucket:
  assumes "ht_inv K ht" "holds m k" "pointer_key K k" "holds m' j" "pointer_key K j"
    and "chain_get (key_mem j) (length j) ns =
      (if j = k then r else chain_get (key_mem j) (length j) (ht_buckets ht ! ht_index_3 ht m))"
  shows "hash_table_get_3 (ht\<lparr>ht_buckets := (ht_buckets ht)[ht_index_3 ht m := ns]\<rparr>) m' (length j) =
    (if j = k then r else hash_table_get_3 ht m' (length j))"
proof -
  have i: "ht_index_3 ht m = ht_index_3 ht (key_mem k)" "ht_index_3 ht m' = ht_index_3 ht (key_mem j)"
    using assms(2-5) by (simp_all add: ht_index_mem pointer_key_def)
  note c = chain_mem(1) [OF assms(4) table_key_ne [OF pointer_keyD [OF assms(5)]]]
  show ?thesis
    using assms(6) ht_index_3_less [OF assms(1), of m]
    unfolding hash_table_get_3_def c ht_index_3_buckets i by (auto simp: nth_list_update)
qed

lemma chain_put_mem:
  "holds m k \<Longrightarrow> k \<noteq> [] \<Longrightarrow> chain_put m m (length k) v ns = chain_put m (key_mem k) (length k) v ns"
  by (simp add: chain_put_def chain_mem(2))

lemma inv_put_3:
  assumes "ht_inv K ht" "holds m k" "pointer_key K k"
  shows "ht_inv K (hash_table_put_3 ht m v (length k))"
  unfolding hash_table_put_3_def Let_def
  by (rule ht_inv_bucket [OF assms(1)])
    (simp add: chain_put_mem [OF assms(2) table_key_ne [OF pointer_keyD [OF assms(3)]]]
      chain_inv_put [OF pointer_keyD [OF assms(3)] holds_prefix [OF assms(2)]])

lemma get_put_3:
  assumes "ht_inv K ht" "holds m k" "pointer_key K k" "holds m' j" "pointer_key K j"
  shows "hash_table_get_3 (hash_table_put_3 ht m v (length k)) m' (length j) =
    (if j = k then Some v else hash_table_get_3 ht m' (length j))"
  unfolding hash_table_put_3_def Let_def
  by (rule get_3_bucket [OF assms])
    (use assms in \<open>simp add: chain_put_mem table_key_ne [OF pointer_keyD]
      chain_get_put [OF pointer_keyD pointer_keyD holds_prefix]\<close>)

lemma inv_delete_3:
  assumes "ht_inv K ht" "holds m k" "pointer_key K k"
  shows "ht_inv K (hash_table_delete_3 ht m (length k))"
  unfolding hash_table_delete_3_def Let_def
  by (rule ht_inv_bucket [OF assms(1)])
    (use assms pointer_keyD [OF assms(3)] table_key_ne [OF pointer_keyD [OF assms(3)]] in
      \<open>auto simp: chain_mem(3) chain_delete_filter chain_inv_def [of K "_ ! _"] intro!: chain_inv_filter\<close>)

lemma get_delete_3:
  assumes "ht_inv K ht" "holds m k" "pointer_key K k" "holds m' j" "pointer_key K j"
  shows "hash_table_get_3 (hash_table_delete_3 ht m (length k)) m' (length j) =
    (if j = k then None else hash_table_get_3 ht m' (length j))"
proof -
  let ?b = "ht_buckets ht ! ht_index_3 ht m"
  note ne = table_key_ne [OF pointer_keyD [OF assms(3)]]
  have "?b \<in> set (ht_buckets ht)" using ht_index_3_less [OF assms(1)] by simp
  with assms(1) pointer_keyD [OF assms(3)] have "length (filter (\<lambda>nd. prefix k (node_key nd)) ?b) \<le> 1"
    by (auto simp: ht_inv_def chain_inv_def)
  then have "chain_delete m (length k) ?b = filter (\<lambda>nd. \<not> prefix k (node_key nd)) ?b"
    using ne chain_mem(3) [OF assms(2) ne] chain_delete_filter by metis
  then show ?thesis
    unfolding hash_table_delete_3_def Let_def
    by (intro get_3_bucket [OF assms])
      (simp only: chain_get_filter [OF pointer_keyD [OF assms(3)] pointer_keyD [OF assms(5)]])
qed

interpretation ht3: keyed_table "hash_table_create MAX_HASHTABLE_SIZE"
    "\<lambda>t k v. hash_table_put_3 t (key_mem k) v (length k)"
    "\<lambda>t k. hash_table_get_3 t (key_mem k) (length k)"
    "ht_inv K" "pointer_key K"
    "\<lambda>t k. hash_table_delete_3 t (key_mem k) (length k)" for K
  by unfold_locales
    (auto simp: ht_inv_create get_3_create MAX_HASHTABLE_SIZE_def inv_put_3 get_put_3 inv_delete_3
      get_delete_3 holds_key_mem)


subsection \<open>The two tables agree\<close>

text \<open>One operation, with the memory its key stands in.\<close>

fun table_step_3 :: "'v hash_table \<Rightarrow> string \<times> 'v table_op \<Rightarrow> 'v hash_table" where
  "table_step_3 t (m, TPut k v) = hash_table_put_3 t m v (length k)"
| "table_step_3 t (m, TDel k) = hash_table_delete_3 t m (length k)"

lemma table_run_3:
  assumes "ht_inv K t" "ht_inv K t'"
    and "\<forall>(m, p)\<in>set ops. holds m (op_key p) \<and> pointer_key K (op_key p)"
    and "\<And>m j. holds m j \<Longrightarrow> pointer_key K j \<Longrightarrow>
      hash_table_get_3 t m (length j) = hash_table_get t' (key_mem j) (length j)"
  shows "\<forall>m j. holds m j \<and> pointer_key K j \<longrightarrow>
    hash_table_get_3 (foldl table_step_3 t ops) m (length j) =
      hash_table_get (foldl table_step t' (map snd ops)) (key_mem j) (length j)"
  using assms
proof (induction ops arbitrary: t t')
  case Nil
  then show ?case by simp
next
  case (Cons op ops)
  obtain m p where op: "op = (m, p)" by (cases op)
  have h: "holds m (op_key p)" and k: "pointer_key K (op_key p)" using Cons.prems(3) op by auto
  have "ht_inv K (table_step t' p)" using Cons.prems(2) pointer_keyD [OF k] by (rule table_step_inv)
  moreover have "ht_inv K (table_step_3 t op)"
    using inv_put_3 [OF Cons.prems(1)] inv_delete_3 [OF Cons.prems(1)] h k by (cases p) (simp_all add: op)
  ultimately have inv: "ht_inv K (table_step_3 t op)" "ht_inv K (table_step t' p)" by simp_all
  have "hash_table_get_3 (table_step_3 t op) m' (length j) = hash_table_get (table_step t' p) (key_mem j) (length j)"
    if "holds m' j" "pointer_key K j" for m' j
    using Cons.prems(1,2,4) h k that op
    by (cases p)
      (simp_all add: get_put_3 [of K] get_delete_3 [of K] ht_get_put [of K] ht_get_delete [of K] pointer_keyD)
  from Cons.IH [OF inv _ this] Cons.prems(3) show ?case by (simp add: op)
qed

text \<open>
  C12. On uuids, keys of at least seven characters none of which is a proper prefix of another,
  the table of hw3 and that of hw4 cannot be told apart: after the same insertions and
  deletions every lookup gives the same, whatever stands in memory after the keys.
\<close>

theorem tables_agree:
  assumes "\<forall>(m, p)\<in>set ops. holds m (op_key p) \<and> pointer_key K (op_key p)"
    and "holds m j" "pointer_key K j"
  shows "hash_table_get_3 (foldl table_step_3 (hash_table_create MAX_HASHTABLE_SIZE) ops) m (length j) =
    hash_table_get (foldl table_step (hash_table_create MAX_HASHTABLE_SIZE) (map snd ops))
      (key_mem j) (length j)"
proof -
  have "hash_table_get_3 (hash_table_create MAX_HASHTABLE_SIZE :: 'a hash_table) m (length j) =
      hash_table_get (hash_table_create MAX_HASHTABLE_SIZE :: 'a hash_table) (key_mem j) (length j)" for m j
    by (simp add: get_3_create ht_get_create MAX_HASHTABLE_SIZE_def)
  from table_run_3 [OF ht3.inv_empty ht.inv_empty assms(1) this] assms(2,3) show ?thesis by blast
qed

definition sample_mem :: "string \<Rightarrow> string" where
  "sample_mem k = k @ NUL # ''junk''"

lemma tables_agree_witness:
  "hash_table_get_3 (foldl table_step_3 (hash_table_create MAX_HASHTABLE_SIZE)
      [(sample_mem ''node-001'', TPut ''node-001'' (1 :: nat)), (sample_mem ''node-002'', TPut ''node-002'' 2),
       (sample_mem ''node-001'', TDel ''node-001''), (sample_mem ''node-002'', TPut ''node-002'' 3)])
    (key_mem ''node-002'') 8 = Some 3"
proof -
  let ?ops = "[(sample_mem ''node-001'', TPut ''node-001'' (1 :: nat)), (sample_mem ''node-002'', TPut ''node-002'' 2),
    (sample_mem ''node-001'', TDel ''node-001''), (sample_mem ''node-002'', TPut ''node-002'' 3)]"
  let ?K = "{''node-001'', ''node-002''}"
  have K: "pointer_key ?K ''node-001''" "pointer_key ?K ''node-002''"
    by (simp_all add: pointer_key_def table_key_def prefix_free_def)
  have h: "holds (sample_mem k) k" for k by (simp add: holds_def sample_mem_def)
  have "hash_table_get_3 (foldl table_step_3 (hash_table_create MAX_HASHTABLE_SIZE) ?ops)
      (key_mem ''node-002'') (length ''node-002'') =
    hash_table_get (foldl table_step (hash_table_create MAX_HASHTABLE_SIZE) (map snd ?ops))
      (key_mem ''node-002'') (length ''node-002'')"
    by (rule tables_agree [of _ ?K]) (use K h holds_key_mem in simp_all)
  also have "\<dots> = table_abs ?K (foldl table_step (hash_table_create MAX_HASHTABLE_SIZE) (map snd ?ops)) ''node-002''"
    by (rule table_abs_get [OF pointer_keyD [OF K(2)]])
  also have "\<dots> = foldl map_step (table_abs ?K (hash_table_create MAX_HASHTABLE_SIZE)) (map snd ?ops) ''node-002''"
    using table_run_abs [OF ht.inv_empty, of "map snd ?ops" ?K] K [THEN pointer_keyD]
    by (simp del: foldl_Cons table_step.simps map_step.simps)
  also have "\<dots> = Some 3" by simp
  finally have "hash_table_get_3 (foldl table_step_3 (hash_table_create MAX_HASHTABLE_SIZE) ?ops)
      (key_mem ''node-002'') (length ''node-002'') = Some 3" .
  moreover have "length ''node-002'' = 8" by simp
  ultimately show ?thesis by (simp only:)
qed

end
