(* ===== verification/LinkNode.thy ===== *)
theory LinkNode
  imports PointerTable StreamNode Invariant
begin

text \<open>
  The node of the third homework, \<open>main.c\<close> and \<open>uri_parse.c\<close> of \<open>src/hw3/src\<close>: the link-state
  routing of hw4 without the files, on the hash table of \<open>PointerTable\<close>, together with the
  registered peers of hw2. Its global variables are those of the node of hw4 (the file table is
  created and never used), so a state is a \<open>node\<close>; what hw3 has in the same words as hw4 or hw2
  is taken from the theories on these: reading the configuration, JSON, the replies, the
  commands \<open>add\<close>, \<open>config\<close>, \<open>uuid\<close>, \<open>neighbors\<close>, the thread that forwards blocks
  (\<open>udp_to_tcp_client\<close>).
\<close>

subsection \<open>Start-up\<close>

text \<open>
  The file of the configuration is the third argument; \<open>fopen\<close> of the \<open>NULL\<close> that stands there
  without one is undefined. \<open>files\<close> gives the contents of files.
\<close>

definition init_link_node :: "string option \<Rightarrow> node option" where
  "init_link_node conf = do {
     (_, global_config) \<leftarrow> read_config_file conf global_config_init;
     Some \<lparr>nd_config = global_config, nd_network_map = hash_table_create MAX_HASHTABLE_SIZE,
       nd_filepaths = hash_table_create MAX_HASHTABLE_SIZE, nd_sockets_map = hashmap_new,
       nd_peers = peer_table_init, nd_rate_limit = 0\<rparr> }"

definition link_start :: "startup \<Rightarrow> (string \<Rightarrow> string option) \<Rightarrow> string list \<Rightarrow> (int + nat \<times> node) option" where
  "link_start su files argv =
     (case check_args argv of
        Some status \<Rightarrow> Some (Inl status)
      | None \<Rightarrow>
          if length argv < 4 then None
          else do {
            nd \<leftarrow> init_link_node (files (argv ! 3));
            Some (case open_listener False su (argv ! 1) of
                Inl status \<Rightarrow> Inl status
              | Inr p \<Rightarrow> if su_threads su then Inr (p, nd) else Inl 1) })"

subsection \<open>Environment\<close>

text \<open>
  Beside what a node of hw4 takes from outside: which texts are addresses, and the memory that
  the hash reads of keys: the uuids of the own configuration, of one that was received or
  built from a request, of this one and its peers in their table, and the copy on the stack.
\<close>

record link_env = server_env +
  le_is_ip :: "string \<Rightarrow> bool"
  le_own_key :: string
  le_peer_key :: string
  le_table_keys :: "nat \<Rightarrow> string"
  le_lookup_uuid :: string

subsection \<open>Requests\<close>

definition host_env :: "link_env \<Rightarrow> stream_env" where
  "host_env env = \<lparr>se_date = ae_date (sv_api env), se_last_modified = ae_last_modified (sv_api env),
     se_files = ae_files (sv_api env), se_is_ip = le_is_ip env, se_resolves = ae_resolves (sv_api env)\<rparr>"

definition api_view_3 :: "link_env \<Rightarrow> int \<Rightarrow> node \<Rightarrow> string \<Rightarrow> string \<Rightarrow> api_result option" where
  "api_view_3 env connect_fd nd og_req_buffer rest = do {
     let content_path = fst (strtok_r [] rest);
     found \<leftarrow> find_peer_url content_path (take (peers_count (nd_peers nd)) (peers_list (nd_peers nd)));
     case found of
       None \<Rightarrow> send_page (sv_api env) connect_fd nd ''html/not_found.html''
     | Some peer \<Rightarrow> do {
         content_path \<leftarrow> content_path;
         view_req_fd_filepath \<leftarrow> sprintf_buf 256 (show_int connect_fd @ '' '' @ content_path);
         let nd = (if hashmap_get (nd_sockets_map nd) view_req_fd_filepath = None
           then nd\<lparr>nd_sockets_map :=
             hashmap_put (nd_sockets_map nd) view_req_fd_filepath view_req_fd_filepath\<rparr>
           else nd);
         case peer_address (host_env env) peer of
           None \<Rightarrow> Some (answer nd [])
         | Some address \<Rightarrow> do {
             ack_packet \<leftarrow> request_packet view_req_fd_filepath content_path
               (parse_http_range_header og_req_buffer);
             Some (Answer nd [UdpTo address (htons (atoi (pu_port peer))) ack_packet]) } } }"

definition api_addneighbor_3 :: "link_env \<Rightarrow> int \<Rightarrow> node \<Rightarrow> string \<Rightarrow> api_result option" where
  "api_addneighbor_3 env connect_fd nd og_req_buffer = do {
     query \<leftarrow> addneighbor_query og_req_buffer;
     case query of
       None \<Rightarrow> Some (answer nd [])
     | Some peer_string \<Rightarrow> do {
         (err, config) \<leftarrow> add_peer_from_string (nd_config nd) peer_string;
         let nd = nd\<lparr>nd_config := config\<rparr>;
         let reply = (\<lambda>text. map_option (answer nd) (send_str (ae_date (sv_api env)) connect_fd (Some text)));
         if err = -1 then reply ''Error: add_peer_from_string error''
         else if err = -2 then reply ''Error: Peer with UUID already exists''
         else do {
           peer_config \<leftarrow> url_path_to_config (ae_config_junk (sv_api env)) peer_string;
           case peer_config of
             ErrorPtr _ \<Rightarrow> None
           | ConfigPtr c \<Rightarrow> do {
               let nd = nd\<lparr>nd_network_map :=
                 update_network_map_3 (le_peer_key env) (nd_network_map nd) (nc_uuid c) (Other c)\<rparr>;
               api_neighbors (sv_api env) connect_fd nd } } } }"

definition api_map_3 :: "link_env \<Rightarrow> int \<Rightarrow> node \<Rightarrow> api_result option" where
  "api_map_3 env connect_fd nd = do {
     let nd = nd\<lparr>nd_network_map :=
       update_network_map_3 (le_own_key env) (nd_network_map nd) (nc_uuid (nd_config nd)) Self\<rparr>;
     str \<leftarrow> get_all_configs_json [''name'', ''weight'', ''peers''] [''name'', ''weight''] (network_configs nd);
     send_json (sv_api env) connect_fd nd (Some str) }"

definition process_peer_path_3 ::
  "link_env \<Rightarrow> string \<Rightarrow> int \<Rightarrow> string \<Rightarrow> node \<Rightarrow> api_result option" where
  "process_peer_path_3 env path_string connect_fd og_req_buffer nd =
     (case strtok_r ''/'' path_string of
        (None, _) \<Rightarrow> None
      | (Some first_token, rest) \<Rightarrow>
          if first_token \<noteq> ''peer'' then Some (answer nd [])
          else
            (case strtok_r ''/?'' rest of
               (None, _) \<Rightarrow> None
             | (Some peer_cmd, rest) \<Rightarrow>
                 if peer_cmd = ''add'' then api_add (sv_api env) connect_fd nd rest
                 else if peer_cmd = ''view'' then api_view_3 env connect_fd nd og_req_buffer rest
                 else if peer_cmd = ''config'' then api_config (sv_api env) connect_fd nd rest
                 else if peer_cmd = ''status'' then Some (answer nd [])
                 else if peer_cmd = ''uuid'' then api_uuid (sv_api env) connect_fd nd
                 else if peer_cmd = ''neighbors'' then api_neighbors (sv_api env) connect_fd nd
                 else if peer_cmd = ''addneighbor'' then api_addneighbor_3 env connect_fd nd og_req_buffer
                 else if peer_cmd = ''kill'' then Some Killed
                 else if peer_cmd = ''map'' then api_map_3 env connect_fd nd
                 else if peer_cmd = ''rank'' then api_neighbors (sv_api env) connect_fd nd
                 else Some (answer nd [])))"

text \<open>
  An advertisement. The address of the sender is recorded only when the network map does not
  know it yet; otherwise the field keeps what \<open>malloc\<close> left there, and the new configuration
  takes the place of the old one.
\<close>

definition sender_host :: "link_env \<Rightarrow> node \<Rightarrow> node_config \<Rightarrow> (node_config option) option" where
  "sender_host env nd peer_config =
     (if hash_table_get_3 (nd_network_map nd) (le_peer_key env) (length (nc_uuid peer_config)) = None
      then (case sv_peer_ip env of
          None \<Rightarrow> Some None
        | Some ip_str \<Rightarrow> do {
            host \<leftarrow> strcpy_buf NAME_SIZE ip_str;
            Some (Some (peer_config\<lparr>nc_host := host\<rparr>)) })
      else Some (Some peer_config))"

definition link_state_post_3 :: "link_env \<Rightarrow> string \<Rightarrow> int \<Rightarrow> node \<Rightarrow> api_result option" where
  "link_state_post_3 env body connect_fd nd = do {
     parsed \<leftarrow> json_to_node_config (sv_config_junk env) body;
     case parsed of
       None \<Rightarrow> Some (answer nd [])
     | Some peer_config \<Rightarrow> do {
         last_seen \<leftarrow> strcpy_buf UUID_SIZE (sv_last_seen env);
         let peer_config = peer_config\<lparr>nc_last_seen := last_seen\<rparr>;
         peer_config \<leftarrow> sender_host env nd peer_config;
         case peer_config of
           None \<Rightarrow> Some Killed
         | Some peer_config \<Rightarrow> do {
             reply \<leftarrow> node_config_to_json (nd_config nd) False None;
             acts \<leftarrow> send_str (ae_date (sv_api env)) connect_fd (Some reply);
             let network_map = update_network_map_3 (le_peer_key env) (nd_network_map nd)
               (nc_uuid peer_config) (Other peer_config);
             ht \<leftarrow> node_config_to_hashmap_3 (le_table_keys env) peer_config 0;
             global_config \<leftarrow> update_peer_weights_last_seen_3 (le_lookup_uuid env) (sv_now env)
               (nd_config nd) ht peer_config;
             _ \<leftarrow> node_config_to_json global_config True None;
             Some (answer (nd\<lparr>nd_config := global_config, nd_network_map := network_map\<rparr>) acts) } } }"

definition post_request_3 :: "link_env \<Rightarrow> string \<Rightarrow> string \<Rightarrow> int \<Rightarrow> node \<Rightarrow> api_result option" where
  "post_request_3 env path buffer connect_fd nd =
     (case strstr buffer (crlf @ crlf) of
        None \<Rightarrow> Some (answer nd [])
      | Some body_start \<Rightarrow>
          let body = drop 4 body_start
          in if path = ''/link-state'' then link_state_post_3 env body connect_fd nd
             else Some (answer nd []))"

definition child_routine_3 :: "link_env \<Rightarrow> string option \<Rightarrow> int \<Rightarrow> node \<Rightarrow> api_result option" where
  "child_routine_3 env received connect_fd nd =
     (let bytes = (case received of None \<Rightarrow> [] | Some bytes \<Rightarrow> bytes) in
      if bytes = [] then Some (answer nd [CloseFd connect_fd])
      else if RECV_SIZE \<le> length bytes then None
      else let buffer = c_str bytes; (method, path, version) = process_startline buffer in
      case path of
        None \<Rightarrow> None
      | Some path \<Rightarrow> do {
          path_peer_copy \<leftarrow> strncpy_buf 100 path;
          if 1 < length path_peer_copy \<and> method = Some ''GET'' then
            process_peer_path_3 env path_peer_copy connect_fd buffer nd
          else if method = Some ''POST'' then post_request_3 env path buffer connect_fd nd
          else Some (answer nd []) })"

subsection \<open>Advertisements sent\<close>

text \<open>The request, in a buffer of 1024 bytes; hw4 has 4096.\<close>

definition link_state_request_3 :: "node_config \<Rightarrow> peer_info \<Rightarrow> string option" where
  "link_state_request_3 config peer = do {
     json_data \<leftarrow> node_config_to_json config True None;
     sprintf_buf 1024
       (''POST /link-state HTTP/1.1'' @ crlf @
        ''Host: '' @ pi_host peer @ '':'' @ show_int (pi_frontend_port peer) @ crlf @
        ''Content-Type: application/json'' @ crlf @
        ''Content-Length: '' @ show_int (i32 (int (length json_data))) @ crlf @ crlf @ json_data) }"

text \<open>One round of \<open>check_peer_status\<close>; unlike in hw4 the node itself is skipped.\<close>

definition check_peer_3 :: "(string \<Rightarrow> int \<Rightarrow> bool) \<Rightarrow> (string \<Rightarrow> int \<Rightarrow> bool) \<Rightarrow> node_config \<Rightarrow> int \<Rightarrow>
  (string \<times> int \<times> string) list option" where
  "check_peer_3 resolves connects config i = do {
     peer \<leftarrow> peer_at config i;
     if pi_uuid peer = nc_uuid config then Some []
     else if \<not> resolves (pi_host peer) (pi_frontend_port peer) then Some []
     else if \<not> connects (pi_host peer) (pi_frontend_port peer) then Some []
     else do {
       request \<leftarrow> link_state_request_3 config peer;
       Some [(pi_host peer, pi_frontend_port peer, request)] } }"

definition check_peer_status_3 :: "(string \<Rightarrow> int \<Rightarrow> bool) \<Rightarrow> (string \<Rightarrow> int \<Rightarrow> bool) \<Rightarrow> node_config \<Rightarrow>
  (string \<times> int \<times> string) list option" where
  "check_peer_status_3 resolves connects config =
     map_option concat (those (map (check_peer_3 resolves connects config) [0..nc_peer_count config - 1]))"


subsection \<open>What every request keeps\<close>

lemma put_3_nodes:
  assumes "nd \<in> set (ht_nodes (hash_table_put_3 ht key v n))"
  shows "nd \<in> set (ht_nodes ht) \<or> node_value nd = v"
proof (cases "chain_update key n (\<lambda>_. v) (ht_buckets ht ! ht_index_3 ht key)")
  case None
  with assms have "nd \<in> set (ht_nodes (ht\<lparr>ht_buckets := (ht_buckets ht)[ht_index_3 ht key :=
      \<lparr>node_key = key, node_value = v\<rparr> # ht_buckets ht ! ht_index_3 ht key]\<rparr>))"
    by (simp add: hash_table_put_3_def chain_put_def Let_def)
  from add_node_nodes [OF this] show ?thesis by auto
next
  case (Some ns)
  with assms have "nd \<in> set (ht_nodes (ht\<lparr>ht_buckets := (ht_buckets ht)[ht_index_3 ht key := ns]\<rparr>))"
    by (simp add: hash_table_put_3_def chain_put_def Let_def)
  from update_nodes [OF this Some] show ?thesis by auto
qed

lemma modify_3_nodes:
  "nd \<in> set (ht_nodes (hash_table_modify_3 ht key n f)) \<Longrightarrow>
    nd \<in> set (ht_nodes ht) \<or> (\<exists>old\<in>set (ht_nodes ht). nd = old\<lparr>node_value := f (node_value old)\<rparr>)"
  using update_nodes [of nd ht "ht_index_3 ht key" _ key n f]
  by (auto simp: hash_table_modify_3_def Let_def split: option.splits)

lemma put_peer_nodes_3: "peer_nodes P ht \<Longrightarrow> P p \<Longrightarrow> peer_nodes P (hash_table_put_3 ht key p n)"
  unfolding peer_nodes_def using put_3_nodes [of _ ht key p n] by fastforce

lemma modify_peer_nodes_3:
  "keeps_weights P \<Longrightarrow> peer_nodes P ht \<Longrightarrow> P q \<Longrightarrow>
    peer_nodes P (hash_table_modify_3 ht key n (\<lambda>p. p\<lparr>pi_weight := pi_weight q\<rparr>))"
  unfolding peer_nodes_def keeps_weights_def
  using modify_3_nodes [of _ ht key n "\<lambda>p. p\<lparr>pi_weight := pi_weight q\<rparr>"] by fastforce

lemma add_peer_node_3_ok:
  assumes "keeps_weights P" "peer_nodes P ht" "P p"
  shows "peer_nodes P (add_peer_node_3 c ht (key, p))"
  using assms put_peer_nodes_3 modify_peer_nodes_3 [OF assms]
  by (auto simp: add_peer_node_3_def Let_def split: option.splits)

lemma received_table_3:
  assumes "node_config_to_hashmap_3 mems c w = Some ht" "P (peer_of_config c w)" "keeps_weights P"
    and "\<And>ps. peers_read c = Some ps \<Longrightarrow> \<forall>p\<in>set ps. P p"
  shows "peer_nodes P ht"
proof -
  let ?t = "hash_table_put_3 (hash_table_create (nat (nc_peer_count c + 1))) (mems 0) (peer_of_config c w)
    (length (nc_uuid c))"
  obtain ps where ps: "peers_read c = Some ps"
    "ht = foldl (add_peer_node_3 c) ?t (map (\<lambda>(i, p). (mems i, p)) (enumerate 1 ps))"
    using assms(1) by (auto simp: node_config_to_hashmap_3_def peer_of_config_def Let_def bind_Some_iff
      split: if_splits)
  have "peer_nodes P t \<Longrightarrow> \<forall>(key, p)\<in>set kps. P p \<Longrightarrow> peer_nodes P (foldl (add_peer_node_3 c) t kps)"
    for t kps
    by (induction kps arbitrary: t) (auto simp: add_peer_node_3_ok [OF assms(3)])
  moreover have "peer_nodes P ?t"
    using assms(2) by (intro put_peer_nodes_3 peer_nodes_create)
  moreover have "\<forall>(key, p)\<in>set (map (\<lambda>(i, p). (mems i, p)) (enumerate 1 ps)). P p"
    using assms(4) [OF ps(1)] by (auto simp: enumerate_eq_zip dest: set_zip_rightD)
  ultimately show ?thesis unfolding ps(2) by blast
qed

lemma update_peer_weights_3_inv:
  assumes "update_peer_weights_last_seen_3 l now c ht pc = Some c'" "conf_inv c" "field_ok UUID_SIZE now"
    and "peer_nodes entry_typed ht"
  shows "conf_inv c' \<and> nc_uuid c' = nc_uuid c"
proof -
  have nodes: "\<forall>ns\<in>set (ht_buckets ht). \<forall>nd\<in>set ns. entry_typed (node_value nd)"
    using assms(4) by (auto simp: peer_nodes_def ht_nodes_def)
  have ok: "config_ok c" using assms(2) by (simp add: conf_inv_def)
  from ok show ?thesis
  proof (cases rule: find_peer_cases [where u = "nc_uuid pc"])
    case absent
    with assms(1) update_from_buckets_inv [OF _ assms(2) nodes] show ?thesis
      by (auto simp: update_peer_weights_last_seen_3_def Let_def)
  next
    case (present i)
    have "peer_ok (nc_peers c ! nat i)" using peer_in_array [OF ok present(5)] .
    then have "conf_inv (set_peer c i ((nc_peers c ! nat i)\<lparr>pi_last_seen := now\<rparr>))"
      using present(2,3) assms(3) by (intro conf_inv_update [OF assms(2)]) (simp_all add: peer_ok_def)
    from assms(1) present update_from_buckets_inv [OF _ this nodes] assms(3) show ?thesis
      by (auto simp: update_peer_weights_last_seen_3_def Let_def field_ok_def)
  qed
qed

lemma table_shape_3 [simp]:
  "table_shape (hash_table_put_3 ht key v n) = table_shape ht"
  "table_shape (hash_table_delete_3 ht key n) = table_shape ht"
  "table_shape (update_network_map_3 key ht u v) = table_shape ht"
proof -
  show p: "table_shape (hash_table_put_3 ht key v n) = table_shape ht" for ht
    by (simp add: table_shape_def hash_table_put_3_def Let_def)
  show d: "table_shape (hash_table_delete_3 ht key n) = table_shape ht" for ht
    by (simp add: table_shape_def hash_table_delete_3_def Let_def)
  show "table_shape (update_network_map_3 key ht u v) = table_shape ht"
    by (simp add: table_shape_def update_network_map_3_def hash_table_put_3_def hash_table_delete_3_def Let_def)
qed

text \<open>The part of the invariant that a command must keep.\<close>

definition keeps :: "node \<Rightarrow> node \<Rightarrow> bool" where
  "keeps nd nd' \<longleftrightarrow> (conf_inv (nd_config nd) \<and> node_shape nd \<longrightarrow>
     conf_inv (nd_config nd') \<and> nc_uuid (nd_config nd') = nc_uuid (nd_config nd) \<and> node_shape nd')"

lemma keeps_refl [simp]: "keeps nd nd"
  by (simp add: keeps_def)

lemma api_view_3_keeps:
  assumes "api_view_3 env fd nd req rest = Some (Answer nd' acts)"
  shows "keeps nd nd'"
proof -
  have "keeps nd (nd\<lparr>nd_sockets_map := hashmap_put (nd_sockets_map nd) k v\<rparr>)" for k v
    by (simp add: keeps_def node_shape_def hm_wf_put)
  with assms show ?thesis
    by (auto simp: api_view_3_def bind_Some_iff answer_def Let_def split: option.splits if_splits
        dest!: send_page_node)
qed

lemma api_addneighbor_3_keeps:
  assumes "api_addneighbor_3 env fd nd req = Some (Answer nd' acts)" "cstring req"
  shows "keeps nd nd'"
proof -
  obtain query where q: "addneighbor_query req = Some query"
    using assms(1) by (auto simp: api_addneighbor_3_def bind_Some_iff)
  show ?thesis
  proof (cases query)
    case None
    with assms(1) q show ?thesis by (auto simp: api_addneighbor_3_def answer_def)
  next
    case (Some s)
    obtain r c where a: "add_peer_from_string (nd_config nd) s = Some (r, c)"
      using assms(1) q Some by (auto simp: api_addneighbor_3_def bind_Some_iff)
    obtain m where "nd' = nd\<lparr>nd_config := c, nd_network_map := m\<rparr>"
      "table_shape m = table_shape (nd_network_map nd)"
    proof (cases "r = -1 \<or> r = -2")
      case True
      with assms(1) q Some a that [of "nd_network_map nd"] show ?thesis
        by (auto simp: api_addneighbor_3_def answer_def)
    next
      case False
      with assms(1) q Some a obtain z where z: "url_path_to_config (ae_config_junk (sv_api env)) s = Some z"
        by (auto simp: api_addneighbor_3_def bind_Some_iff)
      with False assms(1) q Some a obtain c' where "nd' = nd\<lparr>nd_config := c,
          nd_network_map := update_network_map_3 (le_peer_key env) (nd_network_map nd) (nc_uuid c') (Other c')\<rparr>"
        by (cases z) (auto simp: api_addneighbor_3_def dest!: api_neighbors_node)
      with that show ?thesis by simp
    qed
    then show ?thesis
      using add_peer_from_string_step [of "nd_config nd" s] a addneighbor_query_cstring [of req s] q Some assms(2)
        add_peer_uuid [OF a]
      by (auto simp: keeps_def node_shape_def conf_inv_def)
  qed
qed


lemma api_map_3_keeps: "api_map_3 env fd nd = Some (Answer nd' acts) \<Longrightarrow> keeps nd nd'"
  by (auto simp: api_map_3_def bind_Some_iff keeps_def node_shape_def Let_def dest!: send_json_node)

lemma process_peer_path_3_keeps:
  assumes "process_peer_path_3 env path fd req nd = Some (Answer nd' acts)" "cstring req"
  shows "keeps nd nd'"
proof -
  have other: "keeps nd nd'"
    if "api_add e fd nd rest = Some (Answer nd' acts) \<or> api_config e fd nd rest = Some (Answer nd' acts) \<or>
      api_uuid e fd nd = Some (Answer nd' acts) \<or> api_neighbors e fd nd = Some (Answer nd' acts)" for e rest
    using that other_commands_shape other_commands_config by (metis keeps_def)
  show ?thesis
    using assms(1) other api_view_3_keeps api_addneighbor_3_keeps [OF _ assms(2)] api_map_3_keeps
    by (auto simp: process_peer_path_3_def answer_def split: prod.splits option.splits if_splits)
qed

lemma sender_host_uuid: "sender_host env nd c = Some (Some c') \<Longrightarrow>
    \<exists>h. c' = c\<lparr>nc_host := h\<rparr> \<and> (h = nc_host c \<or> length h < NAME_SIZE \<and> sv_peer_ip env = Some h)"
  by (cases "hash_table_get_3 (nd_network_map nd) (le_peer_key env) (length (nc_uuid c))")
    (auto simp: sender_host_def bind_Some_iff split: option.splits intro: exI [of _ "nc_host c"])

text \<open>
  As for a node of hw4: a clock and an address that are C strings, and memory for the received
  configuration, which may hold anything of its type.
\<close>

definition link_env_sane :: "link_env \<Rightarrow> bool" where
  "link_env_sane env \<longleftrightarrow> config_typed (sv_config_junk env) \<and>
     field_ok UUID_SIZE (sv_now env) \<and> field_ok UUID_SIZE (sv_last_seen env) \<and>
     (\<forall>ip. sv_peer_ip env = Some ip \<longrightarrow> cstring ip)"

lemma link_state_post_3_keeps:
  assumes "link_state_post_3 env body fd nd = Some (Answer nd' acts)" "link_env_sane env"
  shows "keeps nd nd'"
proof (cases "nd' = nd")
  case False
  from assms(1) obtain parsed where p: "json_to_node_config (sv_config_junk env) body = Some parsed"
    by (auto simp: link_state_post_3_def bind_Some_iff)
  with assms(1) False obtain c where c: "parsed = Some c"
    by (cases parsed) (auto simp: link_state_post_3_def answer_def)
  let ?c = "c\<lparr>nc_last_seen := sv_last_seen env\<rparr>"
  obtain x where x: "sender_host env nd ?c = Some x" and l: "length (sv_last_seen env) < UUID_SIZE"
    using assms(1) p c by (auto simp: link_state_post_3_def bind_Some_iff)
  obtain pc where pc: "x = Some pc"
    using assms(1) p c x l by (cases x) (auto simp: link_state_post_3_def)
  obtain ht g m where ht: "node_config_to_hashmap_3 (le_table_keys env) pc 0 = Some ht"
    "update_peer_weights_last_seen_3 (le_lookup_uuid env) (sv_now env) (nd_config nd) ht pc = Some g"
    "nd' = nd\<lparr>nd_config := g, nd_network_map := m\<rparr>" "table_shape m = table_shape (nd_network_map nd)"
    using assms(1) p c x l pc by (auto simp: link_state_post_3_def bind_Some_iff answer_def Let_def)
  have "config_typed (sv_config_junk env)" using assms(2) by (simp add: link_env_sane_def)
  then have "config_typed c" using json_to_node_config_typed p c by blast
  then have typed: "config_typed pc"
    using sender_host_uuid [OF x [unfolded pc]] assms(2) by (auto simp: config_typed_def link_env_sane_def)
  then have "\<forall>p\<in>set (nc_peers pc). entry_typed p" by (simp add: config_typed_def)
  then have "\<forall>p\<in>set ps. entry_typed p" if "peers_read pc = Some ps" for ps
    using peers_read_in [OF that] by blast
  with typed have "peer_nodes entry_typed ht"
    by (intro received_table_3 [OF ht(1)] peer_of_config_typed keeps_weights_typed) auto
  with update_peer_weights_3_inv [OF ht(2)] assms(2) ht(3,4) show ?thesis
    by (auto simp: keeps_def node_shape_def link_env_sane_def)
qed simp

lemma child_routine_3_keeps:
  assumes "child_routine_3 env received fd nd = Some (Answer nd' acts)" "link_env_sane env"
  shows "keeps nd nd'"
proof -
  define bytes where "bytes = (case received of None \<Rightarrow> [] | Some bytes \<Rightarrow> bytes)"
  obtain m p v where line: "process_startline (c_str bytes) = (m, p, v)" by (cases "process_startline (c_str bytes)")
  show ?thesis
  proof (cases "bytes = []")
    case True
    with assms(1) show ?thesis by (simp add: child_routine_3_def bytes_def [symmetric] answer_def)
  next
    case False
    with assms(1) line obtain path where "p = Some path" "length path < 100"
      "(if 1 < length path \<and> m = Some ''GET'' then process_peer_path_3 env path fd (c_str bytes) nd
        else if m = Some ''POST'' then post_request_3 env path (c_str bytes) fd nd
        else Some (answer nd [])) = Some (Answer nd' acts)"
      by (auto simp: child_routine_3_def bytes_def [symmetric] Let_def bind_Some_iff split: if_splits option.splits)
    then show ?thesis
      using process_peer_path_3_keeps link_state_post_3_keeps [OF _ assms(2)]
      by (auto simp: answer_def post_request_3_def Let_def split: if_splits option.splits)
  qed
qed


subsection \<open>A running node\<close>

inductive link_step :: "node \<Rightarrow> node \<Rightarrow> bool" where
  request: "link_env_sane env \<Longrightarrow> child_routine_3 env received fd nd = Some (Answer nd' acts) \<Longrightarrow>
    link_step nd nd'"

inductive_cases link_stepE: "link_step nd nd'"

inductive link_run :: "node \<Rightarrow> node \<Rightarrow> bool" for nd0 where
  start: "link_run nd0 nd0"
| step: "link_run nd0 nd \<Longrightarrow> link_step nd nd' \<Longrightarrow> link_run nd0 nd'"

lemma node_shape_init_3: "init_link_node conf = Some nd \<Longrightarrow> node_shape nd"
  by (auto simp: init_link_node_def bind_Some_iff node_shape_def hm_wf_new peer_table_init_def)

text \<open>
  A node of hw3 that starts with a well-formed configuration keeps it well-formed, with
  distinct uuids and its own uuid, and its tables keep their sizes, whatever bytes any number of
  connections send and whatever memory the hash reads after short keys, as long as the handlers
  return.
\<close>

theorem link_run_inv:
  assumes "init_link_node conf = Some nd0" "conf_inv (nd_config nd0)" "link_run nd0 nd"
  shows "node_inv (nc_uuid (nd_config nd0)) nd"
  using assms(3)
proof (induction rule: link_run.induct)
  case start
  then show ?case using assms(2) node_shape_init_3 [OF assms(1)] by (simp add: node_inv_def)
next
  case (step nd nd')
  then show ?case by (auto elim!: link_stepE dest!: child_routine_3_keeps simp: keeps_def node_inv_def)
qed

definition sample_link_env :: link_env where
  "sample_link_env = server_env.extend sample_server
     \<lparr>le_is_ip = (\<lambda>_. False), le_own_key = key_mem ''uuid'', le_peer_key = key_mem ''node-001'',
      le_table_keys = (\<lambda>_. key_mem ''node-001''), le_lookup_uuid = key_mem ''uuid''\<rparr>"

lemma sample_link_env_simps [simp]:
  "sv_api sample_link_env = sample_env" "sv_config_junk sample_link_env = global_config_init"
  "sv_now sample_link_env = ''2023-05-01''" "sv_last_seen sample_link_env = ''2023-05-01''"
  "sv_peer_ip sample_link_env = Some ''10.0.0.2''" "le_peer_key sample_link_env = key_mem ''node-001''"
  by (simp_all add: sample_link_env_def sample_server_def server_env.defs)

lemma sample_link_env_sane: "link_env_sane sample_link_env"
  using config_ok_typed [OF global_config_init_ok] by (simp add: link_env_sane_def field_ok_def)

lemma sample_config_request:
  "child_routine_3 sample_link_env (Some ''GET /peer/config?rate=7 HTTP/1.1'') 5 nd =
    Some (answer (nd\<lparr>nd_rate_limit := 7\<rparr>) (the (send_http_404 (ae_date sample_env) 5)))"
proof -
  have line: "process_startline (c_str ''GET /peer/config?rate=7 HTTP/1.1'') =
      (Some ''GET'', Some ''/peer/config?rate=7'', Some ''HTTP/1.1'')"
    by code_simp
  have path: "strtok_r ''/'' ''/peer/config?rate=7'' = (Some ''peer'', ''config?rate=7'')"
    "strtok_r ''/?'' ''config?rate=7'' = (Some ''config'', ''rate=7'')"
    "fst (strtok_r [] ''rate=7'') = Some ''rate=7''"
    "fst (strtok_r ''&'' (snd (strtok_r ''='' ''rate=7''))) = Some ''7''" "atoi ''7'' = 7"
    by code_simp+
  have "send_http_404 (ae_date sample_env) 5 \<noteq> None" by code_simp
  then have page: "send_page sample_env 5 n ''html/config.html'' =
      Some (answer n (the (send_http_404 (ae_date sample_env) 5)))" for n
    by (auto simp: send_page_def send_html_from_file_def sample_env_def)
  show ?thesis
    by (simp add: child_routine_3_def line strncpy_buf_def fits_def RECV_SIZE_def process_peer_path_3_def path
        api_config_def page)
qed

lemma link_run_inv_witness:
  "\<exists>nd0 nd. init_link_node None = Some nd0 \<and> link_run nd0 nd \<and> nd_rate_limit nd = 7 \<and>
     node_inv ''uuid'' nd"
proof -
  obtain nd0 where nd0: "init_link_node None = Some nd0" "nd_config nd0 = global_config_init"
    by (auto simp: init_link_node_def read_config_file_def)
  have c: "conf_inv (nd_config nd0)"
    using global_config_init_ok global_config_init_simps(3) by (simp add: nd0(2) conf_inv_def)
  have "link_step nd0 (nd0\<lparr>nd_rate_limit := 7\<rparr>)"
    using sample_config_request [of nd0] link_step.request [OF sample_link_env_sane] unfolding answer_def by blast
  then have run: "link_run nd0 (nd0\<lparr>nd_rate_limit := 7\<rparr>)" by (rule link_run.step [OF link_run.start])
  have "nc_uuid (nd_config nd0) = ''uuid''" by (simp add: nd0(2) global_config_init_simps)
  then show ?thesis using link_run_inv [OF nd0(1) c run] nd0(1) run by force
qed

subsection \<open>Advertisements\<close>

lemma print_elems_at_least:
  assumes "print_elems fmt d vs = Some b" "\<forall>v\<in>set vs. \<forall>s. print_value fmt d v = Some s \<longrightarrow> n \<le> length s"
  shows "n * length vs \<le> length b"
  using assms
proof (induction vs arbitrary: b)
  case (Cons v vs)
  then obtain s t where st: "print_value fmt d v = Some s" "print_elems fmt d vs = Some t" "length s + length t \<le> length b"
    by (auto simp: bind_Some_iff)
  with Cons.IH [OF st(2)] Cons.prems(2) have "n \<le> length s" "n * length vs \<le> length t" by auto
  with st(3) show ?case by (simp add: algebra_simps)
qed simp

lemma print_string_at_least: "length s + 2 \<le> length (print_string_ptr s)"
proof -
  have c: "1 \<le> length (escape_char c)" for c by (simp add: escape_char_def)
  have "length s \<le> length (concat (map escape_char s))"
  proof (induction s)
    case (Cons a s)
    with c [of a] show ?case by simp
  qed simp
  then show ?thesis by (simp add: print_string_ptr_def)
qed

lemma print_number_at_least: "print_number q = Some s \<Longrightarrow> 1 \<le> length s"
  by (auto simp: print_number_def Suc_le_eq split: if_splits)

lemma peer_obj_at_least:
  assumes "print_value True (Suc (Suc 0)) (peer_obj p) = Some s"
  shows "130 \<le> length s"
proof -
  obtain f b w where n: "print_number (of_int (pi_frontend_port p)) = Some f" "print_number (of_int (pi_backend_port p)) = Some b"
    "print_number (of_int (pi_weight p)) = Some w"
    using assms by (auto simp: peer_obj_members bind_Some_iff)
  show ?thesis
    using assms n [THEN print_number_at_least]
      print_string_at_least [of "pi_uuid p"] print_string_at_least [of "pi_last_seen p"]
      print_string_at_least [of "pi_name p"] print_string_at_least [of "pi_host p"]
      print_string_at_least [of "''uuid''"] print_string_at_least [of "''last_seen''"]
      print_string_at_least [of "''name''"] print_string_at_least [of "''host''"]
      print_string_at_least [of "''frontend_port''"] print_string_at_least [of "''backend_port''"]
      print_string_at_least [of "''weight''"]
    by (auto simp: peer_obj_members n)
qed

lemma advertisement_at_least:
  assumes "config_ok c" "node_config_to_json c True None = Some s"
  shows "130 * nat (nc_peer_count c) + 130 \<le> length s"
proof -
  let ?vs = "map peer_obj (live_peers c)"
  have p: "print_value True 0 (config_obj c (live_peers c)) = Some s"
    using assms by (simp add: node_config_to_json_def peers_read_ok cJSON_Print_def)
  then obtain b f g n where b: "print_elems True (Suc (Suc 0)) ?vs = Some b"
    "print_number (of_int (nc_frontend_port c)) = Some f" "print_number (of_int (nc_backend_port c)) = Some g"
    "print_number (of_int (nc_peer_count c)) = Some n"
    by (auto simp: config_obj_members bind_Some_iff)
  have "130 * length ?vs \<le> length b"
    by (rule print_elems_at_least [OF b(1)]) (use peer_obj_at_least in auto)
  then show ?thesis
    using p b(2-4) [THEN print_number_at_least] length_live_peers [OF assms(1)]
      print_string_at_least [of "nc_uuid c"] print_string_at_least [of "nc_last_seen c"]
      print_string_at_least [of "nc_name c"] print_string_at_least [of "nc_content_dir c"]
      print_string_at_least [of "''uuid''"] print_string_at_least [of "''last_seen''"]
      print_string_at_least [of "''name''"] print_string_at_least [of "''content_dir''"]
      print_string_at_least [of "''frontend_port''"] print_string_at_least [of "''backend_port''"]
      print_string_at_least [of "''peer_count''"] print_string_at_least [of "''peers''"]
    by (auto simp: config_obj_members b)
qed

lemma those_None: "x \<in> set xs \<Longrightarrow> f x = None \<Longrightarrow> those (map f xs) = None"
  by (induction xs) (auto split: option.splits)

text \<open>
  C10. The advertisement of hw3 does not fit its buffer of 1024 bytes as soon as a node knows
  seven others, however short their names are: when one of them that is not the node itself can
  be connected to, the round of \<open>check_peer_status\<close> writes past the buffer.
\<close>

theorem advertisement_overflows:
  assumes "config_ok c" "7 \<le> nc_peer_count c"
    and "p \<in> set (live_peers c)" "pi_uuid p \<noteq> nc_uuid c"
    and "resolves (pi_host p) (pi_frontend_port p)" "connects (pi_host p) (pi_frontend_port p)"
  shows "check_peer_status_3 resolves connects c = None"
proof -
  obtain k where k: "k < length (live_peers c)" "p = live_peers c ! k"
    using assms(3) by (auto simp: in_set_conv_nth)
  then have i: "int k < nc_peer_count c" using length_live_peers [OF assms(1)] assms(2) by simp
  then have at: "peer_at c (int k) = Some p"
    using peer_at_ok [OF assms(1), of "int k"] config_okD(3) [OF assms(1)] live_peers_nth [of "int k" c] k(2) by simp
  have "link_state_request_3 c p = None"
  proof (cases "node_config_to_json c True None")
    case (Some s)
    have "130 * 7 \<le> 130 * nat (nc_peer_count c)" using assms(2) by linarith
    with advertisement_at_least [OF assms(1) Some] have "1024 \<le> length s" by linarith
    with Some show ?thesis by (simp add: link_state_request_3_def)
  qed (simp add: link_state_request_3_def)
  with at assms(4-6) have "check_peer_3 resolves connects c (int k) = None" by (simp add: check_peer_3_def)
  moreover have "int k \<in> set [0..nc_peer_count c - 1]" using i by simp
  ultimately have "those (map (check_peer_3 resolves connects c) [0..nc_peer_count c - 1]) = None"
    by (rule those_None [rotated])
  then show ?thesis by (simp add: check_peer_status_3_def)
qed


definition seven_peers :: node_config where
  "seven_peers = global_config_init\<lparr>nc_peer_count := 7,
     nc_peers := map (\<lambda>i. new_peer (''n'' @ show_nat i) ''h'' 1 2 3) [0..<MAX_PEERS]\<rparr>"

lemma seven_peers_ok: "config_ok seven_peers"
proof -
  have "peer_ok (new_peer (''n'' @ show_nat i) ''h'' 1 2 3)" if "i < MAX_PEERS" for i
    using length_show_small [OF that] show_int_cstring [of "int i"]
    by (simp add: peer_ok_def new_peer_def field_ok_def is_i32_def INT_MAX_def INT_MIN_def)
  then show ?thesis
    using global_config_init_ok by (auto simp: config_ok_def seven_peers_def MAX_PEERS_def)
qed

lemma advertisement_overflows_witness:
  "check_peer_status_3 (\<lambda>host port. True) (\<lambda>host port. port = 1) seven_peers = None"
proof -
  have "0 < length (live_peers seven_peers)"
    using length_live_peers [OF seven_peers_ok] by (simp add: seven_peers_def)
  then have m: "new_peer (''n'' @ show_nat 0) ''h'' 1 2 3 \<in> set (live_peers seven_peers)"
    using nth_mem [of 0 "live_peers seven_peers"]
    by (simp add: live_peers_def seven_peers_def MAX_PEERS_def)
  have "pi_uuid (new_peer (''n'' @ show_nat 0) ''h'' 1 2 3) = ''n'' @ show_nat 0"
    "pi_frontend_port (new_peer (''n'' @ show_nat 0) ''h'' 1 2 3) = 1"
    by (simp_all only: new_peer_def peer_info.simps)
  moreover have "nc_uuid seven_peers = ''uuid''" "nc_peer_count seven_peers = 7"
    by (simp_all add: seven_peers_def global_config_init_simps)
  ultimately show ?thesis by (intro advertisement_overflows [OF seven_peers_ok _ m]) simp_all
qed

lemma update_peer_weights_3_improves:
  assumes "routing_inv c" "field_ok UUID_SIZE time" "peer_nodes entry_ok ht"
  shows "\<exists>c'. update_peer_weights_last_seen_3 l time c ht peer = Some c' \<and> improves (nc_uuid peer) c c'"
proof -
  have nodes: "\<forall>ns\<in>set (ht_buckets ht). \<forall>nd\<in>set ns. entry_ok (node_value nd)"
    using assms(3) by (auto simp: peer_nodes_def ht_nodes_def)
  have ok: "config_ok c" and dist: "distinct (peer_uuids c)"
    using assms(1) by (auto simp: routing_inv_def)
  from ok show ?thesis
  proof (cases rule: find_peer_cases [where u = "nc_uuid peer"])
    case absent
    then show ?thesis
      using update_from_buckets_improves [OF assms(1) nodes]
      by (simp add: update_peer_weights_last_seen_3_def Let_def)
  next
    case (present i)
    let ?old = "nc_peers c ! nat i"
    let ?c = "set_peer c i (?old\<lparr>pi_last_seen := time\<rparr>)"
    have i: "nat i < length (live_peers c)" using present by (simp add: length_live_peers [OF ok])
    have "live_peers ?c = (live_peers c)[nat i := ?old\<lparr>pi_last_seen := time\<rparr>]"
      by (rule live_set_peer) (use present in auto)
    then have same: "map (\<lambda>p. (pi_uuid p, pi_weight p)) (live_peers ?c) =
        map (\<lambda>p. (pi_uuid p, pi_weight p)) (live_peers c)"
      using i present(6) by (simp add: map_update_same)
    have "peer_uuids ?c = map fst (map (\<lambda>p. (pi_uuid p, pi_weight p)) (live_peers ?c))" by (simp add: comp_def)
    then have uu: "peer_uuids ?c = peer_uuids c" using same by (simp add: comp_def)
    have "peer_ok ?old" using peer_in_array [OF ok present(5)] .
    then have "config_ok ?c" using assms(2) by (intro set_peer_ok ok) (simp add: peer_ok_def)
    with uu assms(1) have r: "routing_inv ?c" by (simp add: routing_inv_def)
    then have "improves (nc_uuid peer) c ?c" using uu same by (auto simp: improves_def weights_def)
    moreover obtain c' where "update_peer_weights_last_seen_3 l time c ht peer = Some c'"
      "improves (nc_uuid peer) ?c c'"
      using update_from_buckets_improves [OF r nodes] present assms(2)
      by (auto simp: update_peer_weights_last_seen_3_def Let_def field_ok_def)
    ultimately show ?thesis using improves_trans by blast
  qed
qed

lemma network_map_entry_3:
  assumes "ht_inv K m" "pointer_key K u" "holds k u" "pointer_key K j" "holds k' j"
  shows "hash_table_get_3 (update_network_map_3 k m u v) k' (length j) =
    (if j = u then Some v else hash_table_get_3 m k' (length j))"
proof -
  note p = get_put_3 [OF assms(1,3,2,5,4)] get_put_3 [OF inv_delete_3 [OF assms(1,3,2)] assms(3,2,5,4)]
    get_delete_3 [OF assms(1,3,2,5,4)]
  show ?thesis
  proof (cases "hash_table_get_3 m k (length u) = None")
    case True
    then show ?thesis unfolding update_network_map_3_def Let_def using p(1) [of v] by simp
  next
    case False
    then have "update_network_map_3 k m u v = hash_table_put_3 (hash_table_delete_3 m k (length u)) k v (length u)"
      by (simp add: update_network_map_3_def)
    then show ?thesis using p(2) [of v] p(3) by (simp only: if_cancel split: if_split) simp
  qed
qed


lemma link_state_handled_3:
  assumes "config_ok c" "node_config_to_json c True files = Some s" "\<forall>f. files = Some f \<longrightarrow> files_ok f"
    and "length (nc_peers (sv_config_junk env)) = MAX_PEERS" "link_env_sane env"
    and "hash_table_get_3 (nd_network_map nd) (le_peer_key env) (length (nc_uuid c)) = None \<or>
      length (nc_host (sv_config_junk env)) < NAME_SIZE"
    and "sv_peer_ip env = Some ip" "length ip < NAME_SIZE" "header_text 100 (ae_date (sv_api env))"
    and "routing_inv (nd_config nd)" "ht_inv K (nd_network_map nd)"
    and "pointer_key K (nc_uuid c)" "holds (le_peer_key env) (nc_uuid c)"
  shows "\<exists>nd' m r pc. link_state_post_3 env s fd nd = Some (Answer nd' [Tcp (Send fd m), Tcp (CloseFd fd)]) \<and>
    node_config_to_json (nd_config nd) False None = Some r \<and>
    http_body m = Some (''<html><body>'' @ r @ ''</body></html>'' @ crlf) \<and>
    improves (nc_uuid c) (nd_config nd) (nd_config nd') \<and>
    nc_uuid pc = nc_uuid c \<and> map pi_uuid (live_peers pc) = map pi_uuid (live_peers c) \<and>
    nc_host pc = (if hash_table_get_3 (nd_network_map nd) (le_peer_key env) (length (nc_uuid c)) = None
      then ip else nc_host (sv_config_junk env)) \<and>
    (\<forall>j k. pointer_key K j \<and> holds k j \<longrightarrow> hash_table_get_3 (nd_network_map nd') k (length j) =
      (if j = nc_uuid c then Some (Other pc) else hash_table_get_3 (nd_network_map nd) k (length j)))"
proof -
  let ?r = "received_config (sv_config_junk env) c"
  let ?h = "if hash_table_get_3 (nd_network_map nd) (le_peer_key env) (length (nc_uuid c)) = None
      then ip else nc_host (sv_config_junk env)"
  define pc where "pc = ?r\<lparr>nc_last_seen := sv_last_seen env, nc_host := ?h\<rparr>"
  have e: "field_ok UUID_SIZE (sv_now env)" "field_ok UUID_SIZE (sv_last_seen env)" "cstring ip"
    "cstring (nc_host (sv_config_junk env))"
    using assms(5,7) by (simp_all add: link_env_sane_def config_typed_def)
  have read: "json_to_node_config (sv_config_junk env) s = Some (Some ?r)"
    using node_config_sent [OF assms(1,4,3), of True] assms(2) by auto
  have host: "sender_host env nd (?r\<lparr>nc_last_seen := sv_last_seen env\<rparr>) = Some (Some pc)"
    using assms(7,8) by (simp add: sender_host_def pc_def received_config_def [of _ c])
  note got = received_peers [OF assms(4,1)]
  have live: "live_peers pc = live_peers ?r" "nc_peers pc = nc_peers ?r" by (simp_all add: pc_def live_peers_def)
  have fields: "field_ok UUID_SIZE (nc_uuid c)" "field_ok NAME_SIZE (nc_name c)" "is_i32 (nc_frontend_port c)"
    "is_i32 (nc_backend_port c)" "0 \<le> nc_peer_count c" "nc_peer_count c \<le> int MAX_PEERS"
    using assms(1) by (simp_all add: config_ok_def)
  have "field_ok NAME_SIZE ?h" using e(3,4) assms(6,8) by (auto simp: field_ok_def)
  then have pcok: "read_ok pc"
    using got(1,4) fields unfolding read_ok_def live by (simp add: pc_def received_config_def)
  have u: "nc_uuid pc = nc_uuid c" "nc_host pc = ?h" by (simp_all add: pc_def received_config_def)
  have peers: "map pi_uuid (live_peers pc) = map pi_uuid (live_peers c)"
    using arg_cong [OF got(3), of "map fst"] by (simp add: comp_def live)
  obtain ht where ht: "node_config_to_hashmap_3 (le_table_keys env) pc 0 = Some ht"
    using read_okD(3,1) [OF pcok] by (simp add: node_config_to_hashmap_3_def Let_def)
  have "is_i32 0" by (simp add: is_i32_def INT_MAX_def INT_MIN_def)
  with read_okD(1,5,6) [OF pcok] have "peer_nodes entry_ok ht"
    by (intro received_table_3 [OF ht _ keeps_weights_entry]) auto
  then obtain own where own: "update_peer_weights_last_seen_3 (le_lookup_uuid env) (sv_now env) (nd_config nd) ht pc =
      Some own" "improves (nc_uuid c) (nd_config nd) own"
    using update_peer_weights_3_improves [OF assms(10) e(1)] u(1) by metis
  have ok: "config_ok own" "config_ok (nd_config nd)"
    using own(2) assms(10) by (auto simp: improves_def routing_inv_def)
  obtain t where t: "node_config_to_json own True None = Some t"
    using node_config_sent [OF ok(1) config_okD(1) [OF ok(1)], of None True] by auto
  obtain reply where reply: "node_config_to_json (nd_config nd) False None = Some reply" "length reply < 261900"
    using config_text_length [OF ok(2)] by blast
  obtain m where m: "send_str (ae_date (sv_api env)) fd (Some reply) = Some [Send fd m, CloseFd fd]"
    "http_body m = Some (''<html><body>'' @ reply @ ''</body></html>'' @ crlf)"
    using send_str_ok [OF assms(9) reply(2), of fd] by blast
  let ?m = "update_network_map_3 (le_peer_key env) (nd_network_map nd) (nc_uuid c) (Other pc)"
  have "length (sv_last_seen env) < UUID_SIZE" using e(2) by (simp add: field_ok_def)
  then have "link_state_post_3 env s fd nd = Some (Answer (nd\<lparr>nd_config := own, nd_network_map := ?m\<rparr>)
      [Tcp (Send fd m), Tcp (CloseFd fd)])"
    using read host reply(1) m(1) ht own(1) t u(1) by (simp add: link_state_post_3_def answer_def)
  moreover have "hash_table_get_3 ?m k (length j) =
      (if j = nc_uuid c then Some (Other pc) else hash_table_get_3 (nd_network_map nd) k (length j))"
    if "pointer_key K j \<and> holds k j" for j k
    using that by (intro network_map_entry_3 [OF assms(11-13)]) simp_all
  ultimately show ?thesis
    using reply(1) m(2) own(2) u peers
    by (intro exI [of _ "nd\<lparr>nd_config := own, nd_network_map := ?m\<rparr>"] exI [of _ m] exI [of _ reply]
        exI [of _ pc]) simp
qed

text \<open>A message of either version, for a peer whose host can stand in a header.\<close>

definition advertises :: "node_config \<Rightarrow> peer_info \<Rightarrow> string \<Rightarrow> bool" where
  "advertises c peer req \<longleftrightarrow> config_ok c \<and> cstring (pi_host peer) \<and> CR \<notin> set (pi_host peer) \<and>
     (link_state_request_3 c peer = Some req \<or>
      (\<exists>files. files_ok files \<and> link_state_request c peer files = Some req))"

lemma advertisement_dispatch_3:
  assumes "advertises c peer req"
  obtains s files where "node_config_to_json c True files = Some s" "\<forall>f. files = Some f \<longrightarrow> files_ok f"
    "child_routine_3 env (Some req) fd nd = link_state_post_3 env s fd nd"
proof -
  obtain s files where s: "node_config_to_json c True files = Some s" "\<forall>f. files = Some f \<longrightarrow> files_ok f"
    "req = advertisement_text peer s" "length req < 4096"
    using assms unfolding advertises_def link_state_request_3_def link_state_request_def advertisement_text_def
    by (fastforce simp: bind_Some_iff)
  have c: "config_ok c" "cstring (pi_host peer)" "CR \<notin> set (pi_host peer)"
    using assms by (simp_all add: advertises_def)
  have "cstring s" using node_config_sent [OF c(1) config_okD(1) [OF c(1)] s(2), of True] s(1) by auto
  note parts = advertisement_parts [OF this c(2,3)]
  obtain v where line: "process_startline req = (Some ''POST'', Some ''/link-state'', v)"
    using parts(3) s(3) by blast
  have "post_request_3 env ''/link-state'' req fd nd = link_state_post_3 env s fd nd"
    using parts(4) s(3) by (simp add: post_request_3_def crlf_def)
  moreover have "length req < RECV_SIZE" using s(4) by (simp add: RECV_SIZE_def)
  ultimately have "child_routine_3 env (Some req) fd nd = link_state_post_3 env s fd nd"
    using line parts(1,2) s(3) by (simp add: child_routine_3_def strncpy_buf_def fits_def)
  with s(1,2) show thesis by (rule that)
qed

text \<open>
  C9. What one advertisement of hw3 or hw4 does to a node of hw3, for a uuid whose eight hashed
  bytes are its own: it is
  answered with the own configuration, no distance grows and no entry is lost, and the network
  map refers to the sender's configuration, every other entry staying. The address of the
  connection is recorded only the first time; a later advertisement of the same node puts a
  configuration in its place whose host is what \<open>malloc\<close> left there, which is taken to end
  within its field: without that, copying it into a new peer is undefined.
\<close>

theorem link_state_exchange_3:
  assumes "advertises c peer req"
    and "length (nc_peers (sv_config_junk env)) = MAX_PEERS" "link_env_sane env"
    and "hash_table_get_3 (nd_network_map nd) (le_peer_key env) (length (nc_uuid c)) = None \<or>
      length (nc_host (sv_config_junk env)) < NAME_SIZE"
    and "sv_peer_ip env = Some ip" "length ip < NAME_SIZE" "header_text 100 (ae_date (sv_api env))"
    and "routing_inv (nd_config nd)" "ht_inv K (nd_network_map nd)"
    and "pointer_key K (nc_uuid c)" "holds (le_peer_key env) (nc_uuid c)"
  shows "\<exists>nd' m r pc. child_routine_3 env (Some req) fd nd = Some (Answer nd' [Tcp (Send fd m), Tcp (CloseFd fd)]) \<and>
    node_config_to_json (nd_config nd) False None = Some r \<and>
    http_body m = Some (''<html><body>'' @ r @ ''</body></html>'' @ crlf) \<and>
    improves (nc_uuid c) (nd_config nd) (nd_config nd') \<and>
    nc_uuid pc = nc_uuid c \<and> map pi_uuid (live_peers pc) = map pi_uuid (live_peers c) \<and>
    nc_host pc = (if hash_table_get_3 (nd_network_map nd) (le_peer_key env) (length (nc_uuid c)) = None
      then ip else nc_host (sv_config_junk env)) \<and>
    (\<forall>j k. pointer_key K j \<and> holds k j \<longrightarrow> hash_table_get_3 (nd_network_map nd') k (length j) =
      (if j = nc_uuid c then Some (Other pc) else hash_table_get_3 (nd_network_map nd) k (length j)))"
proof -
  obtain s files where s: "node_config_to_json c True files = Some s" "\<forall>f. files = Some f \<longrightarrow> files_ok f"
    "child_routine_3 env (Some req) fd nd = link_state_post_3 env s fd nd"
    using advertisement_dispatch_3 [OF assms(1)] by blast
  have "config_ok c" using assms(1) by (simp add: advertises_def)
  from link_state_handled_3 [OF this s(1,2) assms(2-11), of fd] show ?thesis by (simp only: s(3))
qed

lemma sample_advertisement:
  "\<exists>req. advertises (global_config_init\<lparr>nc_uuid := ''node-001''\<rparr>) zero_peer req \<and>
    link_state_request_3 (global_config_init\<lparr>nc_uuid := ''node-001''\<rparr>) zero_peer = Some req"
proof -
  let ?c = "global_config_init\<lparr>nc_uuid := ''node-001''\<rparr>"
  have c: "config_ok ?c" using global_config_init_ok by (simp add: config_ok_def field_ok_def)
  have l: "live_peers ?c = []" using global_config_init_simps(3) by (simp add: live_peers_def)
  obtain s where s: "node_config_to_json ?c True None = Some s"
    using node_config_sent [OF c config_okD(1) [OF c], of None True] by auto
  have p: "print_value True 0 (JObject [(''uuid'', JString ''node-001''), (''last_seen'', JString []),
     (''name'', JString ''name''), (''frontend_port'', JNumber 8080), (''backend_port'', JNumber 8081),
     (''content_dir'', JString ''content/''), (''peer_count'', JNumber 0), (''peers'', JArray [])]) = Some s"
    using s c l
    by (simp add: node_config_to_json_def peers_read_ok config_obj_members cJSON_Print_def
        global_config_init_def del: print_value.simps)
  have r: "is_i32 8080" "is_i32 8081" "is_i32 0" by (simp_all add: is_i32_def INT_MAX_def INT_MIN_def)
  have n: "num_int 8080 = 8080" "num_int 8081 = 8081" "num_int 0 = 0"
    using r [THEN num_int_of_int] by simp_all
  have "length s < 900"
    using p length_print_string [of "''uuid''"] length_print_string [of "''node-001''"]
      length_print_string [of "''last_seen''"] length_print_string [of "''name''"]
      length_print_string [of "''frontend_port''"] length_print_string [of "''backend_port''"]
      length_print_string [of "''content_dir''"] length_print_string [of "''content/''"]
      length_print_string [of "''peer_count''"] length_print_string [of "''peers''"]
      length_print_string [of "[]"] r [THEN length_show_int]
    by (auto simp: print_number_def n)
  moreover have "length (show_int (i32 (int (length s)))) \<le> 11" by (simp add: length_show_int i32_range)
  moreover have "length (show_int (pi_frontend_port zero_peer)) \<le> 11" "pi_host zero_peer = []"
    using length_show_int [OF r(3)] by (simp_all add: zero_peer_def)
  ultimately have "link_state_request_3 ?c zero_peer \<noteq> None"
    using s by (simp add: link_state_request_3_def crlf_def)
  with c show ?thesis by (auto simp: advertises_def zero_peer_def)
qed

lemma link_state_exchange_3_witness:
  "\<exists>req nd' m pc. child_routine_3 sample_link_env (Some req) 5 sample_receiver =
      Some (Answer nd' [Tcp (Send 5 m), Tcp (CloseFd 5)]) \<and>
    hash_table_get_3 (nd_network_map nd') (key_mem ''node-001'') 8 = Some (Other pc) \<and>
    nc_host pc = ''10.0.0.2''"
proof -
  let ?c = "global_config_init\<lparr>nc_uuid := ''node-001''\<rparr>" and ?K = "{''node-001''}"
  obtain req where req: "advertises ?c zero_peer req" using sample_advertisement by blast
  have K: "pointer_key ?K ''node-001''" by (simp add: pointer_key_def table_key_def prefix_free_def)
  have inv: "ht_inv ?K (nd_network_map sample_receiver)"
    by (simp add: sample_receiver_def sample_node_def ht_inv_create)
  have none: "hash_table_get_3 (nd_network_map sample_receiver) k n = None" for k n
    by (simp add: sample_receiver_def sample_node_def get_3_create)
  have r: "routing_inv (nd_config sample_receiver)" using sample_receiver_ok by (simp add: receiver_ok_def)
  have d: "header_text 100 (ae_date (sv_api sample_link_env))" using sample_env_ok by (simp add: env_ok_def)
  have l: "length ''node-001'' = 8" by simp
  have h: "pointer_key ?K (nc_uuid ?c)" "holds (le_peer_key sample_link_env) (nc_uuid ?c)"
    using K holds_key_mem [of "''node-001''"] by simp_all
  have m: "length (nc_peers (sv_config_junk sample_link_env)) = MAX_PEERS"
    using global_config_init_simps(4) by simp
  from link_state_exchange_3 [OF req m sample_link_env_sane _ sample_link_env_simps(5) _ d r inv h, of 5]
  obtain nd' m pc where "child_routine_3 sample_link_env (Some req) 5 sample_receiver =
      Some (Answer nd' [Tcp (Send 5 m), Tcp (CloseFd 5)])" "nc_host pc = ''10.0.0.2''"
    and j: "\<forall>j k. pointer_key ?K j \<and> holds k j \<longrightarrow> hash_table_get_3 (nd_network_map nd') k (length j) =
      (if j = ''node-001'' then Some (Other pc) else hash_table_get_3 (nd_network_map sample_receiver) k (length j))"
    by (auto simp: none)
  moreover have "hash_table_get_3 (nd_network_map nd') (key_mem ''node-001'') (length ''node-001'') = Some (Other pc)"
    using j [THEN spec, of "''node-001''", THEN spec, of "key_mem ''node-001''"] K
      holds_key_mem [of "''node-001''"] by (simp only: if_True simp_thms)
  ultimately show ?thesis unfolding l by blast
qed


text \<open>
  C11. The versions do not mix: a node of hw4 that receives the advertisement of a node of hw3
  runs into undefined behaviour, whatever its state, because the message has no file map and
  the pointer that \<open>json_to_files_map\<close> returns then is used without a check.
\<close>

theorem advertisement_without_files_undefined:
  assumes "config_ok c" "link_state_request_3 c peer = Some req" "cstring (pi_host peer)" "CR \<notin> set (pi_host peer)"
    and "length (nc_peers (sv_config_junk env)) = MAX_PEERS"
  shows "child_routine env (Some req) fd nd = None"
proof -
  obtain s j where s: "node_config_to_json c True None = Some s" "cstring s" "cJSON_Parse s = Some j"
    "cJSON_GetObjectItem j ''file_map'' = None"
    "json_to_node_config (sv_config_junk env) s = Some (Some (received_config (sv_config_junk env) c))"
    using node_config_sent [OF assms(1,5), of None True] by auto
  have "req = advertisement_text peer s" "length req < 1024"
    using assms(2) s(1) by (auto simp: link_state_request_3_def advertisement_text_def)
  then have "child_routine env (Some req) fd nd = link_state_post env s fd nd"
    using advertisement_dispatch [OF _ s(2) assms(3,4)] by simp
  also have "\<dots> = None"
    using s(3-5) by (simp add: link_state_post_def json_to_files_map_def update_peer_to_files_map_def)
  finally show ?thesis .
qed


lemma advertisement_without_files_undefined_witness:
  "\<exists>req. link_state_request_3 (global_config_init\<lparr>nc_uuid := ''node-001''\<rparr>) zero_peer = Some req \<and>
    child_routine sample_server (Some req) 5 sample_receiver = None"
proof -
  let ?c = "global_config_init\<lparr>nc_uuid := ''node-001''\<rparr>"
  obtain req where req: "link_state_request_3 ?c zero_peer = Some req" using sample_advertisement by blast
  have c: "config_ok ?c" "length (nc_peers (sv_config_junk sample_server)) = MAX_PEERS"
    using global_config_init_ok by (simp_all add: config_ok_def field_ok_def sample_server_def)
  have "child_routine sample_server (Some req) 5 sample_receiver = None"
    by (rule advertisement_without_files_undefined [OF c(1) req _ _ c(2)]) (simp_all add: zero_peer_def)
  with req show ?thesis by blast
qed

end
