(* ===== verification/UdpClient.thy ===== *)
theory UdpClient
  imports UdpServer
begin

text \<open>
  \<open>src/hw4/src/udp-client.c\<close>, the test program that downloads one file: it repeats \<open>syn\<close> until a
  datagram arrives and then acknowledges block after block, waiting for each. One step is one
  iteration of one of the two loops; the network decides what it receives.
\<close>

subsection \<open>The program\<close>

definition REQ_FILE_PATH :: string where
  "REQ_FILE_PATH = ''sample4.ogg''"

definition CLIENT_ID_SIZE :: nat where
  "CLIENT_ID_SIZE = 27"

definition data_init :: "string \<Rightarrow> string" where
  "data_init s = zero_fill PACKET_DATA_SIZE s"

definition syn_packet :: packet where
  "syn_packet =
     \<lparr>pk_connection_id = ''tempID'', pk_packet_type = ''syn'', pk_ack_number = 0,
      pk_file_path = REQ_FILE_PATH, pk_start_byte = 0, pk_end_byte = 0, pk_packet_number = 0,
      pk_data_size = 0, pk_orig_has_range = False, pk_content_length = 0,
      pk_data = data_init REQ_FILE_PATH\<rparr>"

definition ack_packet :: "int \<Rightarrow> int \<Rightarrow> packet" where
  "ack_packet packet_number file_start_byte =
     \<lparr>pk_connection_id = ''tempID'', pk_packet_type = ''ack'', pk_ack_number = packet_number,
      pk_file_path = REQ_FILE_PATH, pk_start_byte = i32 file_start_byte, pk_end_byte = -1,
      pk_packet_number = packet_number, pk_data_size = 0, pk_orig_has_range = False,
      pk_content_length = 0, pk_data = data_init []\<rparr>"

text \<open>Where \<open>download_file\<close> is, its counters and what it wrote into the received file.\<close>

datatype phase = Syncing | Receiving | Complete | Failed

record client =
  cl_phase :: phase
  cl_retries :: int
  cl_packet_number :: int
  cl_file_start_byte :: int
  cl_file :: string

text \<open>The state at the first loop, or the end when the file cannot be created.\<close>

definition download_start :: "bool \<Rightarrow> client" where
  "download_start created =
     \<lparr>cl_phase = (if created then Syncing else Failed), cl_retries = 0, cl_packet_number = 0,
      cl_file_start_byte = 0, cl_file = []\<rparr>"

text \<open>The packet that the next iteration sends.\<close>

definition client_packet :: "client \<Rightarrow> packet option" where
  "client_packet c =
     (case cl_phase c of
        Syncing \<Rightarrow> Some syn_packet
      | Receiving \<Rightarrow> Some (ack_packet (cl_packet_number c) (cl_file_start_byte c))
      | _ \<Rightarrow> None)"

text \<open>The number of retries is only looked at when a datagram has arrived.\<close>

definition syn_step :: "recv_event \<Rightarrow> client \<Rightarrow> client" where
  "syn_step event c =
     (case event of
        Timeout \<Rightarrow> c\<lparr>cl_retries := i32 (cl_retries c + 1)\<rparr>
      | RecvError \<Rightarrow> c\<lparr>cl_phase := Failed\<rparr>
      | Datagram junk d \<Rightarrow> if 5 < cl_retries c then c\<lparr>cl_phase := Failed\<rparr> else c\<lparr>cl_phase := Receiving\<rparr>)"

text \<open>The packet in the memory of \<open>file_packet\<close>: its number, its data size and its data.\<close>

definition file_packet :: "string \<Rightarrow> string \<Rightarrow> int \<times> int \<times> string" where
  "file_packet junk d =
     (let mem = recv_into (packet_size CLIENT_ID_SIZE) junk d; ack = off_ack CLIENT_ID_SIZE
      in (int_at (ack + 268) mem, int_at (ack + 272) mem,
          take PACKET_DATA_SIZE (drop (off_data CLIENT_ID_SIZE) mem)))"

text \<open>
  \<open>send_ok\<close> is whether \<open>sendto\<close> succeeded. The data size of the packet is given to \<open>fwrite\<close>
  unchecked: a size outside 0 to 1024 reads outside the packet.
\<close>

definition ack_step :: "bool \<Rightarrow> recv_event \<Rightarrow> client \<Rightarrow> client option" where
  "ack_step send_ok event c =
     (if \<not> send_ok then Some (c\<lparr>cl_phase := Failed\<rparr>)
      else case event of
        Timeout \<Rightarrow> Some c
      | RecvError \<Rightarrow> Some (c\<lparr>cl_phase := Failed\<rparr>)
      | Datagram junk d \<Rightarrow>
          let (packet_number, packet_data_size, packet_data) = file_packet junk d in
          if packet_number \<noteq> cl_packet_number c then Some c
          else if packet_data_size < 0 \<or> int PACKET_DATA_SIZE < packet_data_size then None
          else
            let c = c\<lparr>cl_file := cl_file c @ take (nat packet_data_size) packet_data\<rparr>
            in if packet_data_size < int PACKET_DATA_SIZE then Some (c\<lparr>cl_phase := Complete\<rparr>)
               else Some (c\<lparr>cl_packet_number := i32 (cl_packet_number c + 1),
                 cl_file_start_byte := i64 (cl_file_start_byte c + int PACKET_DATA_SIZE)\<rparr>))"

definition client_step :: "bool \<Rightarrow> recv_event \<Rightarrow> client \<Rightarrow> client option" where
  "client_step send_ok event c =
     (case cl_phase c of
        Syncing \<Rightarrow> Some (syn_step event c)
      | Receiving \<Rightarrow> ack_step send_ok event c
      | _ \<Rightarrow> Some c)"

text \<open>The state after a number of iterations.\<close>

fun download_file :: "(bool \<times> recv_event) list \<Rightarrow> client \<Rightarrow> client option" where
  "download_file [] c = Some c"
| "download_file ((send_ok, event) # events) c = do {
     c \<leftarrow> client_step send_ok event c;
     download_file events c }"

lemma download_file_append:
  "download_file (es @ es') c = Option.bind (download_file es c) (download_file es')"
  by (induction es c rule: download_file.induct) (auto split: option.split bind_splits)

lemma bind_download_Nil [simp]: "Option.bind x (download_file []) = x"
  by (cases x) auto

lemma download_file_stopped: "cl_phase c \<in> {Complete, Failed} \<Longrightarrow> download_file es c = Some c"
  by (induction es) (auto simp: client_step_def)

subsection \<open>Stop and wait\<close>

text \<open>
  A network may lose, repeat and reorder datagrams, but what arrives while blocks are fetched is a
  block of the file under its number (or has a negative number).
\<close>

definition carries_block :: "string \<Rightarrow> string \<Rightarrow> string \<Rightarrow> bool" where
  "carries_block content junk d \<longleftrightarrow>
     (let (n, sz, data) = file_packet junk d in
      0 \<le> n \<longrightarrow> sz = int (length (file_block content (nat n))) \<and>
        prefix (file_block content (nat n)) data)"

fun honest :: "string \<Rightarrow> bool \<times> recv_event \<Rightarrow> bool" where
  "honest content (send_ok, Datagram junk d) = carries_block content junk d"
| "honest content _ = True"

definition fetched :: "string \<Rightarrow> client \<Rightarrow> bool" where
  "fetched content c \<longleftrightarrow>
     (\<exists>k. cl_packet_number c = int k \<and> cl_file_start_byte c = int (PACKET_DATA_SIZE * k) \<and>
       PACKET_DATA_SIZE * k \<le> length content \<and>
       (case cl_phase c of
          Complete \<Rightarrow> cl_file c = content
        | _ \<Rightarrow> cl_file c = take (PACKET_DATA_SIZE * k) content))"

lemma take_next_block: "take (PACKET_DATA_SIZE * Suc k) content =
    take (PACKET_DATA_SIZE * k) content @ file_block content k"
  by (simp add: file_block_def take_add [symmetric] add.commute)

lemma full_block: "length (file_block content k) = PACKET_DATA_SIZE \<Longrightarrow>
    PACKET_DATA_SIZE * Suc k \<le> length content"
  by (auto simp: file_block_def min_def PACKET_DATA_SIZE_def split: if_splits)

lemma short_block: "length (file_block content k) < PACKET_DATA_SIZE \<Longrightarrow>
    take (PACKET_DATA_SIZE * k) content @ file_block content k = content"
  by (simp add: file_block_def min_def split: if_splits)

lemma prefix_take: "prefix a b \<Longrightarrow> take (length a) b = a"
  by (auto simp: prefix_def)

lemma ack_step_block:
  assumes "cl_phase c = Receiving" "fetched content c" "carries_block content junk d"
    and "file_packet junk d = (cl_packet_number c, sz, data)" "length content < 2 ^ 31"
  shows "\<exists>c'. ack_step True (Datagram junk d) c = Some c' \<and> fetched content c' \<and>
    (if length (file_block content (nat (cl_packet_number c))) < PACKET_DATA_SIZE
     then cl_phase c' = Complete
     else cl_phase c' = Receiving \<and> cl_packet_number c' = cl_packet_number c + 1)"
proof -
  obtain k where k: "cl_packet_number c = int k" "cl_file_start_byte c = int (PACKET_DATA_SIZE * k)"
    "PACKET_DATA_SIZE * k \<le> length content" "cl_file c = take (PACKET_DATA_SIZE * k) content"
    using assms(1,2) by (auto simp: fetched_def)
  let ?b = "file_block content k"
  have b: "sz = int (length ?b)" "take (length ?b) data = ?b"
    using assms(3,4) k(1) prefix_take by (auto simp: carries_block_def)
  have n: "i32 (int k + 1) = int k + 1" "i64 (int (PACKET_DATA_SIZE * k) + int PACKET_DATA_SIZE) =
      int (PACKET_DATA_SIZE * Suc k)"
    using k(3) assms(5) i64_id [of "int (PACKET_DATA_SIZE * k) + int PACKET_DATA_SIZE"]
    by (auto intro!: i32_id simp: is_i32_def INT_MAX_def INT_MIN_def PACKET_DATA_SIZE_def)
  show ?thesis
  proof (cases "length ?b < PACKET_DATA_SIZE")
    case True
    then show ?thesis
      using k b short_block [OF True] assms(4) by (auto simp: ack_step_def fetched_def)
  next
    case False
    then have full: "length ?b = PACKET_DATA_SIZE" using length_file_block [of content k] by simp
    define c' where "c' = c\<lparr>cl_file := take (PACKET_DATA_SIZE * Suc k) content,
      cl_packet_number := int (Suc k), cl_file_start_byte := int (PACKET_DATA_SIZE * Suc k)\<rparr>"
    have "ack_step True (Datagram junk d) c = Some c'"
      using k b full n assms(4) take_next_block [of k content]
      by (simp add: ack_step_def c'_def add.commute)
    moreover have "fetched content c'"
      using full_block [OF full] assms(1) by (auto simp: fetched_def c'_def distrib_left intro!: exI [of _ "Suc k"])
    ultimately show ?thesis using False k(1) assms(1) by (simp add: c'_def)
  qed
qed

text \<open>The condition is on the datagrams that arrive while the client waits for a block.\<close>

fun honest_run :: "string \<Rightarrow> (bool \<times> recv_event) list \<Rightarrow> client \<Rightarrow> bool" where
  "honest_run content [] c = True"
| "honest_run content ((send_ok, event) # events) c \<longleftrightarrow>
     (cl_phase c = Receiving \<longrightarrow> honest content (send_ok, event)) \<and>
     (case client_step send_ok event c of None \<Rightarrow> True | Some c' \<Rightarrow> honest_run content events c')"

lemma ack_step_other:
  assumes "\<And>junk d. send_ok \<Longrightarrow> event = Datagram junk d \<Longrightarrow> fst (file_packet junk d) \<noteq> cl_packet_number c"
  shows "ack_step send_ok event c \<in> {Some c, Some (c\<lparr>cl_phase := Failed\<rparr>)}"
  using assms by (auto simp: ack_step_def split: recv_event.splits prod.splits)

lemma fetched_step:
  assumes "fetched content c" "cl_phase c = Receiving \<longrightarrow> honest content (send_ok, event)"
    and "length content < 2 ^ 31"
  shows "\<exists>c'. client_step send_ok event c = Some c' \<and> fetched content c'"
proof (cases "cl_phase c")
  case Syncing
  then show ?thesis
    using assms(1) by (auto simp: client_step_def syn_step_def fetched_def split: recv_event.splits)
next
  case Receiving
  show ?thesis
  proof (cases "\<exists>junk d. send_ok \<and> event = Datagram junk d \<and> fst (file_packet junk d) = cl_packet_number c")
    case True
    then obtain junk d sz data where e: "send_ok" "event = Datagram junk d"
      "file_packet junk d = (cl_packet_number c, sz, data)" by (metis prod.collapse)
    then show ?thesis
      using ack_step_block [OF Receiving assms(1) _ e(3) assms(3)] assms(2) Receiving
      by (auto simp: client_step_def)
  next
    case False
    then have "ack_step send_ok event c \<in> {Some c, Some (c\<lparr>cl_phase := Failed\<rparr>)}"
      using ack_step_other by blast
    then show ?thesis using assms(1) Receiving by (auto simp: client_step_def fetched_def)
  qed
qed (use assms in \<open>simp_all add: client_step_def\<close>)

lemma download_file_fetched:
  assumes "honest_run content events c" "fetched content c" "length content < 2 ^ 31"
  shows "\<exists>c'. download_file events c = Some c' \<and> fetched content c'"
  using assms
proof (induction events c rule: download_file.induct)
  case (2 send_ok event events c)
  then obtain c2 where "client_step send_ok event c = Some c2" "fetched content c2"
    using fetched_step [of content c send_ok event] by auto
  with 2 show ?case by simp
qed simp

lemma fetched_start: "fetched content (download_start created)"
  by (auto simp: fetched_def download_start_def intro!: exI [of _ 0])

subsection \<open>Blocks of the \<open>peerserver\<close>\<close>

text \<open>
  A datagram whose bytes, read with the layout of the client, are the answer of the \<open>peerserver\<close>
  to one of the acknowledgements of the client, is honest.
\<close>

definition from_peerserver :: "string \<Rightarrow> string \<Rightarrow> bool" where
  "from_peerserver content d \<longleftrightarrow>
     (\<exists>k env out. PACKET_DATA_SIZE * k \<le> length content \<and> ack_ok env (ack_packet (int k) (int (PACKET_DATA_SIZE * k))) content \<and>
       routing_handler env (ack_packet (int k) (int (PACKET_DATA_SIZE * k))) = Some ([UdpPacket out], True) \<and>
       read_packet CLIENT_ID_SIZE d = Some out \<and> length d = packet_size CLIENT_ID_SIZE)"

lemma file_packet_read:
  assumes "read_packet CLIENT_ID_SIZE d = Some out" "length d = packet_size CLIENT_ID_SIZE"
  shows "file_packet junk d = (pk_packet_number out, pk_data_size out, pk_data out)"
proof -
  have mem: "recv_into (packet_size CLIENT_ID_SIZE) junk d = d @ drop (length d) junk"
    using assms(2) by (simp add: recv_into_def)
  show ?thesis
    using assms unfolding file_packet_def mem
    by (auto simp: read_packet_def Let_def bind_Some_iff int_at_def packet_size_def off_data_def)
qed

lemma served_carries_block:
  assumes "from_peerserver content d"
  shows "carries_block content junk d"
proof -
  obtain k env out where a: "PACKET_DATA_SIZE * k \<le> length content"
    "ack_ok env (ack_packet (int k) (int (PACKET_DATA_SIZE * k))) content"
    "routing_handler env (ack_packet (int k) (int (PACKET_DATA_SIZE * k))) = Some ([UdpPacket out], True)"
    "read_packet CLIENT_ID_SIZE d = Some out" "length d = packet_size CLIENT_ID_SIZE"
    using assms by (auto simp: from_peerserver_def)
  let ?p = "ack_packet (int k) (int (PACKET_DATA_SIZE * k))"
  have "length content < 2 ^ 31" using a(2) by (simp add: ack_ok_def)
  with a(1) have "i32 (int (PACKET_DATA_SIZE * k)) = int (PACKET_DATA_SIZE * k)"
    by (intro i32_id) (simp add: is_i32_def INT_MAX_def INT_MIN_def PACKET_DATA_SIZE_def)
  then have "take (asked_bytes (int (length content)) ?p) (drop (nat (pk_start_byte ?p)) content) =
      file_block content k"
    by (simp add: ack_packet_def asked_bytes_def file_block_def nat_mult_distrib)
  with transfer_file_served [OF a(2)] a(3) have s: "served (int (length content)) ?p (file_block content k) out"
    by (auto simp: routing_handler_def ack_packet_def split: if_splits)
  from s file_packet_read [OF a(4,5)] show ?thesis by (simp add: carries_block_def served_def ack_packet_def)
qed

subsection \<open>The first loop\<close>

lemma syn_timeouts:
  assumes "cl_phase c = Syncing" "cl_retries c = int r" "r + length oks < 2 ^ 31"
  shows "download_file (map (\<lambda>send_ok. (send_ok, Timeout)) oks) c = Some (c\<lparr>cl_retries := int (r + length oks)\<rparr>)"
  using assms
proof (induction oks arbitrary: c r)
  case (Cons send_ok oks)
  have "i32 (int r + 1) = int (Suc r)"
    using Cons.prems(3) by (subst i32_id) (auto simp: is_i32_def INT_MAX_def INT_MIN_def)
  then have "client_step send_ok Timeout c = Some (c\<lparr>cl_retries := int (Suc r)\<rparr>)"
    using Cons.prems by (simp add: client_step_def syn_step_def)
  with Cons.IH [of "c\<lparr>cl_retries := int (Suc r)\<rparr>" "Suc r"] Cons.prems show ?case by simp
qed simp

lemma syn_phase:
  assumes "length oks < 2 ^ 31"
  shows "download_file (map (\<lambda>send_ok. (send_ok, Timeout)) oks @ [(send_ok, Datagram junk d)]) (download_start True) =
    Some ((download_start True)\<lparr>cl_retries := int (length oks),
      cl_phase := (if 5 < length oks then Failed else Receiving)\<rparr>)"
  using syn_timeouts [of "download_start True" 0 oks] assms
  by (simp add: download_file_append download_start_def client_step_def syn_step_def)

subsection \<open>Rounds\<close>

text \<open>What arrives for block \<open>k\<close>: timeouts and packets with other numbers, then the block.\<close>

fun disturbance :: "nat \<Rightarrow> bool \<times> recv_event \<Rightarrow> bool" where
  "disturbance k (send_ok, Timeout) \<longleftrightarrow> send_ok"
| "disturbance k (send_ok, RecvError) \<longleftrightarrow> False"
| "disturbance k (send_ok, Datagram junk d) \<longleftrightarrow> send_ok \<and> fst (file_packet junk d) \<noteq> int k"

definition delivers :: "string \<Rightarrow> nat \<Rightarrow> (bool \<times> recv_event) list \<Rightarrow> bool" where
  "delivers content k es \<longleftrightarrow>
     (\<exists>noise junk d. es = noise @ [(True, Datagram junk d)] \<and> (\<forall>e\<in>set noise. disturbance k e) \<and>
       fst (file_packet junk d) = int k \<and> from_peerserver content d)"

lemma disturbances_ignored:
  assumes "\<forall>e\<in>set noise. disturbance k e" "cl_phase c = Receiving" "cl_packet_number c = int k"
  shows "download_file noise c = Some c"
  using assms
proof (induction noise)
  case (Cons e noise)
  obtain send_ok event where e: "e = (send_ok, event)" by fastforce
  with Cons.prems have "ack_step send_ok event c = Some c"
    by (cases event) (auto simp: ack_step_def split: prod.splits)
  with Cons e show ?case by (simp add: client_step_def)
qed simp

lemma round_delivered:
  assumes "delivers content k es" "fetched content c" "cl_phase c = Receiving" "cl_packet_number c = int k"
    and "length content < 2 ^ 31"
  shows "\<exists>c'. download_file es c = Some c' \<and> fetched content c' \<and>
    (if length (file_block content k) < PACKET_DATA_SIZE then cl_phase c' = Complete
     else cl_phase c' = Receiving \<and> cl_packet_number c' = int (Suc k))"
proof -
  obtain noise junk d where d: "es = noise @ [(True, Datagram junk d)]"
    "\<forall>e\<in>set noise. disturbance k e" "fst (file_packet junk d) = int k" "carries_block content junk d"
    using assms(1) served_carries_block by (fastforce simp: delivers_def)
  have "file_packet junk d = (cl_packet_number c, snd (file_packet junk d))"
    using d(3) assms(4) by (simp add: prod_eq_iff)
  then obtain sz data where "file_packet junk d = (cl_packet_number c, sz, data)" by (metis prod.collapse)
  from ack_step_block [OF assms(3,2) d(4) this assms(5)] assms(3,4) disturbances_ignored [OF d(2) assms(3,4)]
  show ?thesis by (auto simp: d(1) download_file_append client_step_def split: if_splits)
qed

lemma rounds_delivered:
  assumes "fetched content c" "cl_phase c = Receiving" "cl_packet_number c = int k"
    and "length rs = length content div PACKET_DATA_SIZE + 1 - k" "k \<le> length content div PACKET_DATA_SIZE"
    and "\<forall>i<length rs. delivers content (k + i) (rs ! i)" "length content < 2 ^ 31"
  shows "\<exists>c'. download_file (concat rs) c = Some c' \<and> fetched content c' \<and> cl_phase c' = Complete"
  using assms
proof (induction rs arbitrary: c k)
  case (Cons r rs)
  have "delivers content k r" using Cons.prems(6) by force
  from round_delivered [OF this Cons.prems(1-3,7)] obtain c2 where
    c2: "download_file r c = Some c2" "fetched content c2"
    "if length (file_block content k) < PACKET_DATA_SIZE then cl_phase c2 = Complete
     else cl_phase c2 = Receiving \<and> cl_packet_number c2 = int (Suc k)"
    by blast
  show ?case
  proof (cases "length (file_block content k) < PACKET_DATA_SIZE")
    case True
    then show ?thesis using c2 download_file_stopped [of c2] by (simp add: download_file_append)
  next
    case False
    then have "PACKET_DATA_SIZE * Suc k \<le> length content"
      using full_block length_file_block [of content k] by (metis le_neq_implies_less)
    then have "Suc k \<le> length content div PACKET_DATA_SIZE"
      by (simp add: less_eq_div_iff_mult_less_eq PACKET_DATA_SIZE_def mult.commute)
    moreover have "\<forall>i<length rs. delivers content (Suc k + i) (rs ! i)"
    proof (intro allI impI)
      fix i assume "i < length rs"
      then show "delivers content (Suc k + i) (rs ! i)" using Cons.prems(6) [rule_format, of "Suc i"] by simp
    qed
    moreover have "length rs = length content div PACKET_DATA_SIZE + 1 - Suc k" using Cons.prems(4) by simp
    ultimately have "\<exists>c'. download_file (concat rs) c2 = Some c' \<and> fetched content c' \<and> cl_phase c' = Complete"
      using Cons.IH [of c2 "Suc k"] c2(2,3) False Cons.prems(7) by simp
    then show ?thesis using c2(1) by (simp add: download_file_append)
  qed
qed simp

subsection \<open>Properties\<close>

text \<open>
  C26. Whatever the network loses, repeats and reorders, as long as the packets that arrive while
  the client waits carry the blocks of a file under their numbers: the client runs into no
  undefined behaviour, what it has written is a prefix of the file, and when it is complete it
  is the file.
\<close>

theorem stop_and_wait:
  assumes "honest_run content events (download_start created)" "length content < 2 ^ 31"
  shows "\<exists>c. download_file events (download_start created) = Some c \<and> prefix (cl_file c) content \<and>
    (cl_phase c = Complete \<longrightarrow> cl_file c = content)"
proof -
  obtain c where "download_file events (download_start created) = Some c" "fetched content c"
    using download_file_fetched [OF assms(1) fetched_start assms(2)] by blast
  then show ?thesis by (cases "cl_phase c") (auto simp: fetched_def take_is_prefix)
qed

lemma data_size_pos: "0 < PACKET_DATA_SIZE"
  by (simp add: PACKET_DATA_SIZE_def)

text \<open>A served block of a file of one byte, as bytes.\<close>

definition sample_stack :: string where
  "sample_stack = replicate (packet_size CLIENT_ID_SIZE) NUL"

definition sample_client_env :: peer_env where
  "sample_client_env = \<lparr>pv_stat = (\<lambda>path. if path = ''content/sample4.ogg'' then Some 1 else None),
     pv_files = (\<lambda>path. if path = ''content/sample4.ogg'' then Some ''x'' else None),
     pv_junk = empty_packet [], pv_sent = True\<rparr>"

definition sample_out :: packet where
  "sample_out = (ack_packet 0 0)\<lparr>pk_end_byte := 0, pk_content_length := 1, pk_data_size := 1,
     pk_data := CHR ''x'' # replicate (PACKET_DATA_SIZE - 1) NUL\<rparr>"

definition sample_synack :: packet where
  "sample_synack = syn_packet\<lparr>pk_packet_type := ''synack'',
     pk_data := CHR ''1'' # NUL # replicate (PACKET_DATA_SIZE - 2) NUL\<rparr>"

definition sample_bytes :: "packet \<Rightarrow> string" where
  "sample_bytes p = init_packet CLIENT_ID_SIZE ''padpad'' p"

lemma sample_packets_fit:
  "packet_fits CLIENT_ID_SIZE sample_out" "packet_fits CLIENT_ID_SIZE sample_synack"
  "packet_fits PEER_ID_SIZE (ack_packet 0 0)"
  by (simp_all add: packet_fits_def field_ok_def sample_out_def sample_synack_def syn_packet_def
      ack_packet_def REQ_FILE_PATH_def CLIENT_ID_SIZE_def PEER_ID_SIZE_def is_i32_def INT_MAX_def
      INT_MIN_def PACKET_DATA_SIZE_def i32_def data_init_def)

lemma sample_bytes_read:
  "packet_fits CLIENT_ID_SIZE p \<Longrightarrow> read_packet CLIENT_ID_SIZE (sample_bytes p) = Some p"
  "packet_fits CLIENT_ID_SIZE p \<Longrightarrow> length (sample_bytes p) = packet_size CLIENT_ID_SIZE"
  using read_init_packet [of CLIENT_ID_SIZE p "''padpad''" "[]"] length_init_packet [of CLIENT_ID_SIZE p "''padpad''"]
  by (simp_all add: sample_bytes_def)

lemma sample_block_served: "from_peerserver ''x'' (sample_bytes sample_out)"
proof -
  have "ack_ok sample_client_env (ack_packet 0 0) ''x''"
    using sample_packets_fit(3) by (simp add: ack_ok_def sample_client_env_def ack_packet_def
        REQ_FILE_PATH_def i32_def empty_packet_def)
  moreover have "routing_handler sample_client_env (ack_packet 0 0) = Some ([UdpPacket sample_out], True)"
    using fread_block_some [of "replicate PACKET_DATA_SIZE NUL" PACKET_DATA_SIZE "''x''"] data_size_pos
    by (simp add: routing_handler_def transfer_file_def ack_packet_def sample_client_env_def sample_out_def
        REQ_FILE_PATH_def duplicate_packet_def empty_packet_def set_content_length_def fix_end_byte_def
        need_to_read_bytes_def i32_def data_init_def zero_fill_def)
  ultimately show ?thesis
    using sample_bytes_read [OF sample_packets_fit(1)]
    by (auto simp: from_peerserver_def intro!: exI [of _ 0])
qed

lemma stop_and_wait_witness:
  "\<exists>c. download_file [(True, Datagram sample_stack (sample_bytes sample_out)), (True, Timeout),
      (True, Datagram sample_stack (sample_bytes sample_out))] (download_start True) = Some c \<and>
    prefix (cl_file c) ''x'' \<and> (cl_phase c = Complete \<longrightarrow> cl_file c = ''x'')"
proof -
  have "honest_run ''x'' [(True, Datagram sample_stack (sample_bytes sample_out)), (True, Timeout),
      (True, Datagram sample_stack (sample_bytes sample_out))] (download_start True)"
    using served_carries_block [OF sample_block_served, of sample_stack]
    by (simp add: client_step_def syn_step_def download_start_def ack_step_def split: option.split)
  then show ?thesis by (rule stop_and_wait) simp
qed

text \<open>
  C27. The client downloads the file completely from a \<open>peerserver\<close> that understands its packets:
  when the answer to \<open>syn\<close> comes within five timeouts and then, after any number of timeouts and
  packets with other numbers, each block arrives that the server sends for the acknowledgement,
  up to the last, short one.
\<close>

theorem download_completes:
  assumes "length oks \<le> 5" "length rounds = length content div PACKET_DATA_SIZE + 1"
    and "\<forall>k<length rounds. delivers content k (rounds ! k)" "length content < 2 ^ 31"
  shows "\<exists>c. download_file (map (\<lambda>send_ok. (send_ok, Timeout)) oks @ [(send_ok, Datagram junk synack)] @
      concat rounds) (download_start True) = Some c \<and> cl_phase c = Complete \<and> cl_file c = content"
proof -
  let ?c = "(download_start True)\<lparr>cl_retries := int (length oks), cl_phase := Receiving\<rparr>"
  have "fetched content ?c" by (auto simp: fetched_def download_start_def intro!: exI [of _ 0])
  then obtain c where "download_file (concat rounds) ?c = Some c" "fetched content c" "cl_phase c = Complete"
    using rounds_delivered [of content ?c 0 rounds] assms by (auto simp: download_start_def)
  moreover have "download_file (map (\<lambda>send_ok. (send_ok, Timeout)) oks @ [(send_ok, Datagram junk synack)])
      (download_start True) = Some ?c"
    using syn_phase [of oks send_ok junk synack] assms(1) by simp
  ultimately show ?thesis
    unfolding append_assoc [symmetric] by (subst download_file_append) (auto simp: fetched_def)
qed

lemma download_completes_witness:
  "\<exists>c. download_file (map (\<lambda>send_ok. (send_ok, Timeout)) [True, False] @
      [(True, Datagram sample_stack (sample_bytes sample_out))] @
      concat [[(True, Timeout), (True, Datagram sample_stack (sample_bytes sample_out))]]) (download_start True) = Some c \<and>
    cl_phase c = Complete \<and> cl_file c = ''x''"
proof (rule download_completes)
  have "fst (file_packet sample_stack (sample_bytes sample_out)) = 0"
    using file_packet_read [OF sample_bytes_read [OF sample_packets_fit(1)]]
    by (simp add: sample_out_def ack_packet_def)
  then have "delivers ''x'' 0 [(True, Timeout), (True, Datagram sample_stack (sample_bytes sample_out))]"
    using sample_block_served
    by (auto simp: delivers_def intro!: exI [of _ "[(True, Timeout)]"])
  then show "\<forall>k<length [[(True, Timeout), (True, Datagram sample_stack (sample_bytes sample_out))]].
      delivers ''x'' k ([[(True, Timeout), (True, Datagram sample_stack (sample_bytes sample_out))]] ! k)" by simp
qed (simp_all add: PACKET_DATA_SIZE_def)

text \<open>
  C28. A repeated answer to \<open>syn\<close> destroys a download: it carries number 0 and data size 0, so the
  client takes it for the first and last block and ends with an empty file, whatever the file
  contains.
\<close>

theorem repeated_synack_ends_download:
  assumes "routing_handler env syn_packet = Some ([UdpPacket out], True)"
    and "read_packet CLIENT_ID_SIZE d = Some out" "length d = packet_size CLIENT_ID_SIZE"
  shows "\<exists>c. download_file [(True, Datagram junk d), (True, Datagram junk' d)] (download_start True) = Some c \<and>
    cl_phase c = Complete \<and> cl_file c = []"
proof -
  have "pk_packet_number out = 0" "pk_data_size out = 0"
    using synack_like_block [OF _ assms(1)] by (simp_all add: syn_packet_def)
  then have "file_packet junk' d = (0, 0, pk_data out)"
    using file_packet_read [OF assms(2,3)] by simp
  then show ?thesis
    by (simp add: client_step_def syn_step_def ack_step_def download_start_def PACKET_DATA_SIZE_def)
qed

lemma show_one: "digit_char 1 = CHR ''1''"
proof -
  have "uchar (digit_char 1) = uchar (CHR ''1'')" by (simp add: uchar_digit_char) (simp add: uchar_def)
  then show ?thesis by (simp only: uchar_inject)
qed

lemma repeated_synack_ends_download_witness:
  "\<exists>c. download_file [(True, Datagram sample_stack (sample_bytes sample_synack)),
      (True, Datagram sample_stack (sample_bytes sample_synack))] (download_start True) = Some c \<and>
    cl_phase c = Complete \<and> cl_file c = []"
proof (rule repeated_synack_ends_download)
  show "routing_handler (sample_client_env\<lparr>pv_stat := \<lambda>path. Some 1\<rparr>) syn_packet = Some ([UdpPacket sample_synack], True)"
    using show_nat.simps [of 1] show_one
    by (simp add: PACKET_DATA_SIZE_def routing_handler_def sample_client_env_def sample_synack_def syn_packet_def syn_reply_def
        REQ_FILE_PATH_def duplicate_packet_def empty_packet_def i32_def data_init_def zero_fill_def str_at_def
        c_str_def show_int_def)
qed (simp_all add: sample_bytes_read sample_packets_fit)

lemma str_at_NUL: "off < length mem \<Longrightarrow> mem ! off = NUL \<Longrightarrow> str_at off mem = Some []"
  by (simp add: str_at_def c_str_def Cons_nth_drop_Suc [symmetric])

lemma zero_fill_nth: "length s \<le> i \<Longrightarrow> i < n \<Longrightarrow> zero_fill n s ! i = NUL"
  by (simp add: zero_fill_def nth_append)

lemma client_packet_fields:
  assumes "client_packet c = Some p"
  shows "pk_connection_id p = ''tempID''" "pk_file_path p = REQ_FILE_PATH"
    "pk_packet_type p \<in> {''syn'', ''ack''}" "\<exists>s. pk_data p = data_init s \<and> length s \<le> 11"
  using assms
  by (auto simp: client_packet_def syn_packet_def ack_packet_def REQ_FILE_PATH_def split: phase.splits)

text \<open>Where the \<open>peerserver\<close> looks for the type, the path and the range flag the client has zeros.\<close>

lemma client_bytes:
  assumes "client_packet c = Some p" "length pad = 6"
  defines "d \<equiv> init_packet CLIENT_ID_SIZE pad p"
  shows "length d = packet_size CLIENT_ID_SIZE" "d ! 256 = NUL" "d ! 276 = NUL" "d ! 548 = NUL"
    "\<exists>r. d = ''tempID'' @ NUL # r"
proof -
  obtain s where s: "pk_data p = data_init s" "length s \<le> 11" using client_packet_fields(4) [OF assms(1)] by blast
  have ty: "length (pk_packet_type p) = 3" using client_packet_fields(3) [OF assms(1)] by auto
  note f = client_packet_fields(1,2) [OF assms(1)] REQ_FILE_PATH_def CLIENT_ID_SIZE_def
  define h where "h = zero_fill CLIENT_ID_SIZE ''tempID'' @ zero_fill TYPE_SIZE (pk_packet_type p) @
     take 1 pad @ int_bytes (pk_ack_number p)"
  define m where "m = int_bytes (pk_start_byte p) @ int_bytes (pk_end_byte p) @
     int_bytes (pk_packet_number p) @ int_bytes (pk_data_size p) @
     (if pk_orig_has_range p then CHR 0x01 else NUL) # take 3 (drop 3 pad) @ int_bytes (pk_content_length p)"
  have h: "length h = 48" using ty assms(2) by (simp add: h_def CLIENT_ID_SIZE_def)
  have m: "length m = 24" using assms(2) by (simp add: m_def)
  have d: "d = h @ zero_fill 256 REQ_FILE_PATH @ m @ zero_fill 1024 s"
    by (simp add: d_def init_packet_def h_def m_def f packet_layout s data_init_def)
  have l: "length (zero_fill 256 REQ_FILE_PATH) = 256" "length (zero_fill 1024 s) = 1024"
    using s(2) by (simp_all add: REQ_FILE_PATH_def)
  show "length d = packet_size CLIENT_ID_SIZE"
    by (simp add: d h m l packet_layout CLIENT_ID_SIZE_def)
  have z: "zero_fill 256 REQ_FILE_PATH ! i = NUL" if "11 \<le> i" "i < 256" for i
    using that by (intro zero_fill_nth) (simp_all add: REQ_FILE_PATH_def)
  show "d ! 256 = NUL" "d ! 276 = NUL" using h l z [of 208] z [of 228] by (simp_all add: d nth_append)
  show "d ! 548 = NUL" using h l m s(2) zero_fill_nth [of s 220 1024] by (simp add: d nth_append)
  show "\<exists>r. d = ''tempID'' @ NUL # r"
    by (simp add: d h_def CLIENT_ID_SIZE_def zero_fill_append)
qed

text \<open>
  C29. The two programs of the repository never understand each other: they declare the structure
  with connection ids of 27 and of 256 bytes, so the \<open>peerserver\<close> reads the type of a packet of the
  client out of the zeros behind the file path, and leaves every packet that the client sends
  unanswered.
\<close>

theorem client_not_understood:
  assumes "client_packet c = Some p" "length pad = 6" "length junk = packet_size PEER_ID_SIZE"
  shows "connection_handler [(Datagram junk (init_packet CLIENT_ID_SIZE pad p), env)] = Some ([], True)"
proof -
  let ?d = "init_packet CLIENT_ID_SIZE pad p"
  note d = client_bytes [OF assms(1,2)]
  have len: "length ?d = 1352" "length junk = 1580"
    using d(1) assms(3) by (simp_all add: packet_layout CLIENT_ID_SIZE_def PEER_ID_SIZE_def)
  define mem where "mem = ?d @ drop 1352 junk"
  have mem: "recv_into (packet_size PEER_ID_SIZE) junk ?d = mem" "length mem = 1580"
    "mem ! 256 = NUL" "mem ! 276 = NUL" "mem ! 548 = NUL"
    using len d(2-4) by (simp_all add: recv_into_def mem_def packet_layout PEER_ID_SIZE_def nth_append)
  obtain r where "mem = ''tempID'' @ NUL # r" using d(5) by (auto simp: mem_def)
  then have "str_at 0 mem = Some ''tempID''" by (simp add: str_at_def c_str_def)
  then obtain q where "read_packet PEER_ID_SIZE mem = Some q" "pk_packet_type q = []"
    using str_at_NUL [of 256 mem] str_at_NUL [of 276 mem] mem
    by (simp add: read_packet_def packet_layout PEER_ID_SIZE_def bool_at_def)
  then show ?thesis by (simp add: mem(1) routing_handler_def)
qed

lemma client_not_understood_witness:
  "connection_handler [(Datagram (replicate (packet_size PEER_ID_SIZE) CHR ''x'')
     (init_packet CLIENT_ID_SIZE ''padpad'' syn_packet), sample_peer_env)] = Some ([], True)"
  by (rule client_not_understood [of "download_start True"])
    (simp_all add: client_packet_def download_start_def)

end
