(* ===== verification/Uuid4.thy ===== *)
theory Uuid4
  imports Prelude
begin

text \<open>
  \<open>lib/uuid4/uuid4.c\<close>, the generator of node identifiers, on machine words: the random number
  generator, the version and variant bits, and the text form.
\<close>

subsection \<open>Random numbers\<close>

definition splitmix64 :: "64 word \<Rightarrow> 64 word \<times> 64 word" where
  "splitmix64 state =
     (let state = state + 0x9E3779B97F4A7C15;
          z = state;
          z = (z XOR drop_bit 30 z) * 0xBF58476D1CE4E5B9;
          z = (z XOR drop_bit 27 z) * 0x94D049BB133111EB
      in (z XOR drop_bit 31 z, state))"

text \<open>\<open>uuid4_hash\<close>, with its static variable passed through.\<close>

definition uuid4_hash :: "32 word \<Rightarrow> 32 word \<Rightarrow> 32 word \<times> 32 word" where
  "uuid4_hash multiplier v =
     (let v = v XOR multiplier;
          multiplier = multiplier * 0x931e8875;
          v = v * multiplier
      in (v XOR drop_bit 16 v, multiplier))"

definition uuid4_mix :: "32 word \<Rightarrow> 32 word \<Rightarrow> 32 word" where
  "uuid4_mix x y =
     (let result = 0xca01f9dd * x - 0x4973f715 * y in result XOR drop_bit 16 result)"

text \<open>
  What \<open>uuid4_seed\<close> reads: its static counter and the static multiplier, the address of its
  variable, the clock, the process and thread, and the addresses of two functions. The order in
  which the two arguments of \<open>mix\<close> are hashed is not fixed by C; gcc takes the last first.
\<close>

record seed_env =
  se_state0 :: "64 word"
  se_multiplier :: "32 word"
  se_time_address :: "64 word"
  se_nanoseconds :: "64 word"
  se_pid :: "32 word"
  se_tid :: "32 word"
  se_getpid :: "64 word"
  se_uuid4_gen :: "64 word"

definition uuid4_seed :: "seed_env \<Rightarrow> 64 word" where
  "uuid4_seed env =
     (let state = se_state0 env + (se_time_address env XOR se_nanoseconds env);
          (h_tid, multiplier) = uuid4_hash (se_multiplier env) (se_tid env);
          (h_pid, _) = uuid4_hash multiplier (se_pid env);
          state = state * 6364136223846793005 + push_bit 32 (ucast (uuid4_mix h_pid h_tid));
          state = state * 6364136223846793005 + se_getpid env
      in state * 6364136223846793005 + se_uuid4_gen env)"

text \<open>The bytes of a \<open>qword\<close> of the union, in the order of a little-endian machine.\<close>

definition qword_bytes :: "64 word \<Rightarrow> 8 word list" where
  "qword_bytes q = map (\<lambda>i. ucast (drop_bit (8 * i) q)) [0..<8]"

definition uuid4_randomize :: "64 word \<Rightarrow> (64 word \<times> 64 word) \<times> 64 word" where
  "uuid4_randomize state =
     (let (q0, state) = splitmix64 state; (q1, state) = splitmix64 state in ((q0, q1), state))"

text \<open>\<open>uuid4_gen\<close>: the sixteen bytes and the next state.\<close>

definition uuid4_gen :: "64 word \<Rightarrow> 8 word list \<times> 64 word" where
  "uuid4_gen state =
     (let ((q0, q1), state) = uuid4_randomize state;
          bytes = qword_bytes q0 @ qword_bytes q1;
          bytes = bytes[6 := (bytes ! 6 AND 0xf) OR 0x40];
          bytes = bytes[8 := (bytes ! 8 AND 0x3f) OR 0x80]
      in (bytes, state))"

subsection \<open>The text form\<close>

definition hex :: string where
  "hex = ''0123456789abcdef''"

definition UUID4_STR_BUFFER_SIZE :: int where
  "UUID4_STR_BUFFER_SIZE = 37"

definition byte_hex :: "8 word \<Rightarrow> string" where
  "byte_hex b = [hex ! unat (drop_bit 4 b), hex ! unat (b AND 0xf)]"

text \<open>The two loops: the digits of each group, and a hyphen behind each of them.\<close>

fun uuid4_groups :: "nat list \<Rightarrow> 8 word list \<Rightarrow> string" where
  "uuid4_groups [] bytes = []"
| "uuid4_groups (g # groups) bytes =
     concat (map byte_hex (take (g div 2) bytes)) @ ''-'' @ uuid4_groups groups (drop (g div 2) bytes)"

text \<open>\<open>None\<close> when the capacity is too small; else what is written, the last hyphen replaced by NUL.\<close>

definition uuid4_to_s :: "8 word list \<Rightarrow> int \<Rightarrow> string option" where
  "uuid4_to_s uuid capacity =
     (if capacity < UUID4_STR_BUFFER_SIZE then None
      else Some (butlast (uuid4_groups [8, 4, 4, 4, 12] uuid) @ [NUL]))"

subsection \<open>The generator does not repeat\<close>

lemma shift_fixpoint:
  fixes d :: "'a::len word"
  assumes "d = drop_bit k d" "0 < k"
  shows "d = 0"
proof -
  have "drop_bit (n * k) d = d" for n
    using assms(1) by (induction n) (simp_all add: drop_bit_drop_bit [symmetric] add.commute)
  from this [of "LENGTH('a)"] have "d = drop_bit (LENGTH('a) * k) d" by simp
  also have "\<dots> = 0"
    using assms(2) by (intro bit_word_eqI) (auto simp: bit_drop_bit_eq dest!: bit_imp_le_length)
  finally show ?thesis .
qed

lemma xorshift_inject:
  fixes x y :: "'a::len word"
  assumes "x XOR drop_bit k x = y XOR drop_bit k y" "0 < k"
  shows "x = y"
proof -
  have "(x XOR y) XOR drop_bit k (x XOR y) = (x XOR drop_bit k x) XOR (y XOR drop_bit k y)"
    by (simp add: drop_bit_xor xor.assoc xor.left_commute)
  also have "\<dots> = 0" using assms(1) by simp
  finally have "x XOR y = drop_bit k (x XOR y)"
    by (metis xor.assoc xor.right_neutral xor_self_eq)
  from shift_fixpoint [OF this assms(2)] show ?thesis
    by (metis xor.assoc xor.left_neutral xor.right_neutral xor_self_eq)
qed

lemma times_inverse_inject: "x * c = y * c \<Longrightarrow> c * c' = 1 \<Longrightarrow> x = (y :: 'a::len word)"
  by (metis mult.assoc mult.right_neutral)

definition mixed :: "64 word \<Rightarrow> 64 word" where
  "mixed z =
     (let z = (z XOR drop_bit 30 z) * 0xBF58476D1CE4E5B9;
          z = (z XOR drop_bit 27 z) * 0x94D049BB133111EB
      in z XOR drop_bit 31 z)"

lemma splitmix64_mixed: "splitmix64 s = (mixed (s + 0x9E3779B97F4A7C15), s + 0x9E3779B97F4A7C15)"
  by (simp add: splitmix64_def mixed_def Let_def)

lemma mixed_inject: "mixed x = mixed y \<Longrightarrow> x = y"
  unfolding mixed_def Let_def
  by (drule xorshift_inject, simp, drule times_inverse_inject [of _ _ _ 3573116690164977347], simp,
      drule xorshift_inject, simp, drule times_inverse_inject [of _ _ _ 10871156337175269513], simp,
      drule xorshift_inject, simp, assumption)

text \<open>The state after \<open>n\<close> numbers.\<close>

definition state_after :: "64 word \<Rightarrow> nat \<Rightarrow> 64 word" where
  "state_after s n = ((\<lambda>s. snd (splitmix64 s)) ^^ n) s"

lemma state_after: "state_after s n = s + of_nat n * 0x9E3779B97F4A7C15"
  by (induction n) (simp_all add: state_after_def splitmix64_mixed distrib_right)

lemma state_after_inject:
  assumes "state_after s m = state_after s n" "m < 2 ^ 64" "n < 2 ^ 64"
  shows "m = n"
proof -
  have "(of_nat m :: 64 word) * 0x9E3779B97F4A7C15 = of_nat n * 0x9E3779B97F4A7C15"
    using assms(1) by (simp add: state_after)
  then have "(of_nat m :: 64 word) = of_nat n"
    by (rule times_inverse_inject [of _ _ _ 17428512612931826493]) simp
  then have "unat (of_nat m :: 64 word) = unat (of_nat n :: 64 word)" by simp
  then show ?thesis using assms(2,3) by (simp add: unat_of_nat)
qed

text \<open>
  C33. The generator of the identifiers repeats no number before all the 64-bit numbers have been
  drawn: of the first \<open>2 ^ 64\<close> calls no two give the same number, whatever the seed.
\<close>

theorem splitmix64_distinct:
  "inj_on (\<lambda>n. fst (splitmix64 (state_after s n))) {..<2 ^ 64}"
proof (rule inj_onI)
  fix m n
  assume "m \<in> {..<2 ^ 64}" "n \<in> {..<2 ^ 64}"
    "fst (splitmix64 (state_after s m)) = fst (splitmix64 (state_after s n))"
  then show "m = n"
    using state_after_inject [of s m n] by (auto simp: splitmix64_mixed dest!: mixed_inject)
qed

subsection \<open>The format\<close>

lemma length_qword_bytes [simp]: "length (qword_bytes q) = 8"
  by (simp add: qword_bytes_def)

lemma list_16:
  assumes "length bs = 16"
  obtains b0 b1 b2 b3 b4 b5 b6 b7 b8 b9 b10 b11 b12 b13 b14 b15
  where "bs = [b0, b1, b2, b3, b4, b5, b6, b7, b8, b9, b10, b11, b12, b13, b14, b15]"
  using assms by (auto simp: length_Suc_conv numeral_eq_Suc)

lemma uuid4_to_s_bytes:
  "uuid4_to_s [b0, b1, b2, b3, b4, b5, b6, b7, b8, b9, b10, b11, b12, b13, b14, b15] 37 = Some (
    byte_hex b0 @ byte_hex b1 @ byte_hex b2 @ byte_hex b3 @ ''-'' @ byte_hex b4 @ byte_hex b5 @ ''-'' @
    byte_hex b6 @ byte_hex b7 @ ''-'' @ byte_hex b8 @ byte_hex b9 @ ''-'' @ byte_hex b10 @ byte_hex b11 @
    byte_hex b12 @ byte_hex b13 @ byte_hex b14 @ byte_hex b15 @ [NUL])"
  by (simp add: uuid4_to_s_def UUID4_STR_BUFFER_SIZE_def byte_hex_def)

lemma nibbles: "unat (drop_bit 4 (b :: 8 word)) < 16" "unat (b AND 0xf) < 16"
proof -
  have "unat b < 256" using unsigned_less [of b, where ?'a = nat] by simp
  then show "unat (drop_bit 4 b) < 16" by (simp only: unat_drop_bit_eq) (simp add: drop_bit_eq_div)
  have "b AND 0xf = take_bit 4 b" by (simp add: take_bit_eq_mask mask_eq_exp_minus_1)
  then show "unat (b AND 0xf) < 16" using take_bit_nat_less_exp [of 4 "unat b"]
    by (simp add: unsigned_take_bit_eq)
qed

lemma hex_set: "n < 16 \<Longrightarrow> hex ! n \<in> set ''0123456789abcdef''"
  using nth_mem [of n hex] by (simp add: hex_def del: nth_mem)

lemma version_byte: "drop_bit 4 ((b AND 0xf) OR 0x40) = (4 :: 8 word)"
  by (simp add: drop_bit_or drop_bit_and)

lemma variant_byte: "drop_bit 4 ((b AND 0x3f) OR 0x80) \<in> {8, 9, 10, 11 :: 8 word}"
proof -
  have "drop_bit 4 ((b AND 0x3f) OR 0x80) = (take_bit 2 (drop_bit 4 b)) OR 8"
    by (simp add: drop_bit_or drop_bit_and take_bit_eq_mask mask_eq_exp_minus_1)
  moreover have "take_bit 2 (drop_bit 4 b) \<in> {0, 1, 2, 3}" (is "?x \<in> _")
  proof -
    have "unat ?x < 4" using take_bit_nat_less_exp [of 2 "unat (drop_bit 4 b)"] by (simp add: unsigned_take_bit_eq)
    then have "unat ?x \<in> {0, 1, 2, 3}" by auto
    then show ?thesis by (simp add: word_unat_eq_iff)
  qed
  ultimately show ?thesis by auto
qed

text \<open>The form that \<open>uuid4.h\<close> gives: \<open>x\<close> is any digit, \<open>y\<close> one of four.\<close>

fun in_form :: "char \<Rightarrow> char \<Rightarrow> bool" where
  "in_form p c =
     (if p = CHR ''x'' then c \<in> set ''0123456789abcdef''
      else if p = CHR ''y'' then c \<in> set ''89ab'' else c = p)"

definition is_uuid4 :: "string \<Rightarrow> bool" where
  "is_uuid4 s \<longleftrightarrow> list_all2 in_form ''xxxxxxxx-xxxx-4xxx-yxxx-xxxxxxxxxxxx'' s"

lemma uuid4_gen_bytes:
  obtains b0 b1 b2 b3 b4 b5 b6 b7 b8 b9 b10 b11 b12 b13 b14 b15 where
    "fst (uuid4_gen s) = [b0, b1, b2, b3, b4, b5, (b6 AND 0xf) OR 0x40, b7, (b8 AND 0x3f) OR 0x80, b9, b10,
      b11, b12, b13, b14, b15]"
proof -
  obtain q0 q1 s' where q: "uuid4_randomize s = ((q0, q1), s')" by (metis prod.collapse)
  have "length (qword_bytes q0 @ qword_bytes q1) = 16" by simp
  then obtain b0 b1 b2 b3 b4 b5 b6 b7 b8 b9 b10 b11 b12 b13 b14 b15 where
    "qword_bytes q0 @ qword_bytes q1 = [b0, b1, b2, b3, b4, b5, b6, b7, b8, b9, b10, b11, b12, b13, b14, b15]"
    by (rule list_16)
  then show ?thesis by (intro that) (simp add: uuid4_gen_def q)
qed

lemma byte_form: "list_all2 in_form ''xx'' (byte_hex b)"
  using hex_set [OF nibbles(1)] hex_set [OF nibbles(2)] by (simp add: byte_hex_def)

lemma version_form: "list_all2 in_form ''4x'' (byte_hex ((b AND 0xf) OR 0x40))"
  using hex_set [OF nibbles(2)] version_byte [of b] by (simp add: byte_hex_def) (simp add: hex_def)

lemma variant_form: "list_all2 in_form ''yx'' (byte_hex ((b AND 0x3f) OR 0x80))"
proof -
  have "hex ! unat (drop_bit 4 ((b AND 0x3f) OR 0x80)) \<in> set ''89ab''"
    using variant_byte [of b] by (elim insertE emptyE) (simp_all only:, simp_all add: hex_def)
  then show ?thesis using hex_set [OF nibbles(2)] by (simp add: byte_hex_def)
qed

lemma hyphen_form: "list_all2 in_form ''-'' ''-''"
  by simp

text \<open>
  C32. The identifier that is printed is a version 4 UUID: 36 characters with hyphens at the
  places 8, 13, 18 and 23, lower-case hexadecimal digits elsewhere, the version digit 4 and a
  variant digit 8, 9, a or b; with its terminator it fills the 37 bytes that are required, and a
  smaller buffer is refused.
\<close>

theorem uuid4_to_s_format:
  "\<exists>t. (\<forall>capacity. uuid4_to_s (fst (uuid4_gen s)) capacity =
      (if capacity < UUID4_STR_BUFFER_SIZE then None else Some (t @ [NUL]))) \<and> is_uuid4 t"
proof -
  obtain b0 b1 b2 b3 b4 b5 b6 b7 b8 b9 b10 b11 b12 b13 b14 b15 where
    b: "fst (uuid4_gen s) = [b0, b1, b2, b3, b4, b5, (b6 AND 0xf) OR 0x40, b7, (b8 AND 0x3f) OR 0x80, b9, b10,
      b11, b12, b13, b14, b15]" by (rule uuid4_gen_bytes)
  let ?v = "(b6 AND 0xf) OR 0x40" and ?r = "(b8 AND 0x3f) OR 0x80"
  define t where "t = byte_hex b0 @ byte_hex b1 @ byte_hex b2 @ byte_hex b3 @ ''-'' @ byte_hex b4 @ byte_hex b5 @ ''-'' @
    byte_hex ?v @ byte_hex b7 @ ''-'' @ byte_hex ?r @ byte_hex b9 @ ''-'' @ byte_hex b10 @ byte_hex b11 @
    byte_hex b12 @ byte_hex b13 @ byte_hex b14 @ byte_hex b15"
  have s: "uuid4_to_s (fst (uuid4_gen s)) capacity =
      (if capacity < UUID4_STR_BUFFER_SIZE then None else Some (t @ [NUL]))" for capacity
    using uuid4_to_s_bytes [of b0 b1 b2 b3 b4 b5 ?v b7 ?r b9 b10 b11 b12 b13 b14 b15] unfolding b t_def
    by (simp add: uuid4_to_s_def UUID4_STR_BUFFER_SIZE_def)
  have form: "''xxxxxxxx-xxxx-4xxx-yxxx-xxxxxxxxxxxx'' = ''xx'' @ ''xx'' @ ''xx'' @ ''xx'' @ ''-'' @ ''xx'' @ ''xx'' @
      ''-'' @ ''4x'' @ ''xx'' @ ''-'' @ ''yx'' @ ''xx'' @ ''-'' @ ''xx'' @ ''xx'' @ ''xx'' @ ''xx'' @ ''xx'' @ ''xx''"
    by simp
  have "is_uuid4 t"
    unfolding is_uuid4_def form t_def
    by (intro list_all2_appendI byte_form version_form variant_form hyphen_form)
  with s show ?thesis by blast
qed

end
