(* ===== verification/JsonFiles.thy ===== *)
theory JsonFiles
  imports ConfJson
begin

text \<open>
  \<open>src/hw4/src/json_utils.c\<close>: a JSON text in a file. A file is its bytes, \<open>None\<close> when \<open>fopen\<close>
  fails; \<open>fseek\<close>, \<open>ftell\<close> and \<open>fread\<close> of a regular file give all of them.
\<close>

text \<open>The result is \<open>NULL\<close> (\<open>None\<close>) when the file is not there and when its text is not JSON.\<close>

definition read_json_file :: "string option \<Rightarrow> cJSON option" where
  "read_json_file file =
     (case file of
        None \<Rightarrow> None
      | Some bytes \<Rightarrow> let data = bytes @ [NUL] in cJSON_Parse (c_str data))"

text \<open>
  The file after the call, from the file before it; \<open>fopen\<close> with mode \<open>w\<close> empties it. The
  result of \<open>cJSON_Print\<close> goes to \<open>fputs\<close> unchecked.
\<close>

definition write_json_file :: "bool \<Rightarrow> cJSON \<Rightarrow> string option \<Rightarrow> string option option" where
  "write_json_file opens v file =
     (if \<not> opens then Some file
      else do {
        str \<leftarrow> cJSON_Print v;
        Some (Some str) })"

lemma c_str_terminated: "c_str (s @ [NUL]) = c_str s"
  by (induction s) (simp_all add: c_str_def)

lemma read_json_file_missing [simp]: "read_json_file None = None"
  by (simp add: read_json_file_def)

lemma read_json_file_text: "cstring s \<Longrightarrow> read_json_file (Some s) = cJSON_Parse s"
  by (simp add: read_json_file_def c_str_terminated c_str_id)

lemma write_json_file_closed [simp]: "write_json_file False v file = Some file"
  by (simp add: write_json_file_def)

text \<open>A tree of integers, strings and booleans that is written is the one that is read.\<close>

lemma json_file_roundtrip:
  assumes "json_ok v" "json_depth v \<le> CJSON_NESTING_LIMIT"
    and "write_json_file True v file = Some file'"
  shows "read_json_file file' = Some v"
proof -
  from assms(3) obtain s where s: "cJSON_Print v = Some s" "file' = Some s"
    by (auto simp: write_json_file_def bind_Some_iff)
  from s(1) have p: "print_value True 0 v = Some s" by (simp add: cJSON_Print_def)
  have "cstring s" by (rule print_cstring [OF assms(1) p])
  with parse_print [OF assms(1,2) p] s(2) show ?thesis by (simp add: read_json_file_text)
qed

text \<open>A file that cannot be opened for writing keeps what it held.\<close>

lemma json_file_kept: "read_json_file (the (write_json_file False v file)) = read_json_file file"
  by simp

end
