(* ===== verification/WebServer.thy ===== *)
theory WebServer
  imports Uri Startup
begin

text \<open>
  The first homework's server, \<open>src/hw1/src/main.c\<close>: start-up, the loop over \<open>accept\<close> that
  forks a process for every connection, and the request such a process answers. The files,
  their times and the date are the environment; a process ends with an exit status, and what
  it did on its connection is the list of its calls of \<open>send\<close> and \<open>close\<close>. Operations that
  hw4 has in the same words are those of \<open>Http\<close> and \<open>Uri\<close>; those that differ have the
  suffix 1. Definitions are \<open>None\<close> where the C code is undefined.
\<close>

subsection \<open>File name and type\<close>

text \<open>\<open>sizeof(path_tok_prev)\<close> is the size of a pointer: that is the room for each copy.\<close>

definition POINTER_SIZE :: nat where
  "POINTER_SIZE = 8"

definition parse_http_uri_1 :: "string \<Rightarrow> (string \<times> string option) option" where
  "parse_http_uri_1 path = do {
     let (path_tok, rest) = strtok_r ''/'' path;
     path_tok_prev \<leftarrow> last_token ''/'' path_tok rest;
     filename \<leftarrow> strcpy_buf POINTER_SIZE path_tok_prev;
     filetype \<leftarrow> strcpy_buf POINTER_SIZE path_tok_prev;
     let (_, rest) = strtok_r ''.'' filetype;
     Some (filename, fst (strtok_r ''.'' rest)) }"

text \<open>The result is \<open>Inl\<close> the exit status for an extension that is not in the table.\<close>

definition content_type_lookup_1 :: "string option \<Rightarrow> int + string \<times> int" where
  "content_type_lookup_1 filetype =
     (case filetype of
        None \<Rightarrow> Inr (''application/octet-stream'', 0)
      | Some t \<Rightarrow>
          if t = ''txt'' then Inr (''text/plain'', 0)
          else if t = ''css'' then Inr (''text/css'', 0)
          else if t = ''htm'' then Inr (''text/html'', 0)
          else if t = ''html'' then Inr (''text/html'', 0)
          else if t = ''jpg'' then Inr (''image/jpeg'', 0)
          else if t = ''jpeg'' then Inr (''image/jpeg'', 0)
          else if t = ''png'' then Inr (''image/png'', 0)
          else if t = ''js'' then Inr (''application/javascript'', 0)
          else if t = ''mp4'' then Inr (''video/webm'', 1)
          else if t = ''webm'' then Inr (''video/webm'', 1)
          else if t = ''ogg'' then Inr (''video/webm'', 1)
          else Inl 1)"

subsection \<open>The file\<close>

text \<open>
  The result is what is sent and, when the function ends the process, its exit status. The
  bytes of a range and the headers are put together as in \<open>Http\<close>.
\<close>

definition transfer_file_chunk_1 ::
  "string \<Rightarrow> string \<Rightarrow> string option \<Rightarrow> string \<Rightarrow> int \<Rightarrow> string \<Rightarrow>
    (tcp_action list \<times> int option) option" where
  "transfer_file_chunk_1 date last_modified file og_req_buffer socket_fd content_type =
     (case file of
        None \<Rightarrow> Some ([CloseFd socket_fd], Some 1)
      | Some content \<Rightarrow> do {
          date_timestamp \<leftarrow> generate_timestamp 200 date;
          let file_size = int (length content);
          case strstr og_req_buffer ''Range:'' of
            Some range_header \<Rightarrow> do {
              (range_start, range_end) \<leftarrow> chunk_range range_header file_size;
              if 0 \<le> u64 range_start \<and> u64 range_start < u64 file_size
              then do {
                let range_end = (if u64 file_size \<le> u64 range_end then file_size - 1 else range_end);
                headers \<leftarrow> sprintf_buf 1000
                  (headers_206 range_start range_end file_size content_type last_modified date_timestamp);
                chunks \<leftarrow> range_chunks content (nat range_start) (i64 (range_end - range_start + 1));
                Some (Send socket_fd headers # map (Send socket_fd) chunks, None) }
              else do {
                headers \<leftarrow> sprintf_buf 1000 (headers_416 file_size date_timestamp);
                Some ([Send socket_fd headers], None) } }
          | None \<Rightarrow> do {
              headers \<leftarrow> sprintf_buf 1000
                (headers_200 file_size content_type last_modified date_timestamp);
              Some (Send socket_fd headers # map (Send socket_fd) (read_chunks content), None) } })"

lemma transfer_file_chunk_1_eq:
  "transfer_file_chunk_1 date last_modified file req fd ct =
     map_option (\<lambda>a. (a, if file = None then Some 1 else None))
       (transfer_file_chunk date last_modified file req fd ct)"
  by (auto simp: transfer_file_chunk_1_def transfer_file_chunk_def Let_def map_option_bind o_def
      split: option.splits prod.splits Option.bind_splits if_splits)

text \<open>The other routine, which the program no longer calls.\<close>

definition transfer_standard_file_1 ::
  "string \<Rightarrow> string option \<Rightarrow> int \<Rightarrow> string \<Rightarrow> (tcp_action list \<times> int option) option" where
  "transfer_standard_file_1 last_modified file socket_fd content_type =
     (case file of
        None \<Rightarrow> Some ([Send socket_fd (''HTTP/1.1 404 Not Found'' @ crlf @
            ''Content-Type: text/html; charset=UTF-8'' @ crlf @ crlf @
            ''<html><body>404 Not Found</body></html>'' @ crlf), CloseFd socket_fd], Some 1)
      | Some content \<Rightarrow> do {
          let file_size = int (length content);
          headers \<leftarrow> sprintf_buf 1000
            (''HTTP/1.1 200 OK'' @ crlf @ ''Content-Type: '' @ content_type @ crlf @
             ''Content-Length: '' @ show_int file_size @ crlf @
             ''Last-Modified: '' @ last_modified @ crlf @
             ''Connection: Keep-Alive'' @ crlf @ crlf);
          Some (Send socket_fd headers # map (Send socket_fd) (read_chunks content), None) })"

lemma transfer_standard_file_1_body:
  assumes "header_text 200 ct" "header_text 100 lm" "length content < 2 ^ 63"
  shows "\<exists>acts. transfer_standard_file_1 lm (Some content) fd ct = Some (acts, None) \<and>
    http_body (sent fd acts) = Some content"
proof -
  let ?ls = "[''HTTP/1.1 200 OK'', ''Content-Type: '' @ ct,
    ''Content-Length: '' @ show_int (int (length content)), ''Last-Modified: '' @ lm, ''Connection: Keep-Alive'']"
  have l: "length (header_block ?ls []) < 1000"
    using assms length_show_int_bound [of 19 "int (length content)"] by (simp add: header_text_def)
  have "\<forall>l\<in>set ?ls. header_line l"
    using assms by (auto simp: header_text_def header_line_def)
  then have b: "http_body (header_block ?ls content) = Some content"
    by (intro http_body_block) simp_all
  have "transfer_standard_file_1 lm (Some content) fd ct =
      Some (Send fd (header_block ?ls []) # map (Send fd) (read_chunks content), None)"
    using l by (simp add: transfer_standard_file_1_def)
  moreover have "sent fd (Send fd (header_block ?ls []) # map (Send fd) (read_chunks content)) =
      header_block ?ls content"
    by simp
  ultimately show ?thesis using b by auto
qed

subsection \<open>A request\<close>

record web_env =
  we_date :: string
  we_access :: "string \<Rightarrow> bool"
  we_file :: "string \<Rightarrow> string option"
  we_mtime :: "string \<Rightarrow> string"

text \<open>The arrays \<open>buffer\<close> and \<open>file_location\<close>; the latter has room for a pointer behind \<open>/content\<close>.\<close>

definition WEB_RECV_SIZE :: nat where
  "WEB_RECV_SIZE = 1024"

definition FILE_LOCATION_SIZE :: nat where
  "FILE_LOCATION_SIZE = length ''/content'' + 1 + POINTER_SIZE"

definition hello_message :: "string \<Rightarrow> string" where
  "hello_message date_timestamp =
     ''HTTP/1.1 200 OK'' @ crlf @ ''Content-Type: text/html; charset=UTF-8'' @ crlf @
     ''Date: '' @ date_timestamp @ crlf @
     ''<html><body>Hello World!</body></html>'' @ crlf @ crlf"

definition not_found_message :: string where
  "not_found_message =
     ''HTTP/1.1 404 Not Found'' @ crlf @ ''Content-Type: text/html; charset=UTF-8'' @ crlf @ crlf @
     ''<html><body>404 Not Found</body></html>'' @ crlf"

text \<open>
  The child process: its actions and exit status. \<open>received\<close> is what \<open>recv\<close> gives, \<open>None\<close> for
  -1, where the terminator is written before the buffer; when all of the buffer is filled it
  is written behind it.
\<close>

definition child_process :: "web_env \<Rightarrow> string option \<Rightarrow> int \<Rightarrow> (tcp_action list \<times> int) option" where
  "child_process env received new_fd = do {
     bytes \<leftarrow> received;
     if WEB_RECV_SIZE \<le> length bytes then None
     else do {
       let buffer = c_str bytes;
       let (method, path_tok, version) = process_startline buffer;
       path \<leftarrow> path_tok;
       if path = ''/'' then do {
         date_timestamp \<leftarrow> generate_timestamp 100 (we_date env);
         message \<leftarrow> sprintf_buf 200 (hello_message date_timestamp);
         Some ([Send new_fd message, CloseFd new_fd], 0) }
       else do {
         (filename, filetype) \<leftarrow> parse_http_uri_1 path;
         file_location \<leftarrow> strcpy_buf FILE_LOCATION_SIZE (''./content'' @ path);
         if we_access env file_location then
           (case content_type_lookup_1 filetype of
              Inl status \<Rightarrow> Some ([], status)
            | Inr (content_type, is_video_transfer) \<Rightarrow> do {
                (acts, ended) \<leftarrow> transfer_file_chunk_1 (we_date env) (we_mtime env file_location)
                  (we_file env file_location) buffer new_fd content_type;
                Some (case ended of
                    Some status \<Rightarrow> (acts, status)
                  | None \<Rightarrow> (acts @ [CloseFd new_fd], 0)) })
         else Some ([Send new_fd not_found_message, CloseFd new_fd], 0) } } }"

subsection \<open>The server\<close>

text \<open>\<open>main\<close> up to its loop: \<open>Inl\<close> the status it returns or exits with, or the address it listens on.\<close>

definition web_start :: "startup \<Rightarrow> string list \<Rightarrow> int + nat" where
  "web_start su argv =
     (if length argv < 2 then Inl 1
      else let port = argv ! 1 in
      if \<not> port_ok port then Inl 1
      else open_listener True su port)"

text \<open>
  One round of the loop over \<open>accept\<close>: it fails, or gives a descriptor, on which \<open>fork\<close> fails or
  starts a process that receives something. The parent closes its own copy of the descriptor
  in both cases; the child has its own memory. The result of a round is the parent's actions
  and what the child does, if there is one.
\<close>

datatype accept_event = AcceptFails | ForkFails int | Forked int "string option"

fun accept_round :: "web_env \<Rightarrow> accept_event \<Rightarrow> tcp_action list \<times> (tcp_action list \<times> int) option option" where
  "accept_round env AcceptFails = ([], None)"
| "accept_round env (ForkFails new_fd) = ([CloseFd new_fd], None)"
| "accept_round env (Forked new_fd received) =
     ([CloseFd new_fd], Some (child_process env received new_fd))"

fun web_loop ::
  "web_env \<Rightarrow> accept_event list \<Rightarrow> (tcp_action list \<times> (tcp_action list \<times> int) option option) list" where
  "web_loop env [] = []"
| "web_loop env (e # es) = accept_round env e # web_loop env es"

subsection \<open>File names\<close>

lemma parse_http_uri_1_short:
  assumes "length path < POINTER_SIZE" "\<not> set path \<subseteq> {CHR ''/''}"
  shows "\<exists>n t. parse_http_uri_1 path = Some (n, t)"
proof -
  obtain tok rest where t: "strtok_r ''/'' path = (tok, rest)" by fastforce
  moreover from t assms(2) obtain t1 where t1: "tok = Some t1"
    using strtok_r_None_iff [of "''/''" path] by auto
  ultimately have l: "length t1 \<le> length path" "length rest < length path"
    using length_strtok_r_token [of "''/''" path t1] length_strtok_r [of "''/''" path t1] by auto
  obtain u where u: "last_token ''/'' (Some t1) rest = Some u"
    using last_token_total [of "''/''" t1 rest] by auto
  from last_token_length [OF u] l assms(1) have "length u < POINTER_SIZE" by simp
  with t t1 u show ?thesis by (simp add: parse_http_uri_1_def split_beta)
qed

lemma parse_http_uri_1_name:
  assumes "base \<noteq> []" "set base \<inter> {CHR ''/'', CHR ''.''} = {}"
    and "ext \<noteq> []" "set ext \<inter> {CHR ''/'', CHR ''.''} = {}"
    and "length base + length ext + 1 < POINTER_SIZE"
  shows "parse_http_uri_1 (CHR ''/'' # base @ CHR ''.'' # ext) = Some (base @ CHR ''.'' # ext, Some ext)"
proof -
  let ?n = "base @ CHR ''.'' # ext"
  obtain tok rest where t: "strtok_r ''/'' ([CHR ''/''] @ ?n) = (tok, rest)" by fastforce
  have "last_token ''/'' tok rest = Some ?n"
    by (rule last_token_path [OF _ _ _ t]) (use assms(1-4) in auto)
  moreover have "strtok_r ''.'' ?n = (Some base, ext)"
    by (rule strtok_r_split) (use assms(1,2) in auto)
  moreover have "strtok_r ''.'' ext = (Some ext, [])"
    by (rule strtok_r_whole) (use assms(3,4) in auto)
  ultimately show ?thesis using t assms(5) by (simp add: parse_http_uri_1_def)
qed

lemma content_type_1_text: "content_type_lookup_1 t = Inr (ct, v) \<Longrightarrow> header_text 200 ct"
  by (auto simp: content_type_lookup_1_def header_text_def split: option.splits if_splits)

subsection \<open>Requests with a given path\<close>

definition get_request :: "string \<Rightarrow> string \<Rightarrow> string" where
  "get_request path rest = ''GET '' @ path @ '' '' @ rest"

definition web_request :: "string \<Rightarrow> string \<Rightarrow> bool" where
  "web_request path rest \<longleftrightarrow> path \<noteq> [] \<and> CHR '' '' \<notin> set path \<and>
     cstring (get_request path rest) \<and> length (get_request path rest) < WEB_RECV_SIZE"

lemma web_request_child:
  assumes "web_request path rest" "path \<noteq> ''/''"
  shows "child_process env (Some (get_request path rest)) new_fd = do {
     (filename, filetype) \<leftarrow> parse_http_uri_1 path;
     file_location \<leftarrow> strcpy_buf FILE_LOCATION_SIZE (''./content'' @ path);
     if we_access env file_location then
       (case content_type_lookup_1 filetype of
          Inl status \<Rightarrow> Some ([], status)
        | Inr (content_type, is_video_transfer) \<Rightarrow> do {
            (acts, ended) \<leftarrow> transfer_file_chunk_1 (we_date env) (we_mtime env file_location)
              (we_file env file_location) (get_request path rest) new_fd content_type;
            Some (case ended of Some status \<Rightarrow> (acts, status) | None \<Rightarrow> (acts @ [CloseFd new_fd], 0)) })
     else Some ([Send new_fd not_found_message, CloseFd new_fd], 0) }"
proof -
  have r: "c_str (get_request path rest) = get_request path rest" "length (get_request path rest) < WEB_RECV_SIZE"
    using assms(1) by (simp_all add: web_request_def c_str_id)
  obtain v where v: "process_startline (get_request path rest) = (Some ''GET'', Some path, v)"
    using process_startline_words [of "''GET''" path rest] assms(1)
    by (auto simp: web_request_def get_request_def)
  show ?thesis unfolding child_process_def using r assms(2) v by simp
qed

subsection \<open>Properties\<close>

text \<open>
  C39. A request for a file that is not there is answered with 404 and the connection is closed
  when its path has at most seven characters (and not only slashes). Every longer path, found
  or not, is undefined behaviour: the file name or the location is copied past the end of a
  buffer that was sized by a pointer, not by the string.
\<close>

theorem web_paths_of_seven:
  assumes "web_request path rest" "\<not> set path \<subseteq> {CHR ''/''}"
  shows "if length path \<le> 7
    then \<not> we_access env (''./content'' @ path) \<longrightarrow>
      child_process env (Some (get_request path rest)) fd = Some ([Send fd not_found_message, CloseFd fd], 0)
    else child_process env (Some (get_request path rest)) fd = None"
proof -
  have p: "path \<noteq> ''/''" using assms(2) by auto
  show ?thesis
  proof (cases "length path \<le> 7")
    case True
    then obtain n t where "parse_http_uri_1 path = Some (n, t)"
      using parse_http_uri_1_short [of path] assms(2) by (auto simp: POINTER_SIZE_def)
    moreover have "strcpy_buf FILE_LOCATION_SIZE (''./content'' @ path) = Some (''./content'' @ path)"
      using True by (simp add: FILE_LOCATION_SIZE_def POINTER_SIZE_def)
    ultimately show ?thesis using True by (simp add: web_request_child [OF assms(1) p])
  next
    case False
    then have "strcpy_buf FILE_LOCATION_SIZE (''./content'' @ path) = None"
      by (simp add: FILE_LOCATION_SIZE_def POINTER_SIZE_def)
    with False show ?thesis
      by (simp add: web_request_child [OF assms(1) p] split_beta bind_eq_None_conv)
  qed
qed

lemma web_paths_of_seven_witness:
  "child_process \<lparr>we_date = ''now'', we_access = \<lambda>_. False, we_file = \<lambda>_. None, we_mtime = \<lambda>_. ''then''\<rparr>
     (Some (get_request ''/a.html'' ''HTTP/1.1'')) 5 = Some ([Send 5 not_found_message, CloseFd 5], 0) \<and>
   child_process \<lparr>we_date = ''now'', we_access = \<lambda>_. True, we_file = \<lambda>_. Some ''x'', we_mtime = \<lambda>_. ''then''\<rparr>
     (Some (get_request ''/in.html'' ''HTTP/1.1'')) 5 = None"
proof -
  have "web_request ''/a.html'' ''HTTP/1.1''" "web_request ''/in.html'' ''HTTP/1.1''"
    by (simp_all add: web_request_def get_request_def WEB_RECV_SIZE_def cstring_def)
  moreover have "\<not> set ''/a.html'' \<subseteq> {CHR ''/''}" "\<not> set ''/in.html'' \<subseteq> {CHR ''/''}" by simp_all
  ultimately show ?thesis
    using web_paths_of_seven [of "''/a.html''" "''HTTP/1.1''"
        "\<lparr>we_date = ''now'', we_access = \<lambda>_. False, we_file = \<lambda>_. None, we_mtime = \<lambda>_. ''then''\<rparr>" 5]
      web_paths_of_seven [of "''/in.html''" "''HTTP/1.1''"
        "\<lparr>we_date = ''now'', we_access = \<lambda>_. True, we_file = \<lambda>_. Some ''x'', we_mtime = \<lambda>_. ''then''\<rparr>" 5]
    by simp
qed

text \<open>
  C40. A file of the content directory with a known extension whose path has at most seven
  characters is sent whole in one response to a request without a range: the headers, then
  exactly its bytes; then the connection is closed and the process ends with status 0.
\<close>

theorem web_file_served:
  assumes "web_request (CHR ''/'' # base @ CHR ''.'' # ext) rest"
    and "base \<noteq> []" "set base \<inter> {CHR ''/'', CHR ''.''} = {}"
    and "ext \<noteq> []" "set ext \<inter> {CHR ''/'', CHR ''.''} = {}" "length base + length ext \<le> 5"
    and "content_type_lookup_1 (Some ext) = Inr (ct, v)"
    and "strstr (get_request (CHR ''/'' # base @ CHR ''.'' # ext) rest) ''Range:'' = None"
    and loc: "loc = ''./content/'' @ base @ CHR ''.'' # ext"
    and "we_access env loc" "we_file env loc = Some content" "length content < 2 ^ 63"
    and "header_text 100 (we_mtime env loc)" "header_text 100 (we_date env)"
  shows "\<exists>acts. child_process env (Some (get_request (CHR ''/'' # base @ CHR ''.'' # ext) rest)) fd =
      Some (acts @ [CloseFd fd], 0) \<and> http_body (sent fd acts) = Some content"
proof -
  let ?p = "CHR ''/'' # base @ CHR ''.'' # ext"
  have p: "?p \<noteq> ''/''" by simp
  have n: "parse_http_uri_1 ?p = Some (base @ CHR ''.'' # ext, Some ext)"
    by (rule parse_http_uri_1_name) (use assms(2-6) in \<open>simp_all add: POINTER_SIZE_def\<close>)
  have l: "strcpy_buf FILE_LOCATION_SIZE (''./content'' @ ?p) = Some loc"
    using assms(6) by (simp add: loc FILE_LOCATION_SIZE_def POINTER_SIZE_def)
  have "header_text 200 (we_date env)" using assms(14) by (simp add: header_text_def)
  then obtain acts where "transfer_file_chunk (we_date env) (we_mtime env loc) (Some content)
      (get_request ?p rest) fd ct = Some acts" "http_body (sent fd acts) = Some content"
    using transfer_file_chunk_whole [OF assms(8,12) content_type_1_text [OF assms(7)] assms(13)] by blast
  with n l assms(7,10,11) show ?thesis
    by (simp add: web_request_child [OF assms(1) p] transfer_file_chunk_1_eq)
qed

lemma web_file_served_witness:
  "\<exists>acts. child_process \<lparr>we_date = ''now'', we_access = \<lambda>_. True, we_file = \<lambda>_. Some ''hi'', we_mtime = \<lambda>_. ''then''\<rparr>
     (Some (get_request ''/a.txt'' ''HTTP/1.1'')) 5 = Some (acts @ [CloseFd 5], 0) \<and> http_body (sent 5 acts) = Some ''hi''"
  using web_file_served [of "''a''" "''txt''" "''HTTP/1.1''" "''text/plain''" 0 _
    "\<lparr>we_date = ''now'', we_access = \<lambda>_. True, we_file = \<lambda>_. Some ''hi'', we_mtime = \<lambda>_. ''then''\<rparr>" "''hi''" 5]
  by (simp add: web_request_def get_request_def WEB_RECV_SIZE_def cstring_def content_type_lookup_1_def
      header_text_def starts_with_def)

subsection \<open>Start-up and the loop\<close>

lemma web_start_listens:
  assumes "length argv = 2" "port_ok (argv ! 1)"
    and "su_getaddrinfo su (argv ! 1) = Some (as @ SocketOk True True # p)" "\<forall>a\<in>set as. skipped True a"
    and "su_listen su" "su_sigaction su"
  shows "web_start su argv = Inr (length as)"
  using assms open_listener_binds [OF assms(3-6)] by (simp add: web_start_def)

text \<open>
  The processes share no memory: what one connection does, undefined behaviour included, does
  not change what the server does on the connections before and after it.
\<close>

lemma web_loop_append: "web_loop env (es @ fs) = web_loop env es @ web_loop env fs"
  by (induction es) auto

lemma web_loop_isolated:
  "web_loop env (es @ e # fs) = web_loop env es @ accept_round env e # web_loop env fs"
  by (simp add: web_loop_append)

end
